(* ===== verification/KF_Prelude.thy ===== *)
theory KF_Prelude
  imports Main "HOL-Library.Char_ord" "HOL-Library.List_Lexorder" "HOL-Library.Word"
    "HOL-Library.Multiset"
begin

text \<open>
  What every component of the development shares: results that are an error or a value
  (a thrown exception is \<open>Inl\<close>), decimal numerals as JavaScript prints them, the
  stable sort by a comparator that \<open>Array.prototype.sort\<close> performs, and the collections
  of facts the component theories extend.

  Strings of the program are UTF-16 code unit sequences. Where the code reads code units
  (canonicalization) they are lists of 16-bit words (\<open>jstr\<close>); identifiers, state names
  and messages elsewhere are HOL strings, whose characters are the code units up to 255,
  compared in the same order (\<open>Char_ord\<close>, \<open>List_Lexorder\<close>). \<open>units\<close> is the embedding.
\<close>

named_theorems result_simps \<open>unfolding of results and guards\<close>
named_theorems wf_intros \<open>preservation of well-formedness invariants\<close>

section \<open>Results\<close>

definition bindE :: "'e + 'a \<Rightarrow> ('a \<Rightarrow> 'e + 'b) \<Rightarrow> 'e + 'b" where
  "bindE m f = (case m of Inl e \<Rightarrow> Inl e | Inr x \<Rightarrow> f x)"

definition unlessE :: "bool \<Rightarrow> 'e \<Rightarrow> 'e + unit" where
  "unlessE ok e = (if ok then Inr () else Inl e)"

lemma bindE_Inl [simp]: "bindE (Inl e) f = Inl e"
  by (simp add: bindE_def)

lemma bindE_Inr [simp]: "bindE (Inr x) f = f x"
  by (simp add: bindE_def)

lemma bindE_eq_Inr [result_simps]: "bindE m f = Inr y \<longleftrightarrow> (\<exists>x. m = Inr x \<and> f x = Inr y)"
  by (cases m) simp_all

lemma bindE_eq_Inl [result_simps]:
  "bindE m f = Inl e \<longleftrightarrow> m = Inl e \<or> (\<exists>x. m = Inr x \<and> f x = Inl e)"
  by (cases m) simp_all

lemma unlessE_eq_Inr [simp]: "unlessE ok e = Inr u \<longleftrightarrow> ok"
  by (simp add: unlessE_def)

lemma unlessE_eq_Inl [simp]: "unlessE ok e = Inl e' \<longleftrightarrow> \<not> ok \<and> e' = e"
  by (auto simp: unlessE_def)

lemma unlessE_True [simp]: "unlessE True e = Inr ()"
  by (simp add: unlessE_def)

lemma unlessE_False [simp]: "unlessE False e = Inl e"
  by (simp add: unlessE_def)

lemma bindE_assoc: "bindE (bindE m f) g = bindE m (\<lambda>x. bindE (f x) g)"
  by (cases m) simp_all

lemma bindE_cong [fundef_cong]:
  "m = m' \<Longrightarrow> (\<And>x. m' = Inr x \<Longrightarrow> f x = f' x) \<Longrightarrow> bindE m f = bindE m' f'"
  by (cases m') simp_all

lemma bindE_mono_Inr: "bindE m f = Inr y \<Longrightarrow> (\<And>x. f x = Inr y \<Longrightarrow> g x = Inr z) \<Longrightarrow> bindE m g = Inr z"
  by (cases m) simp_all

text \<open>\<open>xs.map(f)\<close> of a function that may throw: the first failure ends it.\<close>

fun mapE :: "('a \<Rightarrow> 'e + 'b) \<Rightarrow> 'a list \<Rightarrow> 'e + 'b list" where
  "mapE f [] = Inr []"
| "mapE f (x # xs) = bindE (f x) (\<lambda>y. bindE (mapE f xs) (\<lambda>ys. Inr (y # ys)))"

lemma mapE_eq_Inr: "mapE f xs = Inr ys \<longleftrightarrow> list_all2 (\<lambda>x y. f x = Inr y) xs ys"
  by (induction xs arbitrary: ys) (auto simp: bindE_eq_Inr list_all2_Cons1)

lemma mapE_total: "(\<And>x. x \<in> set xs \<Longrightarrow> f x = Inr (g x)) \<Longrightarrow> mapE f xs = Inr (map g xs)"
  by (induction xs) auto

lemma mapE_Inl: "mapE f xs = Inl e \<Longrightarrow> \<exists>x\<in>set xs. f x = Inl e"
  by (induction xs) (auto simp: bindE_eq_Inl)

section \<open>Decimal numerals\<close>

definition digit_char :: "nat \<Rightarrow> char" where
  "digit_char d = char_of (48 + d)"

definition char_digit :: "char \<Rightarrow> nat" where
  "char_digit c = of_char c - 48"

definition is_digit :: "char \<Rightarrow> bool" where
  "is_digit c \<longleftrightarrow> (48::nat) \<le> of_char c \<and> of_char c \<le> (57::nat)"

text \<open>\<open>String(n)\<close> of a non-negative integer.\<close>

fun dec :: "nat \<Rightarrow> string" where
  "dec n = (if n < 10 then [digit_char n] else dec (n div 10) @ [digit_char (n mod 10)])"

declare dec.simps [simp del]

text \<open>The number a decimal string denotes.\<close>

definition undec :: "string \<Rightarrow> nat" where
  "undec s = foldl (\<lambda>acc c. 10 * acc + char_digit c) 0 s"

lemma char_digit_digit_char [simp]: "d < 10 \<Longrightarrow> char_digit (digit_char d) = d"
  by (simp add: char_digit_def digit_char_def)

lemma is_digit_digit_char [simp]: "d < 10 \<Longrightarrow> is_digit (digit_char d)"
  by (simp add: is_digit_def digit_char_def)

lemma digit_char_char_digit [simp]: "is_digit c \<Longrightarrow> digit_char (char_digit c) = c"
  by (simp add: is_digit_def digit_char_def char_digit_def)

lemma char_digit_less: "is_digit c \<Longrightarrow> char_digit c < 10"
  unfolding is_digit_def char_digit_def by arith

lemma digit_char_eq_iff: "d < 10 \<Longrightarrow> e < 10 \<Longrightarrow> digit_char d = digit_char e \<longleftrightarrow> d = e"
  by (metis char_digit_digit_char)

lemma undec_dec [simp]: "undec (dec n) = n"
proof (induction n rule: dec.induct)
  case (1 n)
  then show ?case
    by (subst dec.simps) (simp add: undec_def)
qed

lemma dec_inject [simp]: "dec m = dec n \<longleftrightarrow> m = n"
  by (metis undec_dec)

lemma dec_digits: "c \<in> set (dec n) \<Longrightarrow> is_digit c"
proof (induction n rule: dec.induct)
  case (1 n)
  then show ?case
    by (subst (asm) (2) dec.simps) (auto split: if_splits)
qed

lemma dec_not_Nil [simp]: "dec n \<noteq> []"
  by (subst dec.simps) simp

lemma hd_dec: "n > 0 \<Longrightarrow> hd (dec n) \<noteq> CHR ''0''"
proof (induction n rule: dec.induct)
  case (1 n)
  have zero: "CHR ''0'' = digit_char 0"
    by code_simp
  show ?case
  proof (cases "n < 10")
    case True
    with 1 show ?thesis
      by (simp add: dec.simps [of n] zero digit_char_eq_iff)
  next
    case False
    with 1 show ?thesis
      by (subst dec.simps) simp
  qed
qed

lemma last_dec: "last (dec n) = digit_char (n mod 10)"
  by (subst dec.simps) simp

text \<open>\<open>s.padStart(w, '0')\<close>.\<close>

definition pad_start :: "nat \<Rightarrow> string \<Rightarrow> string" where
  "pad_start w s = replicate (w - length s) CHR ''0'' @ s"

lemma length_pad_start: "length s \<le> w \<Longrightarrow> length (pad_start w s) = w"
  by (simp add: pad_start_def)

lemma length_dec_le: "n < 10 ^ w \<Longrightarrow> 0 < w \<Longrightarrow> length (dec n) \<le> w"
proof (induction w arbitrary: n)
  case 0
  then show ?case by simp
next
  case (Suc w)
  show ?case
  proof (cases "n < 10")
    case True
    then show ?thesis by (subst dec.simps) simp
  next
    case False
    with Suc.prems have "0 < w"
      by (cases w) auto
    moreover from Suc.prems have "n div 10 < 10 ^ w"
      by (simp add: less_mult_imp_div_less mult.commute)
    ultimately have "length (dec (n div 10)) \<le> w"
      by (rule Suc.IH [rotated])
    with False show ?thesis by (subst dec.simps) simp
  qed
qed

lemma pad_start_digits: "list_all is_digit s \<Longrightarrow> list_all is_digit (pad_start w s)"
  by (auto simp: pad_start_def list_all_iff is_digit_def)

section \<open>Code units\<close>

type_synonym jstr = "16 word list"

definition units :: "string \<Rightarrow> jstr" where
  "units = map (\<lambda>c. word_of_nat (of_char c))"

lemma unat_unit: "unat (word_of_nat (of_char c) :: 16 word) = of_char c"
proof -
  have "(of_char c :: nat) < 2 ^ LENGTH(16)"
    by (rule order.strict_trans [of _ 256]) simp_all
  then show ?thesis by (simp add: unat_of_nat take_bit_nat_eq_self)
qed

lemma unit_inject: "(word_of_nat (of_char c) :: 16 word) = word_of_nat (of_char d) \<longleftrightarrow> c = d"
  by (metis unat_unit char_of_char)

lemma units_inject [simp]: "units s = units t \<longleftrightarrow> s = t"
proof -
  have "inj (\<lambda>c. word_of_nat (of_char c) :: 16 word)"
    by (rule injI) (simp add: unit_inject)
  then show ?thesis by (auto simp: units_def inj_map_eq_map)
qed

lemma units_append [simp]: "units (s @ t) = units s @ units t"
  by (simp add: units_def)

lemma units_Nil [simp]: "units [] = []"
  by (simp add: units_def)

lemma units_Cons: "units (c # s) = word_of_nat (of_char c) # units s"
  by (simp add: units_def)

lemma units_eq_Nil [simp]: "units s = [] \<longleftrightarrow> s = []"
  by (simp add: units_def)

section \<open>Stable sorting by a comparator\<close>

text \<open>
  \<open>xs.sort(cmp)\<close> is stable and needs \<open>cmp\<close> to be a total preorder; \<open>le a b\<close> stands for
  \<open>cmp(a, b) <= 0\<close>. The locale is the interface every comparator of the program is shown
  to satisfy.
\<close>

fun insert_by :: "('a \<Rightarrow> 'a \<Rightarrow> bool) \<Rightarrow> 'a \<Rightarrow> 'a list \<Rightarrow> 'a list" where
  "insert_by le x [] = [x]"
| "insert_by le x (y # ys) = (if le x y then x # y # ys else y # insert_by le x ys)"

definition sort_by :: "('a \<Rightarrow> 'a \<Rightarrow> bool) \<Rightarrow> 'a list \<Rightarrow> 'a list" where
  "sort_by le xs = foldr (insert_by le) xs []"

lemma mset_insert_by [simp]: "mset (insert_by le x ys) = add_mset x (mset ys)"
  by (induction ys) auto

lemma mset_sort_by [simp]: "mset (sort_by le xs) = mset xs"
  by (induction xs) (auto simp: sort_by_def)

lemma set_sort_by [simp]: "set (sort_by le xs) = set xs"
  by (metis mset_sort_by set_mset_mset)

lemma length_sort_by [simp]: "length (sort_by le xs) = length xs"
  by (metis mset_sort_by size_mset)

lemma sort_by_Nil [simp]: "sort_by le [] = []"
  by (simp add: sort_by_def)

lemma sort_by_Cons: "sort_by le (x # xs) = insert_by le x (sort_by le xs)"
  by (simp add: sort_by_def)

lemma distinct_map_sort_by: "distinct (map f (sort_by le xs)) = distinct (map f xs)"
  by (metis mset_map mset_sort_by mset_eq_imp_distinct_iff)

locale comparator_order =
  fixes le :: "'a \<Rightarrow> 'a \<Rightarrow> bool"
  assumes total: "le x y \<or> le y x"
    and trans: "le x y \<Longrightarrow> le y z \<Longrightarrow> le x z"
begin

lemma refl: "le x x"
  using total by blast

lemma sorted_insert: "sorted_wrt le ys \<Longrightarrow> sorted_wrt le (insert_by le x ys)"
proof (induction ys)
  case Nil
  then show ?case by simp
next
  case (Cons y ys)
  have "set (insert_by le x ys) = insert x (set ys)"
    by (metis mset_insert_by set_mset_add_mset_insert set_mset_mset)
  with Cons show ?case
    using total trans by (auto simp: sorted_wrt.simps(2))
qed

lemma sorted_sort: "sorted_wrt le (sort_by le xs)"
  by (induction xs) (auto simp: sort_by_Cons intro: sorted_insert)

lemma hd_sort_le: "y \<in> set xs \<Longrightarrow> le (hd (sort_by le xs)) y"
proof -
  assume "y \<in> set xs"
  then have y: "y \<in> set (sort_by le xs)" by simp
  then obtain z zs where eq: "sort_by le xs = z # zs" by (cases "sort_by le xs") auto
  with sorted_sort [of xs] y show ?thesis by (auto intro: refl)
qed

lemma sorted_unique:
  assumes "\<And>x y. x \<in> set xs \<Longrightarrow> y \<in> set xs \<Longrightarrow> le x y \<Longrightarrow> le y x \<Longrightarrow> x = y"
    and "mset xs = mset ys" and "sorted_wrt le xs" and "sorted_wrt le ys"
  shows "xs = ys"
  using assms
proof (induction xs arbitrary: ys)
  case Nil
  then show ?case by simp
next
  case (Cons x xs)
  then obtain y ys' where ys: "ys = y # ys'" by (cases ys) auto
  have sets: "set (x # xs) = set ys"
    using Cons.prems(2) by (metis set_mset_mset)
  then have "y \<in> set (x # xs)" and "x \<in> set ys"
    using ys by auto
  then have "le x y" and "le y x"
    using Cons.prems(3,4) ys refl by auto
  moreover note sets
  ultimately have "x = y"
    using Cons.prems(1) ys by auto
  moreover have "xs = ys'"
    using Cons.prems ys \<open>x = y\<close> by (intro Cons.IH) auto
  ultimately show ?case using ys by simp
qed

lemma sort_by_permutation:
  assumes "\<And>x y. x \<in> set xs \<Longrightarrow> y \<in> set xs \<Longrightarrow> le x y \<Longrightarrow> le y x \<Longrightarrow> x = y"
    and "mset xs = mset ys"
  shows "sort_by le xs = sort_by le ys"
  by (rule sorted_unique) (use assms in \<open>auto simp: sorted_sort\<close>)

lemma filter_insert_by:
  "sorted_wrt le ys \<Longrightarrow> filter P (insert_by le x ys) = (if P x then insert_by le x (filter P ys) else filter P ys)"
proof (induction ys)
  case (Cons y ys)
  have "insert_by le x zs = x # zs" if "\<forall>z\<in>set zs. le x z" for zs using that by (cases zs) auto
  moreover have "\<forall>z\<in>set (filter P ys). le x z" if "le x y" using that Cons.prems trans by fastforce
  ultimately show ?case using Cons by auto
qed simp

lemma filter_sort_by: "filter P (sort_by le xs) = sort_by le (filter P xs)"
  by (induction xs) (simp_all add: sort_by_Cons filter_insert_by sorted_sort)

lemma sort_by_id: "sorted_wrt le xs \<Longrightarrow> sort_by le xs = xs"
proof (induction xs)
  case Nil
  then show ?case by simp
next
  case (Cons x xs)
  then show ?case by (cases xs) (auto simp: sort_by_Cons)
qed

end

text \<open>Ordering by a key, \<open>a.key < b.key ? -1 : \<dots>\<close>, is such a comparator.\<close>

definition by_key :: "('a \<Rightarrow> 'k::linorder) \<Rightarrow> 'a \<Rightarrow> 'a \<Rightarrow> bool" where
  "by_key f x y \<longleftrightarrow> f x \<le> f y"

interpretation key_order: comparator_order "by_key f" for f :: "'a \<Rightarrow> 'k::linorder"
  by unfold_locales (auto simp: by_key_def)

section \<open>Lists\<close>

lemma mset_size_list: "mset xs = mset ys \<Longrightarrow> size_list f xs = size_list f ys"
proof -
  assume m: "mset xs = mset ys"
  then have "mset (map f xs) = mset (map f ys)" by simp
  then have "sum_list (map f xs) = sum_list (map f ys)" by (metis sum_mset_sum_list)
  moreover have "length xs = length ys" using m by (rule mset_eq_length)
  ultimately show ?thesis by (simp add: size_list_conv_sum_list)
qed

lemma size_list_sort_key [simp]: "size_list f (sort_key g xs) = size_list f xs"
  by (rule mset_size_list) simp


text \<open>\<open>text.split(c)\<close> for a one-character separator: never empty.\<close>

fun split_on :: "char \<Rightarrow> string \<Rightarrow> string list" where
  "split_on c [] = [[]]"
| "split_on c (x # xs) =
     (if x = c then [] # split_on c xs
      else (case split_on c xs of [] \<Rightarrow> [[x]] | p # ps \<Rightarrow> (x # p) # ps))"

lemma split_on_not_Nil [simp]: "split_on c s \<noteq> []"
  by (induction s) (auto split: list.splits)

lemma split_on_plain: "c \<notin> set s \<Longrightarrow> split_on c s = [s]"
  by (induction s) auto

lemma split_on_append: "c \<notin> set s \<Longrightarrow> split_on c (s @ c # t) = s # split_on c t"
  by (induction s) auto

text \<open>\<open>xs.indexOf(x)\<close>.\<close>

fun index_from :: "int \<Rightarrow> 'a \<Rightarrow> 'a list \<Rightarrow> int" where
  "index_from i x [] = - 1"
| "index_from i x (y # ys) = (if x = y then i else index_from (i + 1) x ys)"

definition index_of :: "'a \<Rightarrow> 'a list \<Rightarrow> int" where
  "index_of x xs = index_from 0 x xs"

lemma split_at_unique:
  "c \<notin> set xs \<Longrightarrow> c \<notin> set xs' \<Longrightarrow> xs @ c # ys = xs' @ c # ys' \<Longrightarrow> xs = xs' \<and> ys = ys'"
proof (induction xs arbitrary: xs')
  case Nil
  then show ?case by (cases xs') auto
next
  case (Cons x xs)
  then show ?case by (cases xs') auto
qed

text \<open>\<open>text.includes(word)\<close>.\<close>

definition occurs :: "'a list \<Rightarrow> 'a list \<Rightarrow> bool" where
  "occurs word text = list_ex (\<lambda>i. take (length word) (drop i text) = word) [0..<Suc (length text)]"

lemma occurs_Nil: "occurs word [] \<longleftrightarrow> word = []"
  by (auto simp: occurs_def)

lemma occurs_Cons:
  "word \<noteq> [] \<Longrightarrow> occurs word (c # text) \<longleftrightarrow> take (length word) (c # text) = word \<or> occurs word text"
  unfolding occurs_def list_ex_iff set_upt
  by (auto simp: Bex_def atLeast0LessThan less_Suc_eq_0_disj) (metis drop_Suc_Cons less_Suc_eq_0_disj)+

section \<open>Operations that keep an invariant\<close>

text \<open>
  The contract of a component whose state is only reached through its operations: \<open>step i s\<close>
  is the state after operation \<open>i\<close>, refused or not.
\<close>

locale keeps_invariant =
  fixes step :: "'i \<Rightarrow> 's \<Rightarrow> 's" and inv :: "'s \<Rightarrow> bool"
  assumes keeps: "inv s \<Longrightarrow> inv (step i s)"
begin

lemma run: "inv s \<Longrightarrow> inv (fold step is s)"
  by (induction "is" arbitrary: s) (auto intro: keeps)

lemma run_prefix: "inv s \<Longrightarrow> inv (fold step (take n is) s)"
  by (rule run)

end

end
