(* ===== verification/Canonical_Injective.thy ===== *)
theory Canonical_Injective
  imports Canonical_Data
begin

text \<open>
  Rendering of JSON data is injective and prefix-free (numbers, strings, arrays, objects),
  and so is the UTF-8 encoding: canonical bytes determine the datum.
\<close>

lemma magnitude_hd:
  assumes "trimmed ds"
  shows "is_digit (hd (magnitude_text ds n))" and "magnitude_text ds n \<noteq> []"
proof -
  obtain d rest where ds: "ds = d # rest" and d: "is_digit d"
    using assms by (cases ds) (auto simp: trimmed_def)
  have "is_digit CHR ''0''" by (simp add: is_digit_def)
  with d show "is_digit (hd (magnitude_text ds n))" and "magnitude_text ds n \<noteq> []"
    by (auto simp: magnitude_text_def Let_def ds nat_eq_iff take_Cons')
qed

lemma num_text_inject:
  assumes "trimmed (dec s)" and "trimmed (dec t)"
  shows "num_text (Finite neg s m) = num_text (Finite neg' t n) \<longleftrightarrow> neg = neg' \<and> s = t \<and> m = n"
proof
  assume eq: "num_text (Finite neg s m) = num_text (Finite neg' t n)"
  have "hd (magnitude_text (dec s) m) \<noteq> CHR ''-''" "hd (magnitude_text (dec t) n) \<noteq> CHR ''-''"
    using magnitude_hd(1) [OF assms(1)] magnitude_hd(1) [OF assms(2)]
    by (auto dest: digit_not_punctuation)
  with eq have "neg = neg'"
    by (cases neg; cases neg'; metis append_Cons append_Nil list.sel(1) num_text.simps(4))
  with eq have "neg = neg'" and "magnitude_text (dec s) m = magnitude_text (dec t) n"
    by simp_all
  moreover from this have "(dec s, m) = (dec t, n)"
    using unmagnitude_magnitude_text [OF assms(1), of m]
      unmagnitude_magnitude_text [OF assms(2), of n] by metis
  ultimately show "neg = neg' \<and> s = t \<and> m = n" by simp
qed simp

lemma is_digit_list: "is_digit c \<longleftrightarrow> c \<in> set ''0123456789''"
proof
  assume d: "is_digit c"
  have "\<forall>d\<in>set [0..<10]. digit_char d \<in> set ''0123456789''" by code_simp
  moreover have "char_digit c \<in> set [0..<10]" using d by (simp add: char_digit_less)
  ultimately have "digit_char (char_digit c) \<in> set ''0123456789''" by (rule bspec)
  with d show "c \<in> set ''0123456789''" by (simp only: digit_char_char_digit)
next
  have "\<forall>c\<in>set ''0123456789''. is_digit c" by code_simp
  then show "c \<in> set ''0123456789'' \<Longrightarrow> is_digit c" by (rule bspec)
qed

lemma units_subset: "set s \<subseteq> set t \<Longrightarrow> set (units s) \<subseteq> set (units t)"
  by (auto simp: units_def)

lemma num_text_all:
  assumes "\<And>k. list_all P (dec k)" and "P CHR ''0''" "P CHR ''.''" "P CHR ''e''" "P CHR ''+''" "P CHR ''-''"
  shows "list_all P (num_text (Finite neg s n))"
proof -
  have "list_all P (take k (dec s))" "list_all P (drop k (dec s))" for k
    using assms(1) [of s] by (auto simp: list_all_iff dest: in_set_takeD in_set_dropD)
  with assms show ?thesis
    by (auto simp: magnitude_text_def Let_def list_all_iff)
qed

lemma num_text_set: "set (num_text (Finite neg s n)) \<subseteq> set ''0123456789+-.e''"
proof -
  have sub: "set ''0123456789'' \<subseteq> set ''0123456789+-.e''" by code_simp
  have "list_all (\<lambda>c. c \<in> set ''0123456789+-.e'') (num_text (Finite neg s n))"
  proof (rule num_text_all)
    show "list_all (\<lambda>c. c \<in> set ''0123456789+-.e'') (dec k)" for k
      using sub dec_digits [of _ k] unfolding list_all_iff is_digit_list by blast
  qed code_simp+
  then show ?thesis by (simp only: list_all_iff subset_iff) blast
qed

lemma number_units: "u \<in> set (units (num_text (Finite neg s n))) \<Longrightarrow> number_unit u"
  unfolding number_unit_def by (rule subsetD [OF units_subset [OF num_text_set]])

lemma zero_unit: "u \<in> set (units ''0'') \<Longrightarrow> number_unit u"
  by (auto simp: number_unit_def units_def)

lemma stops_not_number: "stops r \<Longrightarrow> r = [] \<or> \<not> number_unit (hd r)"
proof -
  have "\<forall>u\<in>set (units '',]}''). \<not> number_unit u"
    unfolding number_unit_def by code_simp
  then show "stops r \<Longrightarrow> r = [] \<or> \<not> number_unit (hd r)"
    by (auto simp: stops_def)
qed

lemma number_token:
  assumes "\<And>u. u \<in> set t \<Longrightarrow> number_unit u" "\<And>u. u \<in> set t' \<Longrightarrow> number_unit u"
    and "t @ r = t' @ r'" and "stops r" and "stops r'"
  shows "t = t' \<and> r = r'"
proof -
  have tok: "takeWhile number_unit (x @ y) = x" if "\<And>u. u \<in> set x \<Longrightarrow> number_unit u" "stops y" for x y
    using that stops_not_number [OF that(2)]
    by (subst takeWhile_append2) (auto simp: takeWhile_eq_Nil_iff)
  have "t = takeWhile number_unit (t @ r)"
    using assms(1,4) by (rule tok [symmetric])
  also have "\<dots> = takeWhile number_unit (t' @ r')"
    using assms(3) by simp
  also have "\<dots> = t'"
    using assms(2,5) by (rule tok)
  finally have "t = t'" .
  with assms(3) show ?thesis by simp
qed

subsection \<open>Strings\<close>

definition hex_value :: "16 word \<Rightarrow> nat" where
  "hex_value u = (if unat u < 58 then unat u - 48 else unat u - 87)"

definition unescape :: "jstr \<Rightarrow> 16 word \<times> jstr" where
  "unescape s =
     (if hd s \<noteq> 0x5C then (hd s, tl s)
      else if s ! 1 = 0x75 then
        (word_of_nat (16 * hex_value (s ! 4) + hex_value (s ! 5)), drop 6 s)
      else ((if s ! 1 = 0x62 then 8 else if s ! 1 = 0x74 then 9 else if s ! 1 = 0x6E then 10
             else if s ! 1 = 0x66 then 12 else if s ! 1 = 0x72 then 13 else s ! 1), drop 2 s))"

lemma hex_value_char: "d < 16 \<Longrightarrow> hex_value (word_of_nat (of_char (hex_char d))) = d"
proof -
  have "\<forall>d\<in>set [0..<16]. (let n = of_char (hex_char d) :: nat in if n < 58 then n - 48 else n - 87) = d"
    by code_simp
  then show "d < 16 \<Longrightarrow> hex_value (word_of_nat (of_char (hex_char d))) = d"
    unfolding hex_value_def unat_unit by (simp add: Let_def)
qed

lemma unicode_escape_control:
  assumes "u < 0x20"
  obtains a b where "unicode_escape u = [0x5C, 0x75, 0x30, 0x30, a, b]"
    and "16 * hex_value a + hex_value b = unat u"
proof -
  let ?a = "unat u div 16" and ?b = "unat u mod 16"
  have u: "unat u < 32"
    using assms by (simp add: word_less_nat_alt)
  then have small: "unat u div 4096 = 0" "unat u div 256 = 0" "?a < 16" "?b < 16" "?a mod 16 = ?a"
    by simp_all
  have fixed: "units (CHR 0x5C # ''u00'') = [0x5C, 0x75, 0x30, 0x30]"
    by (simp add: units_def)
  have zero: "hex_char 0 = CHR ''0''"
    by (simp add: hex_char_def)
  have "unicode_escape u = units (CHR 0x5C # ''u00'') @ units [hex_char ?a, hex_char ?b]"
    unfolding unicode_escape_def Let_def small by (simp add: zero small(5) flip: units_append)
  then have "unicode_escape u = [0x5C, 0x75, 0x30, 0x30, word_of_nat (of_char (hex_char ?a)),
      word_of_nat (of_char (hex_char ?b))]"
    unfolding fixed units_def by simp
  then show ?thesis
    by (rule that) (simp only: hex_value_char small(3,4), simp)
qed

lemma escape_table:
  "escape_unit 0x08 = [0x5C, 0x62]" "escape_unit 0x09 = [0x5C, 0x74]" "escape_unit 0x0A = [0x5C, 0x6E]"
  "escape_unit 0x0C = [0x5C, 0x66]" "escape_unit 0x0D = [0x5C, 0x72]" "escape_unit 0x22 = [0x5C, 0x22]"
  "escape_unit 0x5C = [0x5C, 0x5C]"
  by (simp_all add: escape_unit_def units_def)

lemma escape_unit_cases:
  obtains (table) "u \<in> {0x08, 0x09, 0x0A, 0x0C, 0x0D, 0x22, 0x5C}"
  | (control) "u < 0x20" and "escape_unit u = unicode_escape u"
  | (plain) "u \<noteq> 0x22" and "u \<noteq> 0x5C" and "escape_unit u = [u]"
proof -
  show ?thesis
  proof (cases "u \<in> {0x08, 0x09, 0x0A, 0x0C, 0x0D, 0x22, 0x5C}")
    case True
    then show ?thesis by (rule table)
  next
    case False
    then show ?thesis
      using control plain by (cases "u < 0x20") (simp_all add: escape_unit_def)
  qed
qed

lemma unescape_escape: "unescape (escape_unit u @ r) = (u, r)"
proof (cases u rule: escape_unit_cases)
  case table
  then show ?thesis
    by (elim insertE emptyE) (simp_all add: escape_table unescape_def)
next
  case control
  from control(1) obtain a b where "unicode_escape u = [0x5C, 0x75, 0x30, 0x30, a, b]"
    and "16 * hex_value a + hex_value b = unat u"
    by (rule unicode_escape_control)
  then show ?thesis by (simp add: control(2) unescape_def)
next
  case plain
  then show ?thesis by (simp add: unescape_def)
qed

lemma escape_hd: "escape_unit u \<noteq> [] \<and> hd (escape_unit u) \<noteq> 0x22"
proof (cases u rule: escape_unit_cases)
  case table
  then show ?thesis by (elim insertE emptyE) (simp_all add: escape_table)
next
  case control
  from control(1) obtain a b where "unicode_escape u = [0x5C, 0x75, 0x30, 0x30, a, b]"
    by (rule unicode_escape_control)
  then show ?thesis by (simp add: control(2))
next
  case plain
  then show ?thesis by simp
qed

lemma escape_prefix: "escape_unit u @ r = escape_unit v @ r' \<Longrightarrow> u = v \<and> r = r'"
  by (metis unescape_escape prod.inject)

lemma surrogate_escape: "is_high u \<or> is_low u \<Longrightarrow> escape_unit u = [u]"
proof -
  assume "is_high u \<or> is_low u"
  then have "0xD800 \<le> unat u"
    by (auto simp: is_high_def is_low_def word_le_nat_alt)
  then have "\<not> u < 0x20" and "u \<notin> {0x08, 0x09, 0x0A, 0x0C, 0x0D, 0x22, 0x5C}"
    by (auto simp: word_less_nat_alt)
  then show ?thesis
    by (simp add: escape_unit_def)
qed

lemma quote_body_scalar:
  "surrogate_failure s = None \<Longrightarrow> quote_body s = concat (map escape_unit s)"
proof (induction s rule: surrogate_failure.induct)
  case (2 u us)
  show ?case
  proof (cases "is_high u")
    case True
    with 2(3) obtain v us' where us: "us = v # us'" and v: "is_low v"
      and ok: "surrogate_failure us' = None"
      by (auto split: list.splits if_splits)
    with True 2(1) [OF True us v] show ?thesis
      by (simp add: surrogate_escape)
  next
    case False
    with 2 show ?thesis by (simp split: if_splits)
  qed
qed simp

lemma escaped_prefix:
  "concat (map escape_unit s) @ 0x22 # r = concat (map escape_unit t) @ 0x22 # r' \<Longrightarrow>
     s = t \<and> r = r'"
proof (induction s arbitrary: t)
  case Nil
  then show ?case
    by (cases t) (auto dest: arg_cong [where f = hd] simp: escape_hd)
next
  case (Cons u s)
  show ?case
  proof (cases t)
    case Nil
    with Cons.prems show ?thesis
      by (auto dest: arg_cong [where f = hd] simp: escape_hd)
  next
    case (Cons v t')
    with Cons.prems have "escape_unit u @ (concat (map escape_unit s) @ 0x22 # r) =
        escape_unit v @ (concat (map escape_unit t') @ 0x22 # r')"
      by simp
    from escape_prefix [OF this] Cons.IH [of t'] Cons show ?thesis by simp
  qed
qed

lemma quote_prefix:
  assumes "surrogate_failure s = None" and "surrogate_failure t = None"
    and "quote s @ r = quote t @ r'"
  shows "s = t \<and> r = r'"
  using assms escaped_prefix [of s r t r'] by (simp add: quote_def quote_body_scalar)


subsection \<open>Arrays and objects\<close>

text \<open>What each kind of datum starts with.\<close>

definition start_kind :: "16 word \<Rightarrow> nat" where
  "start_kind u =
     (if u = 0x6E then 0 else if u = 0x74 then 1 else if u = 0x66 then 2 else if u = 0x22 then 4
      else if u = 0x5B then 5 else if u = 0x7B then 6 else if number_unit u then 3 else 7)"

fun json_kind :: "json \<Rightarrow> nat" where
  "json_kind DNull = 0"
| "json_kind (DBool b) = (if b then 1 else 2)"
| "json_kind DZero = 3"
| "json_kind (DNum _ _ _) = 3"
| "json_kind (DStr _) = 4"
| "json_kind (DArr _) = 5"
| "json_kind (DObj _) = 6"

lemma number_start: "number_unit u \<Longrightarrow> start_kind u = 3"
proof -
  have "\<forall>u\<in>set (units ''0123456789+-.e''). start_kind u = 3"
    unfolding start_kind_def number_unit_def by code_simp
  then show "number_unit u \<Longrightarrow> start_kind u = 3"
    unfolding number_unit_def by (rule bspec)
qed

lemma num_text_not_Nil: "trimmed (dec s) \<Longrightarrow> num_text (Finite neg s n) \<noteq> []"
  using magnitude_hd(2) by auto

lemma literal_units:
  "units ''null'' = [0x6E, 0x75, 0x6C, 0x6C]" "units ''true'' = [0x74, 0x72, 0x75, 0x65]"
  "units ''false'' = [0x66, 0x61, 0x6C, 0x73, 0x65]" "units ''0'' = [0x30]"
  "units ''['' = [0x5B]" "units '']'' = [0x5D]" "units ''{'' = [0x7B]" "units ''}'' = [0x7D]"
  "units '','' = [0x2C]" "units '':'' = [0x3A]" "units ''.'' = [0x2E]"
  by (simp_all add: units_def)

lemma render_start: "proper d \<Longrightarrow> render d \<noteq> [] \<and> start_kind (hd (render d)) = json_kind d"
proof (cases d)
  case (DNum neg s n)
  assume "proper d"
  with DNum have "trimmed (dec s)" by (simp add: trimmed_dec)
  then have ne: "units (num_text (Finite neg s n)) \<noteq> []"
    using num_text_not_Nil units_eq_Nil by blast
  then have "number_unit (hd (units (num_text (Finite neg s n))))"
    using number_units list.set_sel(1) by blast
  with ne DNum show ?thesis by (simp add: number_start)
qed (simp_all add: literal_units quote_def start_kind_def number_unit_def units_Cons)

lemma join_with_Cons: "join_with sep (x # xs) = x @ concat (map (\<lambda>y. sep @ y) xs)"
  by (induction xs arbitrary: x) auto

text \<open>
  A separated list of encodings followed by its closing unit is read back uniquely when
  each element's encoding is, up to where an element may stop.
\<close>

lemma separated_tail_prefix:
  assumes "\<And>x y r r'. x \<in> set xs \<Longrightarrow> ok y \<Longrightarrow> enc x @ r = enc y @ r' \<Longrightarrow> stops r \<Longrightarrow> stops r' \<Longrightarrow>
      x = y \<and> r = r'"
    and "list_all ok ys" and close: "close \<in> {0x5D, 0x7D}"
    and "concat (map (\<lambda>y. units '','' @ y) (map enc xs)) @ close # r =
      concat (map (\<lambda>y. units '','' @ y) (map enc ys)) @ close # r'"
  shows "xs = ys \<and> r = r'"
  using assms(1,2,4)
proof (induction xs arbitrary: ys)
  case Nil
  with close show ?case by (cases ys) (auto simp: literal_units)
next
  case (Cons x xs)
  have comma: "close \<noteq> 0x2C" using close by auto
  then obtain y ys' where ys: "ys = y # ys'"
    using Cons.prems(3) by (cases ys) (auto simp: literal_units)
  let ?r = "concat (map (\<lambda>y. units '','' @ y) (map enc xs)) @ close # r"
  let ?r' = "concat (map (\<lambda>y. units '','' @ y) (map enc ys')) @ close # r'"
  have stops: "stops (concat (map (\<lambda>y. units '','' @ y) (map enc zs)) @ close # q)" for zs q
    using close by (cases zs) (auto simp: stops_def units_def)
  have "enc x @ ?r = enc y @ ?r'"
    using Cons.prems(3) ys by (simp add: literal_units)
  then have "x = y \<and> ?r = ?r'"
    using Cons.prems(1) [of x y ?r ?r'] Cons.prems(2) ys stops by simp
  moreover from this have "xs = ys' \<and> r = r'"
    using Cons.prems(1,2) ys by (intro Cons.IH) auto
  ultimately show ?case using ys by simp
qed

lemma hd_clash: "x \<noteq> [] \<Longrightarrow> hd x \<noteq> c \<Longrightarrow> c # r \<noteq> x @ s \<and> x @ s \<noteq> c # r"
  by (cases x) auto

lemma separated_prefix:
  assumes unique: "\<And>x y r r'. x \<in> set xs \<Longrightarrow> ok y \<Longrightarrow> enc x @ r = enc y @ r' \<Longrightarrow> stops r \<Longrightarrow>
      stops r' \<Longrightarrow> x = y \<and> r = r'"
    and start: "\<And>x. x \<in> set xs \<or> ok x \<Longrightarrow> enc x \<noteq> [] \<and> hd (enc x) \<noteq> close"
    and "list_all ok ys" and close: "close \<in> {0x5D, 0x7D}"
    and eq: "join_with (units '','') (map enc xs) @ close # r = join_with (units '','') (map enc ys) @ close # r'"
  shows "xs = ys \<and> r = r'"
proof (cases xs)
  case Nil
  then have "ys = []"
    using eq start assms(3) hd_clash [of _ close] by (cases ys) (simp_all add: join_with_Cons)
  with Nil eq show ?thesis by simp
next
  case (Cons x xs')
  then obtain y ys' where ys: "ys = y # ys'"
    using eq start [of x] hd_clash [of "enc x" close] by (cases ys) (simp_all add: join_with_Cons)
  let ?r = "concat (map (\<lambda>y. units '','' @ y) (map enc xs')) @ close # r"
  let ?r' = "concat (map (\<lambda>y. units '','' @ y) (map enc ys')) @ close # r'"
  have stops: "stops (concat (map (\<lambda>y. units '','' @ y) (map enc zs)) @ close # q)" for zs q
    using close by (cases zs) (auto simp: stops_def units_def)
  have "enc x @ ?r = enc y @ ?r'"
    using eq Cons ys by (simp add: join_with_Cons)
  then have "x = y \<and> ?r = ?r'"
    using unique [of x y ?r ?r'] Cons assms(3) ys stops by simp
  moreover from this have "xs' = ys' \<and> r = r'"
    using separated_tail_prefix [of xs' ok enc ys' close r r'] unique Cons assms(3) ys close by auto
  ultimately show ?thesis using Cons ys by simp
qed

lemma render_member_start: "surrogate_failure (fst m) = None \<Longrightarrow>
    render_member m \<noteq> [] \<and> hd (render_member m) = 0x22"
  by (cases m) (simp add: render_member_def quote_def)

lemma number_render_prefix:
  assumes "proper a" and "proper b" and "json_kind a = 3" and "json_kind b = 3"
    and "render a @ r = render b @ r'" and "stops r" and "stops r'"
  shows "a = b \<and> r = r'"
proof -
  have "number_unit u" if "u \<in> set (render d)" "json_kind d = 3" for u d
    using that number_units zero_unit by (cases d) (auto split: if_splits)
  then have eq: "render a = render b" and r: "r = r'"
    using number_token [of "render a" "render b" r r'] assms by auto
  have zero: "num_text (Finite neg s n) \<noteq> ''0''" if "trimmed (dec s)" for neg s n
  proof
    assume "num_text (Finite neg s n) = ''0''"
    then have "magnitude_text (dec s) n = ''0''" by (auto split: if_splits)
    with unmagnitude_magnitude_text [OF that, of n] have "dec s = []"
      by (simp add: unmagnitude_def)
    then show False by simp
  qed
  from eq assms(1-4) have "a = b"
    by (cases a; cases b)
       (auto simp del: num_text.simps simp: num_text_inject trimmed_dec zero zero [symmetric] split: if_splits)
  with r show ?thesis by simp
qed

lemma render_same_kind:
  assumes "proper a" and "proper b" and "render a @ r = render b @ r'"
  shows "json_kind a = json_kind b"
proof -
  have "hd (render a) = hd (render b)"
    using assms render_start by (metis hd_append2)
  with assms(1,2) show ?thesis
    using render_start by metis
qed

lemma render_DArr: "render (DArr ds) @ r = 0x5B # join_with (units '','') (map render ds) @ 0x5D # r"
  by (simp add: literal_units)

lemma render_DObj: "render (DObj ms) @ r = 0x7B # join_with (units '','') (map render_member ms) @ 0x7D # r"
  by (simp add: literal_units render_member_def)

lemma render_prefix:
  "proper a \<Longrightarrow> proper b \<Longrightarrow> render a @ r = render b @ r' \<Longrightarrow> stops r \<Longrightarrow> stops r' \<Longrightarrow> a = b \<and> r = r'"
proof (induction a arbitrary: b r r')
  case DNull
  with render_same_kind [OF DNull.prems(1-3)] show ?case by (cases b) (auto split: if_splits)
next
  case (DBool x)
  with render_same_kind [OF DBool.prems(1-3)] show ?case by (cases b) (auto split: if_splits)
next
  case DZero
  with render_same_kind [OF DZero.prems(1-3)] show ?case by (intro number_render_prefix) auto
next
  case (DNum neg s n)
  with render_same_kind [OF DNum.prems(1-3)] show ?case by (intro number_render_prefix) auto
next
  case (DStr s)
  then obtain t where b: "b = DStr t"
    using render_same_kind [OF DStr.prems(1-3)] by (cases b) (auto split: if_splits)
  with DStr quote_prefix [of s t r r'] show ?case by simp
next
  case (DArr xs)
  then obtain ys where b: "b = DArr ys"
    using render_same_kind [OF DArr.prems(1-3)] by (cases b) (auto split: if_splits)
  have close: "proper d \<Longrightarrow> render d \<noteq> [] \<and> hd (render d) \<noteq> 0x5D" for d
    using render_start [of d] by (cases d) (auto simp: start_kind_def number_unit_def units_def split: if_splits)
  have "xs = ys \<and> r = r'"
  proof (rule separated_prefix [where enc = render and ok = proper and close = "0x5D"])
    fix x y q q'
    assume "x \<in> set xs" "proper y" "render x @ q = render y @ q'" "stops q" "stops q'"
    with DArr.IH [of x y q q'] DArr.prems(1) show "x = y \<and> q = q'"
      by (auto simp: list_all_iff)
  next
    show "x \<in> set xs \<or> proper x \<Longrightarrow> render x \<noteq> [] \<and> hd (render x) \<noteq> 0x5D" for x
      using close DArr.prems(1) by (auto simp: list_all_iff)
  next
    show "join_with (units '','') (map render xs) @ 0x5D # r =
        join_with (units '','') (map render ys) @ 0x5D # r'"
      using DArr.prems(3) unfolding b render_DArr by (rule list.inject [THEN iffD1, THEN conjunct2])
  qed (use DArr.prems(2) b in simp_all)
  with b show ?case by simp
next
  case (DObj ms)
  then obtain ns where b: "b = DObj ns"
    using render_same_kind [OF DObj.prems(1-3)] by (cases b) (auto split: if_splits)
  let ?ok = "\<lambda>(k, d). surrogate_failure k = None \<and> proper d"
  have ok: "list_all ?ok ms" "list_all ?ok ns"
    using DObj.prems(1,2) b by simp_all
  have "ms = ns \<and> r = r'"
  proof (rule separated_prefix [where enc = render_member and ok = ?ok and close = "0x7D"])
    fix x y q q'
    assume x: "x \<in> set ms" and y: "?ok y" and eq: "render_member x @ q = render_member y @ q'"
      and q: "stops q" "stops q'"
    obtain k d l e where xy: "x = (k, d)" "y = (l, e)" by (cases x; cases y)
    then have kd: "surrogate_failure k = None" "proper d"
      using ok(1) x by (auto simp: list_all_iff)
    have "quote k @ (0x3A # render d @ q) = quote l @ (0x3A # render e @ q')"
      using eq xy by (simp add: render_member_def literal_units)
    from quote_prefix [OF _ _ this] kd(1) y xy have "k = l" and "render d @ q = render e @ q'"
      by simp_all
    moreover have "d = e \<and> q = q'"
      using DObj.IH [of x d e q q'] x xy kd(2) y q calculation(2) by auto
    ultimately show "x = y \<and> q = q'" using xy by simp
  next
    show "x \<in> set ms \<or> ?ok x \<Longrightarrow> render_member x \<noteq> [] \<and> hd (render_member x) \<noteq> 0x7D" for x
      using render_member_start [of x] ok(1) by (auto simp: list_all_iff)
  next
    show "join_with (units '','') (map render_member ms) @ 0x7D # r =
        join_with (units '','') (map render_member ns) @ 0x7D # r'"
      using DObj.prems(3) unfolding b render_DObj by (rule list.inject [THEN iffD1, THEN conjunct2])
  qed (use ok(2) in simp_all)
  with b show ?case by simp
qed

lemma render_inject: "proper a \<Longrightarrow> proper b \<Longrightarrow> render a = render b \<Longrightarrow> a = b"
  using render_prefix [of a b "[]" "[]"] by (simp add: stops_def)

section \<open>UTF-8\<close>

text \<open>\<open>Buffer.from(text, 'utf8')\<close>: code points of the code units, an unpaired surrogate
  becoming U+FFFD, then one to four bytes each.\<close>

definition pair_point :: "16 word \<Rightarrow> 16 word \<Rightarrow> nat" where
  "pair_point hi lo = 0x10000 + (unat hi - 0xD800) * 1024 + (unat lo - 0xDC00)"

fun code_points :: "jstr \<Rightarrow> nat list" where
  "code_points [] = []"
| "code_points (u # us) =
     (if is_high u then
        (case us of
           [] \<Rightarrow> [0xFFFD]
         | next # rest \<Rightarrow>
             if is_low next then pair_point u next # code_points rest
             else 0xFFFD # code_points us)
      else if is_low u then 0xFFFD # code_points us
      else unat u # code_points us)"

definition point_bytes :: "nat \<Rightarrow> nat list" where
  "point_bytes c =
     (if c < 0x80 then [c]
      else if c < 0x800 then [0xC0 + c div 64, 0x80 + c mod 64]
      else if c < 0x10000 then [0xE0 + c div 4096, 0x80 + c div 64 mod 64, 0x80 + c mod 64]
      else [0xF0 + c div 262144, 0x80 + c div 4096 mod 64, 0x80 + c div 64 mod 64, 0x80 + c mod 64])"

definition utf8 :: "jstr \<Rightarrow> 8 word list" where
  "utf8 s = map word_of_nat (concat (map point_bytes (code_points s)))"

definition canonical_bytes :: "jval \<Rightarrow> canon_error + 8 word list" where
  "canonical_bytes value = bindE (canonicalize value) (\<lambda>text. Inr (utf8 text))"


text \<open>Reading the first code point back from its bytes.\<close>

definition point_of_bytes :: "nat list \<Rightarrow> nat \<times> nat list" where
  "point_of_bytes bs =
     (let b = hd bs in
      if b < 0x80 then (b, tl bs)
      else if b < 0xE0 then ((b - 0xC0) * 64 + (bs ! 1 - 0x80), drop 2 bs)
      else if b < 0xF0 then ((b - 0xE0) * 4096 + (bs ! 1 - 0x80) * 64 + (bs ! 2 - 0x80), drop 3 bs)
      else ((b - 0xF0) * 262144 + (bs ! 1 - 0x80) * 4096 + (bs ! 2 - 0x80) * 64 + (bs ! 3 - 0x80),
            drop 4 bs))"

lemma point_of_two: "q < 32 \<Longrightarrow> point_of_bytes ([0xC0 + q, 0x80 + m] @ r) = (q * 64 + m, r)"
  by (simp add: point_of_bytes_def)

lemma point_of_three: "q < 16 \<Longrightarrow>
    point_of_bytes ([0xE0 + q, 0x80 + m, 0x80 + n] @ r) = (q * 4096 + m * 64 + n, r)"
  by (simp add: point_of_bytes_def)

lemma point_of_four:
  "point_of_bytes ([0xF0 + q, 0x80 + k, 0x80 + m, 0x80 + n] @ r) = (q * 262144 + k * 4096 + m * 64 + n, r)"
  by (simp add: point_of_bytes_def)

lemma base64_digits:
  fixes c :: nat
  shows "c div 4096 * 4096 + c div 64 mod 64 * 64 + c mod 64 = c"
    and "c div 262144 * 262144 + c div 4096 mod 64 * 4096 + c div 64 mod 64 * 64 + c mod 64 = c"
proof -
  have div: "c div 4096 = c div 64 div 64" "c div 262144 = c div 64 div 64 div 64"
    by (simp_all flip: div_mult2_eq)
  show "c div 4096 * 4096 + c div 64 mod 64 * 64 + c mod 64 = c"
    unfolding div using div_mult_mod_eq [of c 64] div_mult_mod_eq [of "c div 64" 64] by linarith
  then show "c div 262144 * 262144 + c div 4096 mod 64 * 4096 + c div 64 mod 64 * 64 + c mod 64 = c"
    unfolding div using div_mult_mod_eq [of "c div 64 div 64" 64] by linarith
qed

lemma point_of_bytes [simp]: "point_of_bytes (point_bytes c @ r) = (c, r)"
proof -
  consider (one) "c < 0x80" | (two) "\<not> c < 0x80" "c < 0x800"
    | (three) "\<not> c < 0x80" "\<not> c < 0x800" "c < 0x10000"
    | (four) "\<not> c < 0x80" "\<not> c < 0x800" "\<not> c < 0x10000"
    by blast
  then show ?thesis
  proof cases
    case one
    then show ?thesis by (simp add: point_bytes_def point_of_bytes_def)
  next
    case two
    then have "c div 64 < 32" by (simp add: less_mult_imp_div_less)
    from point_of_two [OF this] two show ?thesis by (simp only: point_bytes_def if_False if_True div_mult_mod_eq)
  next
    case three
    then have "c div 4096 < 16" by (simp add: less_mult_imp_div_less)
    then show ?thesis
      using three by (simp only: point_bytes_def if_False if_True point_of_three base64_digits(1))
  next
    case four
    then show ?thesis
      by (simp only: point_bytes_def if_False if_True point_of_four base64_digits)
  qed
qed

lemma point_bytes_not_Nil [simp]: "point_bytes c \<noteq> []"
  by (simp add: point_bytes_def)

lemma concat_point_bytes_inject:
  "concat (map point_bytes cs) = concat (map point_bytes ds) \<longleftrightarrow> cs = ds"
proof (induction cs arbitrary: ds)
  case Nil
  then show ?case by (cases ds) auto
next
  case (Cons c cs)
  show ?case
  proof (cases ds)
    case (Cons d ds')
    have "point_bytes c @ x = point_bytes d @ y \<longleftrightarrow> c = d \<and> x = y" for x y
      by (metis point_of_bytes prod.inject)
    with Cons Cons.IH show ?thesis by simp
  qed simp
qed

lemma point_bytes_bound: "c < 0x110000 \<Longrightarrow> b \<in> set (point_bytes c) \<Longrightarrow> b < 256"
proof -
  assume c: "c < 0x110000"
  then have "c div 262144 < 8" by (simp add: less_mult_imp_div_less)
  moreover have "c div 4096 < 16" if "c < 0x10000"
    using that by (simp add: less_mult_imp_div_less)
  moreover have "c div 64 < 32" if "c < 0x800"
    using that by (simp add: less_mult_imp_div_less)
  ultimately show "b \<in> set (point_bytes c) \<Longrightarrow> b < 256"
    by (auto simp: point_bytes_def split: if_splits)
qed

lemma high_range: "is_high u \<longleftrightarrow> 0xD800 \<le> unat u \<and> unat u \<le> 0xDBFF"
  by (simp add: is_high_def word_le_nat_alt)

lemma low_range: "is_low u \<longleftrightarrow> 0xDC00 \<le> unat u \<and> unat u \<le> 0xDFFF"
  by (simp add: is_low_def word_le_nat_alt)

lemma unat_16_bound: "unat (u :: 16 word) < 0x10000"
proof -
  have "unat u < 2 ^ LENGTH(16)" by (rule unsigned_less)
  then show ?thesis by simp
qed

lemma pair_point_range: "is_high u \<Longrightarrow> is_low v \<Longrightarrow> 0x10000 \<le> pair_point u v \<and> pair_point u v < 0x110000"
  unfolding high_range low_range pair_point_def by linarith

lemma pair_point_inject:
  assumes "is_high u" "is_low v" "is_high u'" "is_low v'" and "pair_point u v = pair_point u' v'"
  shows "u = u' \<and> v = v'"
proof -
  have range: "0xD800 \<le> unat u" "0xDC00 \<le> unat v" "unat v \<le> 0xDFFF"
    "0xD800 \<le> unat u'" "0xDC00 \<le> unat v'" "unat v' \<le> 0xDFFF"
    using assms(1-4) unfolding high_range low_range by simp_all
  have eq: "(unat u - 0xD800) * 1024 + (unat v - 0xDC00) = (unat u' - 0xD800) * 1024 + (unat v' - 0xDC00)"
    using assms(5) by (simp add: pair_point_def)
  have "\<not> unat u < unat u'" "\<not> unat u' < unat u"
    using range eq by linarith+
  then have "unat u = unat u'" by simp
  with range eq have "unat v = unat v'" by simp
  note \<open>unat u = unat u'\<close> this
  then show ?thesis by (simp add: word_unat_eq_iff)
qed

lemma code_points_bound: "c \<in> set (code_points s) \<Longrightarrow> c < 0x110000"
proof (induction s rule: code_points.induct)
  case (2 u us)
  then show ?case
    using unat_16_bound [of u] pair_point_range [of u]
    by (cases us) (auto split: if_splits)
qed simp

lemma code_points_inject:
  "surrogate_failure s = None \<Longrightarrow> surrogate_failure t = None \<Longrightarrow> code_points s = code_points t \<Longrightarrow> s = t"
proof (induction s arbitrary: t rule: surrogate_failure.induct)
  case 1
  then show ?case by (cases t rule: code_points.cases) (auto split: if_splits list.splits)
next
  case (2 u us)
  from "2.prems"(3) obtain u' us' where t: "t = u' # us'"
    by (cases t) (auto split: if_splits list.splits)
  show ?case
  proof (cases "is_high u")
    case True
    with "2.prems"(1) obtain v ws where us: "us = v # ws" and v: "is_low v"
      and ok: "surrogate_failure ws = None"
      by (auto split: list.splits if_splits)
    have "is_high u'"
      using "2.prems"(2,3) t True us v pair_point_range [OF True v] unat_16_bound [of u']
      by (auto split: list.splits if_splits)
    then obtain v' ws' where us': "us' = v' # ws'" and v': "is_low v'"
      and ok': "surrogate_failure ws' = None"
      using "2.prems"(2) t by (auto split: list.splits if_splits)
    have "pair_point u v = pair_point u' v'" and "code_points ws = code_points ws'"
      using "2.prems"(3) t True us v us' v' \<open>is_high u'\<close> by simp_all
    then show ?thesis
      using pair_point_inject [OF True v \<open>is_high u'\<close> v'] "2.IH"(1) [OF True us v ok ok'] t us us' by simp
  next
    case False
    then have low: "\<not> is_low u" and ok: "surrogate_failure us = None"
      using "2.prems"(1) by (auto split: if_splits)
    have "\<not> is_high u'"
    proof
      assume h: "is_high u'"
      then obtain v' ws' where "us' = v' # ws'" "is_low v'"
        using "2.prems"(2) t by (auto split: list.splits if_splits)
      with h pair_point_range [OF h, of v'] unat_16_bound [of u] "2.prems"(3) t False low
      show False by auto
    qed
    then have "\<not> is_low u'" and ok': "surrogate_failure us' = None"
      using "2.prems"(2) t by (auto split: if_splits)
    with False low "2.prems"(3) t \<open>\<not> is_high u'\<close> have "unat u = unat u'" and "code_points us = code_points us'"
      by simp_all
    then show ?thesis
      using "2.IH"(2) [OF False low ok ok'] t by (simp add: word_unat_eq_iff)
  qed
qed

lemma utf8_inject:
  assumes "surrogate_failure s = None" and "surrogate_failure t = None" and "utf8 s = utf8 t"
  shows "s = t"
proof -
  let ?B = "\<lambda>s. concat (map point_bytes (code_points s))"
  have bound: "b < 256" if "b \<in> set (?B s)" for s b
    using that code_points_bound point_bytes_bound by auto
  have inj: "inj_on (word_of_nat :: nat \<Rightarrow> 8 word) {b. b < 256}"
  proof (rule inj_onI)
    fix x y :: nat
    assume xy: "x \<in> {b. b < 256}" "y \<in> {b. b < 256}" and eq: "(word_of_nat x :: 8 word) = word_of_nat y"
    have "unat (word_of_nat b :: 8 word) = b" if "b < 256" for b :: nat
      using that by (simp add: unat_of_nat take_bit_nat_eq_self)
    with xy eq show "x = y" by (metis mem_Collect_eq)
  qed
  have "set (?B s) \<union> set (?B t) \<subseteq> {b. b < 256}"
    using bound by blast
  then have "inj_on (word_of_nat :: nat \<Rightarrow> 8 word) (set (?B s) \<union> set (?B t))"
    by (rule inj_on_subset [OF inj])
  with assms(3) have "?B s = ?B t"
    unfolding utf8_def by (rule map_inj_on)
  then show ?thesis
    using assms(1,2) code_points_inject concat_point_bytes_inject by blast
qed


section \<open>Canonical bytes\<close>

lemma canonicalize_denote:
  "dense v \<Longrightarrow> canonicalize v = Inr t \<longleftrightarrow> (\<exists>d. denote v [] = Inr d \<and> t = render d)"
  by (auto simp: canonicalize_def serialize_dense bindE_eq_Inr)

text \<open>A datum's text is well-formed UTF-16, so it survives the encoding.\<close>

lemma surrogate_failure_append:
  "surrogate_failure s = None \<Longrightarrow> surrogate_failure (s @ t) = surrogate_failure t"
proof (induction s rule: surrogate_failure.induct)
  case (2 u us)
  show ?case
  proof (cases "is_high u")
    case True
    with 2(3) obtain v us' where us: "us = v # us'" and v: "is_low v"
      and ok: "surrogate_failure us' = None"
      by (auto split: list.splits if_splits)
    with True 2(1) [OF True us v] show ?thesis by simp
  next
    case False
    with 2 show ?thesis by (simp split: if_splits)
  qed
qed simp

lemma units_scalar: "surrogate_failure (units s) = None"
proof (induction s)
  case (Cons c s)
  have "(of_char c :: nat) < 256" by simp
  then have "\<not> is_high (word_of_nat (of_char c))" "\<not> is_low (word_of_nat (of_char c))"
    unfolding high_range low_range unat_unit by linarith+
  with Cons show ?case by (simp add: units_Cons)
qed simp

lemma surrogate_failure_cons:
  "\<not> is_high u \<Longrightarrow> \<not> is_low u \<Longrightarrow> surrogate_failure (u # s) = surrogate_failure s"
  by simp

lemma ascii_unit: "unat u < 0xD800 \<Longrightarrow> \<not> is_high u \<and> \<not> is_low u"
  unfolding high_range low_range by simp

lemma unicode_escape_scalar: "surrogate_failure (unicode_escape u) = None"
  by (simp only: unicode_escape_def Let_def units_scalar)

lemma escape_unit_scalar:
  "\<not> is_high u \<Longrightarrow> \<not> is_low u \<Longrightarrow> surrogate_failure (escape_unit u) = None"
  by (auto simp: escape_unit_def units_scalar unicode_escape_scalar)

lemma quote_body_scalar_text: "surrogate_failure (quote_body s) = None"
proof (induction s rule: quote_body.induct)
  case (2 u us)
  then show ?case
    by (auto simp: surrogate_failure_append unicode_escape_scalar escape_unit_scalar split: list.splits)
qed simp

lemma quote_scalar: "surrogate_failure (quote s) = None"
proof -
  have "\<not> is_high 0x22 \<and> \<not> is_low 0x22" by (rule ascii_unit) simp
  then show ?thesis
    by (simp add: quote_def surrogate_failure_append quote_body_scalar_text)
qed

lemma join_with_scalar:
  "surrogate_failure sep = None \<Longrightarrow> \<forall>x\<in>set xs. surrogate_failure x = None \<Longrightarrow>
     surrogate_failure (join_with sep xs) = None"
  by (induction sep xs rule: join_with.induct) (auto simp: surrogate_failure_append)

lemma render_scalar: "surrogate_failure (render d) = None"
proof (induction d)
  case (DObj ms)
  then have "\<forall>x\<in>set (map (\<lambda>(k, d). quote k @ units '':'' @ render d) ms). surrogate_failure x = None"
    by (fastforce simp: surrogate_failure_append quote_scalar units_scalar)
  then show ?case
    by (simp add: surrogate_failure_append units_scalar join_with_scalar)
qed (simp_all add: surrogate_failure_append units_scalar quote_scalar join_with_scalar)

lemma canonical_bytes_denote:
  assumes "dense v"
  shows "canonical_bytes v = Inr b \<longleftrightarrow> (\<exists>d. denote v [] = Inr d \<and> b = utf8 (render d))"
  unfolding canonical_bytes_def bindE_eq_Inr using canonicalize_denote [OF assms] by auto

lemma canonical_bytes_inject:
  assumes "dense v" "shortest v" "dense w" "shortest w"
    and "canonical_bytes v = Inr b" and "canonical_bytes w = Inr b"
  shows "\<exists>d. denote v [] = Inr d \<and> denote w [] = Inr d"
proof -
  obtain d e where d: "denote v [] = Inr d" "b = utf8 (render d)"
    and e: "denote w [] = Inr e" "b = utf8 (render e)"
    using assms canonical_bytes_denote by blast
  then have "render d = render e"
    using utf8_inject [OF render_scalar render_scalar] by simp
  moreover have "proper d" "proper e"
    using denote_proper d(1) e(1) assms(2,4) by blast+
  ultimately show ?thesis
    using render_inject d(1) e(1) by blast
qed

text \<open>The order in which an object's members were created does not matter.\<close>

lemma sort_key_permutation:
  "distinct (map fst ps) \<Longrightarrow> mset ps = mset qs \<Longrightarrow> sort_key fst ps = sort_key fst qs"
proof -
  assume d: "distinct (map fst ps)" and m: "mset ps = mset qs"
  have sets: "set ps = set qs" using m by (metis set_mset_mset)
  have dq: "distinct (map fst qs)"
    using d m by (metis mset_map mset_eq_imp_distinct_iff)
  have ds: "distinct (map fst (sort_key fst xs))" if "distinct (map fst xs)" for xs :: "('a \<times> 'b) list"
    using that by (metis mset_map mset_sort mset_eq_imp_distinct_iff)
  show ?thesis
    by (rule map_sorted_distinct_set_unique [where f = fst])
       (use ds [OF d] ds [OF dq] sets d in \<open>auto simp: distinct_map\<close>)
qed

end
