(* ===== verification/Audit_Links.thy ===== *)
theory Audit_Links
  imports Canonical_Injective
begin

text \<open>
  Digests and the audit chain, the second half of \<open>packages/canonicalization/src/index.ts\<close>:
  tagged digests, chain digests, audit link formats and the digest of one audit link.

  SHA-256 is \<open>node:crypto\<close>, native code: the parameter \<open>H\<close>, from bytes to lowercase
  hexadecimal text. What a proof needs of it is stated where it is used: that it yields 64
  hexadecimal digits, and that it does not collide on the preimages at hand.
\<close>

section \<open>Digests\<close>

type_synonym sha256 = "8 word list \<Rightarrow> string"

definition is_hex :: "char \<Rightarrow> bool" where
  "is_hex c \<longleftrightarrow> c \<in> set ''0123456789abcdef''"

text \<open>\<open>/^[0-9a-f]{64}$/\<close>.\<close>

definition hex64 :: "string \<Rightarrow> bool" where
  "hex64 s \<longleftrightarrow> length s = 64 \<and> list_all is_hex s"

text \<open>What is assumed of SHA-256's output text.\<close>

definition hex_digests :: "sha256 \<Rightarrow> bool" where
  "hex_digests H \<longleftrightarrow> (\<forall>b. hex64 (H b))"

definition json_digest :: "sha256 \<Rightarrow> jval \<Rightarrow> canon_error + string" where
  "json_digest H value = bindE (canonical_bytes value) (\<lambda>b. Inr (H b))"

text \<open>\<open>/^kf-[a-z0-9]+(?:-[a-z0-9]+)*-v[1-9][0-9]*$/\<close>, by the fields between hyphens.\<close>

definition lower_alnum :: "char \<Rightarrow> bool" where
  "lower_alnum c \<longleftrightarrow> is_digit c \<or> (97::nat) \<le> of_char c \<and> of_char c \<le> (122::nat)"

fun version_field :: "string \<Rightarrow> bool" where
  "version_field (v # d # ds) = (v = CHR ''v'' \<and> is_digit d \<and> d \<noteq> CHR ''0'' \<and> list_all is_digit ds)"
| "version_field _ = False"

definition is_format_tag :: "string \<Rightarrow> bool" where
  "is_format_tag tag =
     (case split_on CHR ''-'' tag of
        [] \<Rightarrow> False
      | kf # fields \<Rightarrow>
          kf = ''kf'' \<and> 2 \<le> length fields \<and> version_field (last fields) \<and>
          list_all (\<lambda>f. f \<noteq> [] \<and> list_all lower_alnum f) (butlast fields))"

fun is_plain_object :: "jval \<Rightarrow> bool" where
  "is_plain_object (JObj ps) = True"
| "is_plain_object _ = False"

fun own_members :: "jval \<Rightarrow> (jstr \<times> jval) list" where
  "own_members (JObj ps) = ps"
| "own_members _ = []"

definition tagged_fields :: "string \<Rightarrow> (jstr \<times> jval) list \<Rightarrow> jval" where
  "tagged_fields tag ps = JObj (ps @ [(units ''format'', JStr (units tag))])"

definition tagged_digest :: "sha256 \<Rightarrow> string \<Rightarrow> jval \<Rightarrow> canon_error + string" where
  "tagged_digest H tag fields =
     (if \<not> is_format_tag tag
      then Inl (Canonicalization_error Bad_format_tag (units ''format''))
      else if \<not> is_plain_object fields
      then Inl (Canonicalization_error Not_plain_object [])
      else if units ''format'' \<in> fst ` set (own_members fields)
      then Inl (Canonicalization_error Own_format_property (units ''format''))
      else json_digest H (tagged_fields tag (own_members fields)))"

definition genesis_digest :: string where
  "genesis_digest = replicate 64 CHR ''0''"

text \<open>\<open>update(previous, 'hex')\<close>: the bytes of a hexadecimal string.\<close>

definition hex_digit :: "char \<Rightarrow> nat" where
  "hex_digit c = (if is_digit c then char_digit c else of_char c - 87)"

fun hex_bytes :: "string \<Rightarrow> 8 word list" where
  "hex_bytes (a # b # s) = word_of_nat (16 * hex_digit a + hex_digit b) # hex_bytes s"
| "hex_bytes _ = []"

definition chain_digest :: "sha256 \<Rightarrow> string \<Rightarrow> jval \<Rightarrow> canon_error + string" where
  "chain_digest H previous entry =
     (if \<not> hex64 previous
      then Inl (Canonicalization_error Bad_previous_digest (units ''previous''))
      else bindE (canonical_bytes entry) (\<lambda>b. Inr (H (hex_bytes previous @ b))))"

section \<open>Audit links\<close>

record audit_entry =
  action_id :: string
  action_type :: string
  actor_id :: string
  acting_role_id :: string
  object_ids :: "string list"
  effective_at :: string
  before_digest :: "string option"
  after_digest :: "string option"

definition AUDIT_LINK_FORMATS :: "string list" where
  "AUDIT_LINK_FORMATS = [''kf-audit-link-v1'', ''kf-audit-link-v2'']"

definition CURRENT_AUDIT_LINK_FORMAT :: string where
  "CURRENT_AUDIT_LINK_FORMAT = ''kf-audit-link-v2''"

definition is_audit_link_format :: "string \<Rightarrow> bool" where
  "is_audit_link_format f \<longleftrightarrow> f \<in> set AUDIT_LINK_FORMATS"

definition audit_link_format_may_follow :: "string option \<Rightarrow> string \<Rightarrow> bool" where
  "audit_link_format_may_follow previous next =
     (case previous of
        None \<Rightarrow> True
      | Some p \<Rightarrow> index_of next AUDIT_LINK_FORMATS \<ge> index_of p AUDIT_LINK_FORMATS)"

definition text_value :: "string \<Rightarrow> jval" where
  "text_value s = JStr (units s)"

definition nullable_text :: "string option \<Rightarrow> jval" where
  "nullable_text x = (case x of None \<Rightarrow> JNull | Some s \<Rightarrow> text_value s)"

definition text_list :: "string list \<Rightarrow> jval" where
  "text_list xs = JArr (map (\<lambda>s. Some (text_value s)) xs)"

text \<open>The object that is hashed: the eight fields, and from v2 on the format itself.\<close>

definition link_members :: "audit_entry \<Rightarrow> string \<Rightarrow> (jstr \<times> jval) list" where
  "link_members entry format =
     [(units ''action_id'', text_value (action_id entry)),
      (units ''action_type'', text_value (action_type entry)),
      (units ''actor_id'', text_value (actor_id entry)),
      (units ''acting_role_id'', text_value (acting_role_id entry)),
      (units ''object_ids'', text_list (sort (object_ids entry))),
      (units ''effective_at'', text_value (effective_at entry)),
      (units ''before_digest'', nullable_text (before_digest entry)),
      (units ''after_digest'', nullable_text (after_digest entry))] @
     (if format = ''kf-audit-link-v1'' then [] else [(units ''format'', text_value format)])"

definition audit_chain_digest :: "sha256 \<Rightarrow> string \<Rightarrow> audit_entry \<Rightarrow> string \<Rightarrow> canon_error + string" where
  "audit_chain_digest H previous entry format =
     (if \<not> is_audit_link_format format
      then Inl (Canonicalization_error Unknown_link_format (units ''format''))
      else chain_digest H previous (JObj (link_members entry format)))"

section \<open>What a digest commits to\<close>

text \<open>The bytes \<open>H\<close> is applied to for one link.\<close>

definition link_preimage :: "string \<Rightarrow> audit_entry \<Rightarrow> string \<Rightarrow> 8 word list" where
  "link_preimage previous entry format =
     hex_bytes previous @ (case canonical_bytes (JObj (link_members entry format)) of
        Inl e \<Rightarrow> [] | Inr b \<Rightarrow> b)"

lemma denote_text [simp]: "denote (text_value s) p = Inr (DStr (units s))"
  by (simp add: text_value_def assert_unicode_def units_scalar)

lemma text_value_defined [simp]: "text_value s \<noteq> JUndefined"
  by (simp add: text_value_def)

lemma denote_items_text:
  "denote_items (map (\<lambda>s. Some (text_value s)) xs) i p = Inr (map (\<lambda>s. DStr (units s)) xs)"
  by (induction xs arbitrary: i) auto

lemma denote_text_list [simp]: "denote (text_list xs) p = Inr (DArr (map (\<lambda>s. DStr (units s)) xs))"
  by (simp add: text_list_def denote_items_text)

lemma denote_nullable [simp]:
  "denote (nullable_text x) p = Inr (case x of None \<Rightarrow> DNull | Some s \<Rightarrow> DStr (units s))"
  by (simp add: nullable_text_def split: option.splits)

lemma dense_text [simp]: "dense (text_value s)" "shortest (text_value s)"
  by (simp_all add: text_value_def)

lemma dense_text_list [simp]: "dense (text_list xs)" "shortest (text_list xs)"
  by (simp_all add: text_list_def list_all_iff)

lemma dense_nullable [simp]: "dense (nullable_text x)" "shortest (nullable_text x)"
  by (simp_all add: nullable_text_def split: option.splits)

lemma defined_values [simp]: "text_list xs \<noteq> JUndefined" "nullable_text x \<noteq> JUndefined"
  by (simp_all add: text_list_def nullable_text_def text_value_def split: option.splits)

lemma not_function [simp]: "text_value s \<noteq> JFunction v" "text_list xs \<noteq> JFunction v" "nullable_text x \<noteq> JFunction v"
  by (simp_all add: text_list_def nullable_text_def text_value_def split: option.splits)

lemma string_list_units_inject:
  "map (\<lambda>s. DStr (units s)) xs = map (\<lambda>s. DStr (units s)) ys \<longleftrightarrow> xs = ys"
proof -
  have "inj (\<lambda>s. DStr (units s))" by (rule injI) simp
  then show ?thesis by (rule inj_map_eq_map)
qed

text \<open>An object denotes its defined members, each by its own value.\<close>

lemma denote_members_lookup:
  "denote_members ps path = Inr ms \<Longrightarrow> distinct (map fst ps) \<Longrightarrow>
     map_of ms k = (case map_of ps k of
        None \<Rightarrow> None
      | Some v \<Rightarrow> if v = JUndefined then None
                  else (case denote v (member_path path k) of Inl e \<Rightarrow> None | Inr d \<Rightarrow> Some d))"
proof (induction ps arbitrary: ms)
  case (Cons p ps)
  obtain key child where p: "p = (key, child)" by (cases p)
  show ?case
  proof (cases "child = JUndefined")
    case True
    with Cons.prems p have eq: "denote_members ps path = Inr ms" and "key \<notin> fst ` set ps"
      by (auto simp: bindE_eq_Inr split: if_splits)
    moreover from this have "map_of ps key = None"
      by (simp add: map_of_eq_None_iff)
    ultimately show ?thesis
      using Cons.IH [OF eq] Cons.prems(2) p True by auto
  next
    case False
    with Cons.prems p obtain d ms' where d: "denote child (member_path path key) = Inr d"
      and eq: "denote_members ps path = Inr ms'" and ms: "ms = (key, d) # ms'"
      by (auto simp: bindE_eq_Inr split: if_splits)
    with Cons.IH [OF eq] Cons.prems(2) p False show ?thesis by auto
  qed
qed auto

lemma map_of_sort_key: "distinct (map fst ps) \<Longrightarrow> map_of (sort_key fst ps) = map_of ps"
proof -
  assume d: "distinct (map fst ps)"
  then have "distinct (map fst (sort_key fst ps))"
    by (metis mset_map mset_sort mset_eq_imp_distinct_iff)
  with d show ?thesis
    by (subst map_of_inject_set) auto
qed

lemma denote_object_lookup:
  assumes "denote (JObj ps) path = Inr (DObj ms)" and "distinct (map fst ps)"
    and "\<And>v. map_of ps (units ''toJSON'') \<noteq> Some (JFunction v)"
    and "map_of ps k = Some v" and "v \<noteq> JUndefined" and "denote v (member_path path k) = Inr d"
  shows "map_of ms k = Some d"
proof -
  have "denote_members (sort_key fst ps) path = Inr ms"
    using assms(1,3) by (auto simp: bindE_eq_Inr split: option.splits jval.splits)
  moreover have "distinct (map fst (sort_key fst ps))"
    using assms(2) by (metis mset_map mset_sort mset_eq_imp_distinct_iff)
  ultimately show ?thesis
    using denote_members_lookup [of "sort_key fst ps" path ms k] assms(2,4-6)
    by (simp add: map_of_sort_key)
qed

lemma denote_object_absent:
  assumes "denote (JObj ps) path = Inr (DObj ms)" and "distinct (map fst ps)"
    and "\<And>v. map_of ps (units ''toJSON'') \<noteq> Some (JFunction v)" and "map_of ps k = None"
  shows "map_of ms k = None"
proof -
  have "denote_members (sort_key fst ps) path = Inr ms"
    using assms(1,3) by (auto simp: bindE_eq_Inr split: option.splits jval.splits)
  moreover have "distinct (map fst (sort_key fst ps))"
    using assms(2) by (metis mset_map mset_sort mset_eq_imp_distinct_iff)
  ultimately show ?thesis
    using denote_members_lookup [of "sort_key fst ps" path ms k] assms(2,4)
    by (simp add: map_of_sort_key)
qed


lemma link_members_distinct: "distinct (map fst (link_members e f))"
  by (simp add: link_members_def)

lemma link_members_no_toJSON: "map_of (link_members e f) (units ''toJSON'') \<noteq> Some (JFunction v)"
  by (simp add: link_members_def)

lemma link_members_fine: "dense (JObj (link_members e f))" "shortest (JObj (link_members e f))"
  by (simp_all add: link_members_def)

lemma denote_members_total:
  "(\<And>k v p. (k, v) \<in> set ps \<Longrightarrow> surrogate_failure k = None \<and> v \<noteq> JUndefined \<and> (\<exists>d. denote v p = Inr d)) \<Longrightarrow>
     \<exists>ms. denote_members ps path = Inr ms"
proof (induction ps)
  case (Cons q ps)
  obtain k v where q: "q = (k, v)" by (cases q)
  then obtain d where "denote v (member_path path k) = Inr d" "surrogate_failure k = None" "v \<noteq> JUndefined"
    using Cons.prems [of k v "member_path path k"] by auto
  moreover obtain ms where "denote_members ps path = Inr ms"
    using Cons.IH Cons.prems by (meson list.set_intros(2))
  ultimately show ?case by (simp add: q assert_unicode_def)
qed simp

lemma denote_link: "\<exists>ms. denote (JObj (link_members e f)) path = Inr (DObj ms)"
proof -
  have "list_all (\<lambda>(k, v). surrogate_failure k = None \<and> v \<noteq> JUndefined \<and> (\<forall>p. \<exists>d. denote v p = Inr d))
      (link_members e f)"
    by (simp add: link_members_def units_scalar)
  then have "\<exists>ms. denote_members (sort_key fst (link_members e f)) path = Inr ms"
    by (intro denote_members_total) (auto simp: list_all_iff)
  then obtain ms where "denote_members (sort_key fst (link_members e f)) path = Inr ms" ..
  then have "denote (JObj (link_members e f)) path = Inr (DObj ms)"
    using link_members_no_toJSON [of e f] by (auto split: option.splits jval.splits)
  then show ?thesis ..
qed

text \<open>What one link commits to.\<close>

definition link_commitment :: "audit_entry \<Rightarrow> string \<Rightarrow>
    string \<times> string \<times> string \<times> string \<times> string list \<times> string \<times> string option \<times> string option \<times> bool" where
  "link_commitment e f =
     (action_id e, action_type e, actor_id e, acting_role_id e, sort (object_ids e), effective_at e,
      before_digest e, after_digest e, f = ''kf-audit-link-v1'')"

lemma nullable_inject:
  "(case x of None \<Rightarrow> DNull | Some s \<Rightarrow> DStr (units s)) = (case y of None \<Rightarrow> DNull | Some s \<Rightarrow> DStr (units s))
     \<longleftrightarrow> x = y"
  by (auto split: option.splits)

lemma link_datum_inject:
  assumes "denote (JObj (link_members e f)) [] = Inr (DObj ms)"
    and "denote (JObj (link_members e' f')) [] = Inr (DObj ms)"
  shows "link_commitment e f = link_commitment e' f'"
proof -
  note look = denote_object_lookup [OF assms(1) link_members_distinct link_members_no_toJSON]
  note look' = denote_object_lookup [OF assms(2) link_members_distinct link_members_no_toJSON]
  have texts: "map_of ms (units k) = Some (DStr (units s))"
    if "map_of (link_members e f) (units k) = Some (text_value s)" for k s
    by (rule look [OF that]) simp_all
  have texts': "map_of ms (units k) = Some (DStr (units s))"
    if "map_of (link_members e' f') (units k) = Some (text_value s)" for k s
    by (rule look' [OF that]) simp_all
  have agree: "s = t" if "map_of (link_members e f) (units k) = Some (text_value s)"
    "map_of (link_members e' f') (units k) = Some (text_value t)" for k s t
    using texts [OF that(1)] texts' [OF that(2)] by simp
  have nulls: "x = y" if "map_of (link_members e f) (units k) = Some (nullable_text x)"
    "map_of (link_members e' f') (units k) = Some (nullable_text y)" for k x y
    using look [OF that(1)] look' [OF that(2)] by (simp add: nullable_inject)
  have lists: "xs = ys" if "map_of (link_members e f) (units k) = Some (text_list xs)"
    "map_of (link_members e' f') (units k) = Some (text_list ys)" for k xs ys
    using look [OF that(1)] look' [OF that(2)] by (simp add: string_list_units_inject)
  have "action_id e = action_id e'" by (rule agree [of "''action_id''"]) (simp_all add: link_members_def)
  moreover have "action_type e = action_type e'"
    by (rule agree [of "''action_type''"]) (simp_all add: link_members_def)
  moreover have "actor_id e = actor_id e'"
    by (rule agree [of "''actor_id''"]) (simp_all add: link_members_def)
  moreover have "acting_role_id e = acting_role_id e'"
    by (rule agree [of "''acting_role_id''"]) (simp_all add: link_members_def)
  moreover have "sort (object_ids e) = sort (object_ids e')"
    by (rule lists [of "''object_ids''"]) (simp_all add: link_members_def)
  moreover have "effective_at e = effective_at e'"
    by (rule agree [of "''effective_at''"]) (simp_all add: link_members_def)
  moreover have "before_digest e = before_digest e'"
    by (rule nulls [of "''before_digest''"]) (simp_all add: link_members_def)
  moreover have "after_digest e = after_digest e'"
    by (rule nulls [of "''after_digest''"]) (simp_all add: link_members_def)
  moreover have "(f = ''kf-audit-link-v1'') = (f' = ''kf-audit-link-v1'')"
  proof -
    have tag: "map_of ms (units ''format'') = None \<longleftrightarrow> g = ''kf-audit-link-v1''"
      if d: "denote (JObj (link_members x g)) [] = Inr (DObj ms)" for x g
    proof (cases "g = ''kf-audit-link-v1''")
      case True
      then have "map_of (link_members x g) (units ''format'') = None" by (simp add: link_members_def)
      from denote_object_absent [OF d link_members_distinct link_members_no_toJSON this] True
      show ?thesis by simp
    next
      case False
      then have "map_of (link_members x g) (units ''format'') = Some (text_value g)"
        by (simp add: link_members_def)
      from denote_object_lookup [OF d link_members_distinct link_members_no_toJSON this] False
      show ?thesis by simp
    qed
    from tag [OF assms(1)] tag [OF assms(2)] show ?thesis by simp
  qed
  ultimately show ?thesis by (simp add: link_commitment_def)
qed

lemma canonical_bytes_link: "\<exists>b. canonical_bytes (JObj (link_members e f)) = Inr b"
  using denote_link [of e f "[]"] canonical_bytes_denote [OF link_members_fine(1)] by blast

lemma link_bytes_inject:
  assumes "canonical_bytes (JObj (link_members e f)) = Inr b"
    and "canonical_bytes (JObj (link_members e' f')) = Inr b"
  shows "link_commitment e f = link_commitment e' f'"
proof -
  obtain d where "denote (JObj (link_members e f)) [] = Inr d" "denote (JObj (link_members e' f')) [] = Inr d"
    using canonical_bytes_inject [OF link_members_fine link_members_fine assms] by blast
  moreover then obtain ms where "d = DObj ms"
    using denote_link [of e f "[]"] by auto
  ultimately show ?thesis using link_datum_inject by blast
qed

section \<open>Hexadecimal text and its bytes\<close>

lemma hex_digit_inject: "is_hex a \<Longrightarrow> is_hex b \<Longrightarrow> hex_digit a = hex_digit b \<longleftrightarrow> a = b"
proof -
  have "\<forall>a\<in>set ''0123456789abcdef''. \<forall>b\<in>set ''0123456789abcdef''. hex_digit a = hex_digit b \<longrightarrow> a = b"
    by code_simp
  then show "is_hex a \<Longrightarrow> is_hex b \<Longrightarrow> hex_digit a = hex_digit b \<longleftrightarrow> a = b"
    unfolding is_hex_def by blast
qed

lemma hex_digit_bound: "is_hex a \<Longrightarrow> hex_digit a < 16"
proof -
  have "\<forall>a\<in>set ''0123456789abcdef''. hex_digit a < 16" by code_simp
  then show "is_hex a \<Longrightarrow> hex_digit a < 16" unfolding is_hex_def by (rule bspec)
qed

lemma hex_byte_inject:
  assumes "is_hex a" "is_hex b" "is_hex c" "is_hex d"
    and "(word_of_nat (16 * hex_digit a + hex_digit b) :: 8 word) = word_of_nat (16 * hex_digit c + hex_digit d)"
  shows "a = c \<and> b = d"
proof -
  have bounds: "hex_digit a < 16" "hex_digit b < 16" "hex_digit c < 16" "hex_digit d < 16"
    using assms hex_digit_bound by simp_all
  have val: "unat (word_of_nat n :: 8 word) = n" if "n < 256" for n :: nat
    using that by (simp add: unat_of_nat take_bit_nat_eq_self)
  have "16 * hex_digit a + hex_digit b = 16 * hex_digit c + hex_digit d"
    using bounds assms(5) val [of "16 * hex_digit a + hex_digit b"] val [of "16 * hex_digit c + hex_digit d"]
    by simp
  moreover from this bounds have "\<not> hex_digit a < hex_digit c" "\<not> hex_digit c < hex_digit a"
    by linarith+
  ultimately have "hex_digit a = hex_digit c" "hex_digit b = hex_digit d"
    by linarith+
  with assms(1-4) hex_digit_inject show ?thesis by blast
qed

lemma hex_bytes_inject:
  "length s = length t \<Longrightarrow> even (length s) \<Longrightarrow> list_all is_hex s \<Longrightarrow> list_all is_hex t \<Longrightarrow>
     hex_bytes s @ x = hex_bytes t @ y \<Longrightarrow> s = t \<and> x = y"
proof (induction s arbitrary: t rule: hex_bytes.induct)
  case (1 a b s)
  then obtain c d t' where t: "t = c # d # t'"
    by (cases t rule: hex_bytes.cases) auto
  with 1 have "a = c \<and> b = d" using hex_byte_inject [of a b c d] by simp
  moreover have "s = t' \<and> x = y"
    using 1 t by (intro "1.IH") auto
  ultimately show ?case using t by simp
qed (auto simp: length_Suc_conv)

lemma hex64_bytes_inject: "hex64 s \<Longrightarrow> hex64 t \<Longrightarrow> hex_bytes s @ x = hex_bytes t @ y \<Longrightarrow> s = t \<and> x = y"
  by (rule hex_bytes_inject) (auto simp: hex64_def)

lemma audit_chain_digest_eq:
  "audit_chain_digest H prev e f = Inr d \<longleftrightarrow>
     is_audit_link_format f \<and> hex64 prev \<and> d = H (link_preimage prev e f)"
proof -
  obtain b where "canonical_bytes (JObj (link_members e f)) = Inr b"
    using canonical_bytes_link by blast
  then show ?thesis
    by (auto simp: audit_chain_digest_def chain_digest_def link_preimage_def)
qed

text \<open>Equal preimages come from the same predecessor and commit to the same fields.\<close>

lemma link_preimage_inject:
  assumes "hex64 prev" "hex64 prev'" and "link_preimage prev e f = link_preimage prev' e' f'"
  shows "prev = prev' \<and> link_commitment e f = link_commitment e' f'"
proof -
  obtain b b' where b: "canonical_bytes (JObj (link_members e f)) = Inr b"
    "canonical_bytes (JObj (link_members e' f')) = Inr b'"
    using canonical_bytes_link by metis
  with assms(3) have "hex_bytes prev @ b = hex_bytes prev' @ b'"
    by (simp add: link_preimage_def)
  from hex64_bytes_inject [OF assms(1,2) this] have "prev = prev'" "b = b'" by simp_all
  with b link_bytes_inject show ?thesis by blast
qed

end
