(* ===== verification/Audit_Ledger.thy ===== *)
theory Audit_Ledger
  imports Audit_Links
begin

text \<open>
  The action and audit tables, appending a link (\<open>packages/actions/src/internal/audit.ts\<close>)
  and verifying a restored chain (\<open>packages/export/src/internal/importer/audit-chain.ts\<close>).

  A \<open>timestamptz\<close> value is the pair of texts the queries read from it: milliseconds
  (\<open>wire\<close>) and microseconds (\<open>exact\<close>). A JavaScript \<open>Date\<close> is its \<open>toISOString()\<close> text.
\<close>

section \<open>Tables\<close>

datatype timestamp = Timestamp (wire: string) (exact: string)

text \<open>What PostgreSQL stores for an ISO text with milliseconds and a final \<open>Z\<close>.\<close>

definition stored_timestamp :: "string \<Rightarrow> timestamp" where
  "stored_timestamp text = Timestamp text (butlast text @ ''000Z'')"

record action_row =
  row_id :: string
  row_organization :: string
  row_request_digest :: string
  row_action_type :: string
  row_actor :: string
  row_role :: string
  row_targets :: "string list"
  row_idempotency_key :: string
  row_effective :: timestamp
  row_request_id :: "string option"
  row_reason :: "string option"
  row_status :: string

record event_row =
  ev_seq :: nat
  ev_action :: string
  ev_actor :: string
  ev_role :: string
  ev_action_type :: string
  ev_object :: "string option"
  ev_effective :: timestamp
  ev_request_id :: "string option"
  ev_reason :: "string option"
  ev_before :: "string option"
  ev_after :: "string option"
  ev_prev :: string
  ev_digest :: string
  ev_format :: string

record ledger =
  ledger_actions :: "action_row list"
  ledger_events :: "event_row list"
  chain_head :: string

section \<open>Appending a link\<close>

record link_input =
  in_action_id :: string
  in_action_type :: string
  in_actor :: string
  in_role :: string
  in_objects :: "string list"
  in_effective :: string
  in_request_id :: "string option"
  in_reason :: "string option"
  in_before :: "string option"
  in_after :: "string option"

definition single_object :: "string list \<Rightarrow> string option" where
  "single_object ids = (case ids of [x] \<Rightarrow> Some x | _ \<Rightarrow> None)"

definition input_entry :: "link_input \<Rightarrow> audit_entry" where
  "input_entry i =
     \<lparr>action_id = in_action_id i, action_type = in_action_type i, actor_id = in_actor i,
      acting_role_id = in_role i, object_ids = sort (in_objects i), effective_at = in_effective i,
      before_digest = in_before i, after_digest = in_after i\<rparr>"

text \<open>
  \<open>appendAuditEvent\<close>: the head is read under the chain's advisory lock; the insert moves the
  head and sets the link format to the current one (the table's triggers).
\<close>

definition link_event :: "link_input \<Rightarrow> nat \<Rightarrow> string \<Rightarrow> string \<Rightarrow> event_row" where
  "link_event i seq prev digest =
     \<lparr>ev_seq = seq, ev_action = in_action_id i, ev_actor = in_actor i, ev_role = in_role i,
      ev_action_type = in_action_type i, ev_object = single_object (sort (in_objects i)),
      ev_effective = stored_timestamp (in_effective i), ev_request_id = in_request_id i,
      ev_reason = in_reason i, ev_before = in_before i, ev_after = in_after i, ev_prev = prev,
      ev_digest = digest, ev_format = CURRENT_AUDIT_LINK_FORMAT\<rparr>"

definition append_audit_event :: "sha256 \<Rightarrow> 'a ledger_scheme \<Rightarrow> link_input \<Rightarrow>
    canon_error + (string \<times> 'a ledger_scheme)" where
  "append_audit_event H db i =
     bindE (audit_chain_digest H (chain_head db) (input_entry i) CURRENT_AUDIT_LINK_FORMAT)
       (\<lambda>digest. Inr (digest,
          db\<lparr>ledger_events := ledger_events db @
                [link_event i (Suc (length (ledger_events db))) (chain_head db) digest],
             chain_head := digest\<rparr>))"

section \<open>Verifying a restored chain\<close>

datatype restore_error =
    Receipt_count_mismatch string nat
  | Predecessor_mismatch nat
  | Binding_mismatch nat
  | Unknown_format nat
  | Format_regression nat
  | Malformed_event nat
  | Digest_mismatch nat
  | No_genesis

definition receipts :: "event_row list \<Rightarrow> string \<Rightarrow> nat" where
  "receipts events a = length (filter (\<lambda>e. ev_action e = a) events)"

text \<open>\<open>join core.action action on action.id = event.action_id\<close>, in \<open>seq\<close> order.\<close>

definition find_action :: "action_row list \<Rightarrow> string \<Rightarrow> action_row option" where
  "find_action actions i = find (\<lambda>a. row_id a = i) actions"

fun joined :: "action_row list \<Rightarrow> event_row list \<Rightarrow> (event_row \<times> action_row) list" where
  "joined actions [] = []"
| "joined actions (e # es) =
     (case find_action actions (ev_action e) of
        None \<Rightarrow> joined actions es
      | Some a \<Rightarrow> (e, a) # joined actions es)"

definition event_entry :: "event_row \<Rightarrow> string list \<Rightarrow> audit_entry" where
  "event_entry e targets =
     \<lparr>action_id = ev_action e, action_type = ev_action_type e, actor_id = ev_actor e,
      acting_role_id = ev_role e, object_ids = sort targets, effective_at = wire (ev_effective e),
      before_digest = ev_before e, after_digest = ev_after e\<rparr>"

definition bound_to_action :: "nat \<Rightarrow> event_row \<Rightarrow> action_row \<Rightarrow> bool" where
  "bound_to_action n e a \<longleftrightarrow>
     n = 1 \<and> ev_actor e = row_actor a \<and> ev_role e = row_role a \<and>
     ev_action_type e = row_action_type a \<and> ev_object e = single_object (row_targets a) \<and>
     exact (ev_effective e) = exact (row_effective a) \<and>
     ev_request_id e = row_request_id a \<and> ev_reason e = row_reason a"

text \<open>
  The loop over the joined rows: \<open>previous_format\<close> and the predecessor's digest are its
  state; \<open>all\<close> are the rows the window function counts over.
\<close>

fun check_links :: "sha256 \<Rightarrow> (event_row \<times> action_row) list \<Rightarrow> string option \<Rightarrow> string \<Rightarrow>
    (event_row \<times> action_row) list \<Rightarrow> restore_error + unit" where
  "check_links H all previous_format expected [] = Inr ()"
| "check_links H all previous_format expected ((e, a) # rows) =
     (if ev_prev e \<noteq> expected then Inl (Predecessor_mismatch (ev_seq e))
      else if \<not> bound_to_action (receipts (map fst all) (ev_action e)) e a
      then Inl (Binding_mismatch (ev_seq e))
      else if \<not> is_audit_link_format (ev_format e) then Inl (Unknown_format (ev_seq e))
      else if \<not> audit_link_format_may_follow previous_format (ev_format e)
      then Inl (Format_regression (ev_seq e))
      else (case audit_chain_digest H expected (event_entry e (row_targets a)) (ev_format e) of
              Inl _ \<Rightarrow> Inl (Malformed_event (ev_seq e))
            | Inr rebuilt \<Rightarrow>
                if rebuilt \<noteq> ev_digest e then Inl (Digest_mismatch (ev_seq e))
                else check_links H all (Some (ev_format e)) (ev_digest e) rows))"

text \<open>The predecessor the query pairs with the first row: \<open>coalesce(lag(\<dots>), repeat('0', 64))\<close>.\<close>

definition first_expected :: string where
  "first_expected = genesis_digest"

definition assert_restored_audit_chain :: "sha256 \<Rightarrow> 'a ledger_scheme \<Rightarrow> restore_error + unit" where
  "assert_restored_audit_chain H db =
     (case find (\<lambda>a. receipts (ledger_events db) (row_id a) \<noteq> 1) (sort_key row_id (ledger_actions db)) of
        Some a \<Rightarrow> Inl (Receipt_count_mismatch (row_id a) (receipts (ledger_events db) (row_id a)))
      | None \<Rightarrow>
        (let rows = joined (ledger_actions db) (ledger_events db) in
         bindE (check_links H rows None first_expected rows)
           (\<lambda>_. if rows \<noteq> [] \<and> first_expected \<noteq> genesis_digest then Inl No_genesis else Inr ())))"

section \<open>Tamper evidence\<close>

definition row_commitment :: "event_row \<times> action_row \<Rightarrow>
    string \<times> string \<times> string \<times> string \<times> string list \<times> string \<times> string option \<times> string option \<times> bool" where
  "row_commitment = (\<lambda>(e, a). link_commitment (event_entry e (row_targets a)) (ev_format e))"

definition rows_head :: "string \<Rightarrow> (event_row \<times> action_row) list \<Rightarrow> string" where
  "rows_head start rows = (if rows = [] then start else ev_digest (fst (last rows)))"

definition row_preimage :: "event_row \<times> action_row \<Rightarrow> 8 word list" where
  "row_preimage = (\<lambda>(e, a). link_preimage (ev_prev e) (event_entry e (row_targets a)) (ev_format e))"

definition ledger_rows :: "'a ledger_scheme \<Rightarrow> (event_row \<times> action_row) list" where
  "ledger_rows db = joined (ledger_actions db) (ledger_events db)"

definition last_format :: "string option \<Rightarrow> (event_row \<times> action_row) list \<Rightarrow> string option" where
  "last_format start rows = (if rows = [] then start else Some (ev_format (fst (last rows))))"

lemma check_links_append:
  "check_links H all f p (xs @ ys) = Inr u \<longleftrightarrow>
     check_links H all f p xs = Inr () \<and> check_links H all (last_format f xs) (rows_head p xs) ys = Inr ()"
proof (induction xs arbitrary: f p)
  case Nil
  then show ?case by (simp add: last_format_def rows_head_def)
next
  case (Cons x xs)
  obtain e a where x: "x = (e, a)" by (cases x)
  have heads: "last_format f (x # xs) = last_format (Some (ev_format e)) xs"
    "rows_head p (x # xs) = rows_head (ev_digest e) xs"
    by (auto simp: last_format_def rows_head_def x)
  show ?case unfolding heads using Cons.IH by (simp add: x split: sum.splits)
qed

lemma check_link_single:
  "check_links H all f p [(e, a)] = Inr u \<longleftrightarrow>
     ev_prev e = p \<and> bound_to_action (receipts (map fst all) (ev_action e)) e a \<and>
     is_audit_link_format (ev_format e) \<and> audit_link_format_may_follow f (ev_format e) \<and>
     hex64 p \<and> ev_digest e = H (row_preimage (e, a))"
  by (auto simp: audit_chain_digest_eq row_preimage_def split: sum.splits if_splits)
     (metis audit_chain_digest_eq obj_sumE sum.distinct(1))+

text \<open>
  Two chains that both verify and end in the same digest are the same chain, link by link,
  unless SHA-256 collides on two of their preimages or hits the genesis value.
\<close>

lemma check_links_tamper_evident:
  assumes "inj_on H (row_preimage ` set rows \<union> row_preimage ` set rows')"
    and "genesis_digest \<notin> H ` (row_preimage ` set rows \<union> row_preimage ` set rows')"
    and "check_links H all None genesis_digest rows = Inr ()"
    and "check_links H all' None genesis_digest rows' = Inr ()"
    and "rows_head genesis_digest rows = rows_head genesis_digest rows'"
  shows "map row_commitment rows = map row_commitment rows' \<and>
    map (ev_digest \<circ> fst) rows = map (ev_digest \<circ> fst) rows'"
  using assms
proof (induction rows arbitrary: rows' rule: rev_induct)
  case Nil
  show ?case
  proof (cases rows' rule: rev_cases)
    case (snoc ys r)
    obtain e a where r: "r = (e, a)" by (cases r)
    have "ev_digest e = H (row_preimage (e, a))"
      using Nil.prems(4) snoc r by (simp only: check_links_append check_link_single)
    with Nil.prems(2,5) snoc r show ?thesis by (auto simp: rows_head_def)
  qed simp
next
  case (snoc r rows)
  obtain e a where r: "r = (e, a)" by (cases r)
  have step: "check_links H all None genesis_digest rows = Inr ()"
    "ev_prev e = rows_head genesis_digest rows" "hex64 (rows_head genesis_digest rows)"
    "ev_digest e = H (row_preimage (e, a))"
    using snoc.prems(3) r by (simp_all only: check_links_append check_link_single)
  show ?case
  proof (cases rows' rule: rev_cases)
    case Nil
    with snoc.prems(2,5) step(4) r show ?thesis by (auto simp: rows_head_def)
  next
    case (snoc ys s)
    obtain e' a' where s: "s = (e', a')" by (cases s)
    have step': "check_links H all' None genesis_digest ys = Inr ()"
      "ev_prev e' = rows_head genesis_digest ys" "hex64 (rows_head genesis_digest ys)"
      "ev_digest e' = H (row_preimage (e', a'))"
      using snoc.prems(4) snoc s by (simp_all only: check_links_append check_link_single)
    have same: "ev_digest e = ev_digest e'"
      using snoc.prems(5) snoc r s by (simp add: rows_head_def)
    have "row_preimage (e, a) = row_preimage (e', a')"
      by (rule inj_onD [OF snoc.prems(1)]) (use same step(4) step'(4) snoc r s in auto)
    then have "link_preimage (ev_prev e) (event_entry e (row_targets a)) (ev_format e) =
        link_preimage (ev_prev e') (event_entry e' (row_targets a')) (ev_format e')"
      by (simp only: row_preimage_def prod.case)
    moreover have "hex64 (ev_prev e)" "hex64 (ev_prev e')"
      using step(2,3) step'(2,3) by simp_all
    ultimately have "ev_prev e = ev_prev e'" and commit: "row_commitment r = row_commitment s"
      unfolding r s row_commitment_def prod.case using link_preimage_inject by blast+
    then have heads: "rows_head genesis_digest rows = rows_head genesis_digest ys"
      using step(2) step'(2) by simp
    have "map row_commitment rows = map row_commitment ys \<and>
        map (ev_digest \<circ> fst) rows = map (ev_digest \<circ> fst) ys"
    proof (rule snoc.IH)
      show "inj_on H (row_preimage ` set rows \<union> row_preimage ` set ys)"
        by (rule inj_on_subset [OF snoc.prems(1)]) (use snoc in auto)
      show "genesis_digest \<notin> H ` (row_preimage ` set rows \<union> row_preimage ` set ys)"
        using snoc.prems(2) snoc by auto
    qed (use step(1) step'(1) heads in simp_all)
    then show ?thesis using snoc r s same commit by (simp add: comp_def)
  qed
qed


section \<open>The ledger invariant and what appending keeps\<close>

definition ledger_ok :: "sha256 \<Rightarrow> 'a ledger_scheme \<Rightarrow> bool" where
  "ledger_ok H db \<longleftrightarrow>
     distinct (map row_id (ledger_actions db)) \<and>
     (\<forall>a\<in>set (ledger_actions db). receipts (ledger_events db) (row_id a) = 1) \<and>
     (\<forall>e\<in>set (ledger_events db). ev_action e \<in> row_id ` set (ledger_actions db)) \<and>
     check_links H (ledger_rows db) None genesis_digest (ledger_rows db) = Inr () \<and>
     chain_head db = rows_head genesis_digest (ledger_rows db) \<and> hex64 (chain_head db)"

definition empty_ledger :: ledger where
  "empty_ledger = \<lparr>ledger_actions = [], ledger_events = [], chain_head = genesis_digest\<rparr>"

lemma hex64_genesis: "hex64 genesis_digest"
  by (simp add: hex64_def genesis_digest_def is_hex_def list_all_length)

lemma empty_ledger_ok: "ledger_ok H empty_ledger"
  by (simp add: ledger_ok_def empty_ledger_def ledger_rows_def rows_head_def hex64_genesis)

lemma ledger_ok_restores: "ledger_ok H db \<Longrightarrow> assert_restored_audit_chain H db = Inr ()"
proof -
  assume ok: "ledger_ok H db"
  then have "find (\<lambda>a. receipts (ledger_events db) (row_id a) \<noteq> 1) (sort_key row_id (ledger_actions db)) = None"
    by (auto simp: ledger_ok_def find_None_iff)
  with ok show ?thesis
    by (simp add: assert_restored_audit_chain_def ledger_ok_def ledger_rows_def first_expected_def Let_def)
qed

lemma joined_append: "joined actions (es @ fs) = joined actions es @ joined actions fs"
  by (induction es) (auto split: option.splits)

lemma find_action_append:
  "i \<in> row_id ` set actions \<Longrightarrow> find_action (actions @ [a]) i = find_action actions i"
  by (induction actions) (auto simp: find_action_def)

lemma find_action_fresh: "row_id a \<notin> row_id ` set actions \<Longrightarrow> find_action (actions @ [a]) (row_id a) = Some a"
  by (induction actions) (auto simp: find_action_def)

lemma joined_extend:
  "\<forall>e\<in>set es. ev_action e \<in> row_id ` set actions \<Longrightarrow> joined (actions @ [a]) es = joined actions es"
proof (induction es)
  case (Cons e es)
  then have "find_action (actions @ [a]) (ev_action e) = find_action actions (ev_action e)"
    by (intro find_action_append) simp
  with Cons show ?case by (simp split: option.splits)
qed simp

lemma joined_events: "\<forall>e\<in>set es. ev_action e \<in> row_id ` set actions \<Longrightarrow> map fst (joined actions es) = es"
proof (induction es)
  case (Cons e es)
  then have "find_action actions (ev_action e) \<noteq> None"
    by (auto simp: find_action_def find_None_iff)
  with Cons show ?case by auto
qed simp

lemma check_links_all_cong:
  "(\<And>e a. (e, a) \<in> set rows \<Longrightarrow> receipts (map fst all) (ev_action e) = receipts (map fst all') (ev_action e)) \<Longrightarrow>
     check_links H all f p rows = check_links H all' f p rows"
proof (induction rows arbitrary: f p)
  case (Cons row rows)
  obtain e a where row: "row = (e, a)" by (cases row)
  have "receipts (map fst all) (ev_action e) = receipts (map fst all') (ev_action e)"
    by (rule Cons.prems [of e a]) (simp add: row)
  moreover have "check_links H all f p rows = check_links H all' f p rows" for f p
    by (rule Cons.IH) (use Cons.prems in auto)
  ultimately show ?case by (simp add: row split: sum.splits)
qed simp

lemma receipts_append: "receipts (es @ fs) i = receipts es i + receipts fs i"
  by (simp add: receipts_def)

lemma receipts_none: "\<forall>e\<in>set es. ev_action e \<noteq> i \<Longrightarrow> receipts es i = 0"
  by (simp add: receipts_def filter_empty_conv)

lemma current_format_follows: "audit_link_format_may_follow f CURRENT_AUDIT_LINK_FORMAT"
  by (cases f) (auto simp: audit_link_format_may_follow_def CURRENT_AUDIT_LINK_FORMAT_def
      AUDIT_LINK_FORMATS_def index_of_def)

lemma current_format_known: "is_audit_link_format CURRENT_AUDIT_LINK_FORMAT"
  by (simp add: is_audit_link_format_def CURRENT_AUDIT_LINK_FORMAT_def AUDIT_LINK_FORMATS_def)

lemma joined_actions: "(e, a) \<in> set (joined actions es) \<Longrightarrow> e \<in> set es \<and> a \<in> set actions \<and> row_id a = ev_action e"
proof (induction es)
  case (Cons x es)
  then show ?case
    by (auto simp: find_action_def dest!: find_Some_iff [THEN iffD1] split: option.splits)
qed simp

text \<open>The link of an action that has just been inserted.\<close>

definition link_of_row :: "link_input \<Rightarrow> action_row \<Rightarrow> bool" where
  "link_of_row i a \<longleftrightarrow>
     in_action_id i = row_id a \<and> in_action_type i = row_action_type a \<and> in_actor i = row_actor a \<and>
     in_role i = row_role a \<and> in_objects i = row_targets a \<and>
     row_effective a = stored_timestamp (in_effective i) \<and>
     in_request_id i = row_request_id a \<and> in_reason i = row_reason a"

lemma single_object_sort: "single_object (sort xs) = single_object xs"
proof (cases "length xs = 1")
  case True
  then obtain x where "xs = [x]" by (auto simp: length_Suc_conv)
  then show ?thesis by simp
next
  case False
  then have "single_object ys = None" if "length ys = length xs" for ys
    using that by (auto simp: single_object_def split: list.splits)
  then show ?thesis by simp
qed

lemma append_audit_event_ok:
  assumes ok: "ledger_ok H db" and H: "hex_digests H"
    and acts: "ledger_actions db' = ledger_actions db @ [a]" "ledger_events db' = ledger_events db"
      "chain_head db' = chain_head db"
    and fresh: "row_id a \<notin> row_id ` set (ledger_actions db)" and link: "link_of_row i a"
    and app: "append_audit_event H db' i = Inr (digest, db'')"
    and keep: "ledger_actions db'' = ledger_actions db'"
  shows "ledger_ok H db''"
proof -
  let ?prev = "chain_head db" and ?E = "ledger_events db" and ?A = "ledger_actions db"
  define e where "e = link_event i (Suc (length ?E)) ?prev digest"
  have chain: "audit_chain_digest H ?prev (input_entry i) CURRENT_AUDIT_LINK_FORMAT = Inr digest"
    and db'': "db'' = db'\<lparr>ledger_events := ?E @ [e], chain_head := digest\<rparr>"
    using app by (auto simp: append_audit_event_def bindE_eq_Inr acts e_def)
  have events: "ledger_events db'' = ?E @ [e]" and head: "chain_head db'' = ev_digest e"
    by (simp_all add: db'' e_def link_event_def)
  have e: "ev_action e = row_id a" "ev_actor e = row_actor a" "ev_role e = row_role a"
      "ev_action_type e = row_action_type a" "ev_object e = single_object (row_targets a)"
      "ev_effective e = row_effective a" "ev_request_id e = row_request_id a"
      "ev_reason e = row_reason a" "ev_prev e = ?prev" "ev_format e = CURRENT_AUDIT_LINK_FORMAT"
    using link by (simp_all add: e_def link_event_def link_of_row_def single_object_sort)
  have dig: "ev_digest e = H (link_preimage ?prev (input_entry i) CURRENT_AUDIT_LINK_FORMAT)"
    using chain by (simp add: audit_chain_digest_eq e_def link_event_def)
  have same: "input_entry i = event_entry e (row_targets a)"
    using link by (simp add: input_entry_def event_entry_def e_def link_event_def link_of_row_def
        stored_timestamp_def)
  have known: "\<forall>x\<in>set ?E. ev_action x \<in> row_id ` set ?A"
    using ok by (simp add: ledger_ok_def)
  have fresh_events: "\<forall>x\<in>set ?E. ev_action x \<noteq> row_id a"
    using known fresh by metis
  have rows: "ledger_rows db'' = ledger_rows db @ [(e, a)]"
    using fresh known by (simp add: ledger_rows_def keep acts events joined_append joined_extend
        find_action_fresh e)
  have all: "map fst (ledger_rows db'') = ?E @ [e]"
    using known by (simp add: rows) (simp add: ledger_rows_def joined_events)
  have old: "map fst (ledger_rows db) = ?E"
    using known by (simp add: ledger_rows_def joined_events)
  have "check_links H (ledger_rows db'') None genesis_digest (ledger_rows db) =
      check_links H (ledger_rows db) None genesis_digest (ledger_rows db)"
  proof (rule check_links_all_cong)
    fix x y
    assume "(x, y) \<in> set (ledger_rows db)"
    then have "x \<in> set ?E" by (auto simp: ledger_rows_def dest: joined_actions)
    with fresh_events e(1) show "receipts (map fst (ledger_rows db'')) (ev_action x) =
        receipts (map fst (ledger_rows db)) (ev_action x)"
      unfolding all old by (auto simp: receipts_def)
  qed
  moreover have prev: "hex64 ?prev" and prev_rows: "?prev = rows_head genesis_digest (ledger_rows db)"
    using ok unfolding ledger_ok_def by blast+
  have "receipts (map fst (ledger_rows db'')) (ev_action e) = 1"
    using fresh_events receipts_none [of ?E "row_id a"] unfolding all
    by (simp add: receipts_append e(1)) (simp add: receipts_def e(1))
  then have "check_links H (ledger_rows db'') (last_format None (ledger_rows db)) ?prev [(e, a)] = Inr ()"
    using prev dig same e unfolding check_link_single
    by (simp add: bound_to_action_def current_format_follows current_format_known row_preimage_def)
  ultimately have "check_links H (ledger_rows db'') None genesis_digest (ledger_rows db'') = Inr ()"
    using ok unfolding rows check_links_append ledger_ok_def prev_rows by simp
  moreover have "\<forall>x\<in>set (ledger_actions db''). receipts (ledger_events db'') (row_id x) = 1"
    using ok fresh fresh_events receipts_none [of ?E "row_id a"]
    by (auto simp: keep acts events receipts_append ledger_ok_def) (auto simp: receipts_def e(1))
  moreover have "hex64 (ev_digest e)"
    using dig H by (simp add: hex_digests_def)
  ultimately show ?thesis
    using ok fresh known by (auto simp: ledger_ok_def keep acts events head rows rows_head_def e(1))
qed

end
