(* ===== verification/Action_Requests.thy ===== *)
theory Action_Requests
  imports Audit_Ledger "HOL-Library.AList"
begin

text \<open>
  What an action request is and the checks on it that read no table
  (\<open>packages/actions/src/internal/contracts.ts\<close>, \<open>refusals.ts\<close>, the first part of
  \<open>authority.ts\<close> and of \<open>idempotency.ts\<close>): refusals and faults as values, the options of a
  dispatcher, the required reason, the effective time, and the digest that identifies the
  semantics of a request.
\<close>

section \<open>Refusals\<close>

datatype action_failure =
    Unknown_action | Actor_not_authorized | Classification_not_granted | Role_not_held
  | Not_attested | Act_not_granted | Object_not_visible | Version_conflict | Illegal_transition
  | Precondition_failed | Idempotency_conflict | Separation_of_duty | Reason_required

datatype detail_value = Text string | Texts "string list" | Number int | Flag bool

text \<open>
  What can be thrown: \<open>ActionRejected\<close>, \<open>PayloadInvalid\<close> (a field and a message), an error of
  the database driver (an SQLSTATE and a message), a \<open>CanonicalizationError\<close>, anything else.
\<close>

datatype thrown =
    Action_rejected action_failure string "(string \<times> detail_value) list"
  | Payload_invalid string string
  | Db_error string string
  | Not_canonical canon_error
  | Fault string

definition reject :: "action_failure \<Rightarrow> string \<Rightarrow> (string \<times> detail_value) list \<Rightarrow> thrown + 'a" where
  "reject failure message detail = Inl (Action_rejected failure message detail)"

lemma reject_not_Inr [simp]: "reject f m d \<noteq> Inr x" "Inr x \<noteq> reject f m d"
  by (simp_all add: reject_def)

lemma bindE_reject [simp]: "bindE (reject f m d) k = reject f m d"
  by (simp add: reject_def)

text \<open>\<open>/^(KF-[A-Z]+-\d+):/\<close>: the rule a message begins with.\<close>

definition is_upper :: "char \<Rightarrow> bool" where
  "is_upper c \<longleftrightarrow> (65::nat) \<le> of_char c \<and> of_char c \<le> (90::nat)"

definition rule_prefix :: "string \<Rightarrow> string option" where
  "rule_prefix message =
     (if take 3 message = ''KF-'' then
        (let area = takeWhile is_upper (drop 3 message);
             rest = dropWhile is_upper (drop 3 message);
             digits = takeWhile is_digit (drop 1 rest);
             end = dropWhile is_digit (drop 1 rest) in
         if area \<noteq> [] \<and> take 1 rest = ''-'' \<and> digits \<noteq> [] \<and> take 1 end = '':''
         then Some (''KF-'' @ area @ ''-'' @ digits) else None)
      else None)"

definition database_rule_violation :: "thrown \<Rightarrow> (string \<times> string) option" where
  "database_rule_violation e =
     (case e of
        Db_error code message \<Rightarrow>
          if code \<noteq> ''23514'' then None
          else map_option (\<lambda>rule. (rule, message)) (rule_prefix message)
      | _ \<Rightarrow> None)"

definition as_action_refusal :: "thrown \<Rightarrow> thrown" where
  "as_action_refusal e =
     (case e of
        Action_rejected _ _ _ \<Rightarrow> e
      | Payload_invalid field message \<Rightarrow>
          Action_rejected Precondition_failed message [(''field'', Text field)]
      | _ \<Rightarrow>
          (case database_rule_violation e of
             Some (rule, message) \<Rightarrow>
               Action_rejected Precondition_failed message
                 [(''rule'', Text rule), (''enforcedBy'', Text ''database'')]
           | None \<Rightarrow> e))"

definition is_rejection :: "thrown \<Rightarrow> bool" where
  "is_rejection e \<longleftrightarrow> (case e of Action_rejected _ _ _ \<Rightarrow> True | _ \<Rightarrow> False)"

section \<open>Requests and results\<close>

text \<open>A JavaScript \<open>Date\<close>: invalid, or the instant given by its ISO text.\<close>

datatype instant = Invalid_date | Instant (iso_text: string)

record action_request =
  rq_action_type :: string
  rq_actor :: string
  rq_role :: string
  rq_targets :: "string list"
  rq_payload :: "(jstr \<times> jval) list option"
  rq_reason :: "string option"
  rq_key :: string
  rq_request_id :: "string option"
  rq_organization :: string
  rq_max_classification :: string
  rq_attestation :: "string option"
  rq_effective_at :: "instant option"
  rq_expected_version :: "int option"

record action_result =
  res_action :: string
  res_replayed :: bool
  res_objects :: "string list"
  res_audit :: string
  res_receipt :: "jval option"

record object_row =
  obj_id :: string
  obj_type :: string
  lifecycle_state :: string
  row_version :: int
  obj_organization :: string
  created_by :: string
  updated_by :: string

record transition_row =
  tr_machine :: string
  tr_from :: string
  tr_to :: string

record action_definition =
  def_id :: string
  def_transactional :: bool
  def_transitions :: "transition_row list"
  def_requires_capability :: "string option"
  def_requires_qualification :: bool

record effect_context =
  ctx_action :: string
  ctx_effective :: string

text \<open>
  The database one transaction reads and writes: the ledger, the objects and the rest, which
  only the action atoms and the database's own functions look into.
\<close>

record 'x world = ledger +
  world_objects :: "object_row list"
  world_rest :: 'x

type_synonym 'x materializer =
  "'x world \<Rightarrow> action_request \<Rightarrow> effect_context \<Rightarrow> thrown + (string list \<times> 'x world)"
type_synonym 'x precondition_check = "'x world \<Rightarrow> action_request \<Rightarrow> object_row list \<Rightarrow> thrown + unit"
type_synonym 'x action_effect =
  "'x world \<Rightarrow> action_request \<Rightarrow> object_row list \<Rightarrow> effect_context \<Rightarrow> thrown + 'x world"
type_synonym 'x receipt_reader = "'x world \<Rightarrow> string \<Rightarrow> thrown + jval"

section \<open>Dispatcher options\<close>

record 'x dispatcher_options =
  opt_allowed :: "string list option"
  opt_preconditions :: "(string \<times> 'x precondition_check) list option"
  opt_materializers :: "(string \<times> 'x materializer) list option"
  opt_effects :: "(string \<times> 'x action_effect) list option"
  opt_receipts :: "(string \<times> 'x receipt_reader) list option"
  opt_separation :: "(string \<times> string list) list option"
  opt_reason_required :: "string list option"

record 'x resolved_options =
  allowed_actions :: "string list option"
  separation_of_duty :: "(string \<times> string list) list"
  reason_required :: "string list"
  preconditions :: "(string \<times> 'x precondition_check) list"
  materializers :: "(string \<times> 'x materializer) list"
  effects :: "(string \<times> 'x action_effect) list"
  receipt_readers :: "(string \<times> 'x receipt_reader) list"

definition DEFAULT_SEPARATION_OF_DUTY :: "(string \<times> string list) list" where
  "DEFAULT_SEPARATION_OF_DUTY =
     [(''issue_acceptance'', [''work_execution'']), (''accept_work_package'', [''work_package'']),
      (''approve_invoice'', [''invoice'']), (''verify_record'', [])]"

definition DEFAULT_REASON_REQUIRED :: "string list" where
  "DEFAULT_REASON_REQUIRED =
     [''correct_record'', ''reject_decision'', ''amend_work_order'', ''verify_record'',
      ''apply_document_proposal'']"

definition MINIMUM_REASON_LENGTH :: nat where
  "MINIMUM_REASON_LENGTH = 8"

definition or_default :: "'a option \<Rightarrow> 'a \<Rightarrow> 'a" where
  "or_default x d = (case x of None \<Rightarrow> d | Some y \<Rightarrow> y)"

definition resolve_dispatcher_options :: "'x dispatcher_options \<Rightarrow> 'x resolved_options" where
  "resolve_dispatcher_options options =
     \<lparr>allowed_actions = opt_allowed options,
      separation_of_duty = or_default (opt_separation options) DEFAULT_SEPARATION_OF_DUTY,
      reason_required = or_default (opt_reason_required options) DEFAULT_REASON_REQUIRED,
      preconditions = or_default (opt_preconditions options) [],
      materializers = or_default (opt_materializers options) [],
      effects = or_default (opt_effects options) [],
      receipt_readers = or_default (opt_receipts options) []\<rparr>"

section \<open>Checks that read no table\<close>

definition assert_action_available :: "string \<Rightarrow> string list option \<Rightarrow> thrown + unit" where
  "assert_action_available ty allowed =
     (case allowed of
        Some actions \<Rightarrow>
          if ty \<notin> set actions
          then reject Unknown_action
                 (''action type '' @ [CHR 0x27] @ ty @ [CHR 0x27] @
                  '' is not available through this dispatcher'')
                 [(''actionType'', Text ty), (''dispatcherAvailable'', Flag False)]
          else Inr ()
      | None \<Rightarrow> Inr ())"

text \<open>\<open>CANONICAL_EFFECTIVE_AT\<close>: a digit where the pattern has \<open>d\<close>, and not the year 0000.\<close>

definition canonical_effective_at :: "string \<Rightarrow> bool" where
  "canonical_effective_at s \<longleftrightarrow>
     take 5 s \<noteq> ''0000-'' \<and>
     list_all2 (\<lambda>p c. if p = CHR ''d'' then is_digit c else c = p) ''dddd-dd-ddTdd:dd:dd.dddZ'' s"

definition assert_canonical_effective_at :: "action_request \<Rightarrow> thrown + unit" where
  "assert_canonical_effective_at rq =
     (let message = ''effectiveAt must be a canonical four-digit-year RFC 3339 millisecond instant'' in
      case rq_effective_at rq of
        None \<Rightarrow> Inr ()
      | Some Invalid_date \<Rightarrow> reject Precondition_failed message []
      | Some (Instant s) \<Rightarrow>
          if \<not> canonical_effective_at s then reject Precondition_failed message [] else Inr ())"

text \<open>JavaScript white space (\<open>\s\<close>, and what \<open>trim\<close> strips) and lower case up to U+00FF.\<close>

definition is_space :: "char \<Rightarrow> bool" where
  "is_space c \<longleftrightarrow> (of_char c :: nat) \<in> {9, 10, 11, 12, 13, 32, 160}"

definition trim :: "string \<Rightarrow> string" where
  "trim s = rev (dropWhile is_space (rev (dropWhile is_space s)))"

definition lower_char :: "char \<Rightarrow> char" where
  "lower_char c =
     (let n = (of_char c :: nat) in
      if 65 \<le> n \<and> n \<le> 90 \<or> 192 \<le> n \<and> n \<le> 222 \<and> n \<noteq> 215 then char_of (n + 32) else c)"

text \<open>The characters a reason is made of, case and white space aside.\<close>

definition distinct_characters :: "string \<Rightarrow> char set" where
  "distinct_characters s = set (map lower_char (filter (\<lambda>c. \<not> is_space c) s))"

definition assert_meaningful_reason :: "action_request \<Rightarrow> thrown + unit" where
  "assert_meaningful_reason rq =
     (let reason = or_default (map_option trim (rq_reason rq)) [];
          different = card (distinct_characters reason) in
      if length reason < MINIMUM_REASON_LENGTH \<or> different < 3
      then reject Reason_required
             (rq_action_type rq @ '' requires a reason of at least '' @ dec MINIMUM_REASON_LENGTH @
              '' characters that says why'')
             [(''actionType'', Text (rq_action_type rq))]
      else Inr ())"

definition assert_reason_present :: "action_request \<Rightarrow> string list \<Rightarrow> thrown + unit" where
  "assert_reason_present rq required =
     (if rq_action_type rq \<in> set required then assert_meaningful_reason rq else Inr ())"

section \<open>The identity of a request\<close>

definition digest_result :: "canon_error + string \<Rightarrow> thrown + string" where
  "digest_result r = (case r of Inl e \<Rightarrow> Inl (Not_canonical e) | Inr d \<Rightarrow> Inr d)"

text \<open>The number an integer is: its shortest digits and the position of the decimal point.\<close>

fun strip_zeros :: "nat \<Rightarrow> nat" where
  "strip_zeros n = (if 0 < n \<and> n mod 10 = 0 then strip_zeros (n div 10) else n)"

declare strip_zeros.simps [simp del]

definition integer_number :: "int \<Rightarrow> jnum" where
  "integer_number i =
     (if i = 0 then Zero False
      else Finite (i < 0) (strip_zeros (nat \<bar>i\<bar>)) (int (length (dec (nat \<bar>i\<bar>)))))"

definition nullable_version :: "int option \<Rightarrow> jval" where
  "nullable_version v = (case v of None \<Rightarrow> JNull | Some n \<Rightarrow> JNum (integer_number n))"

definition semantic_members :: "action_request \<Rightarrow> (jstr \<times> jval) list" where
  "semantic_members rq =
     [(units ''organizationId'', text_value (rq_organization rq)),
      (units ''actionType'', text_value (rq_action_type rq)),
      (units ''actorId'', text_value (rq_actor rq)),
      (units ''actingRoleId'', text_value (rq_role rq)),
      (units ''targetIds'', text_list (sort (rq_targets rq))),
      (units ''payload'', JObj (or_default (rq_payload rq) [])),
      (units ''reason'', nullable_text (rq_reason rq)),
      (units ''expectedVersion'', nullable_version (rq_expected_version rq)),
      (units ''effectiveAt'', nullable_text (map_option iso_text (rq_effective_at rq)))]"

definition semantic_action_request_digest :: "sha256 \<Rightarrow> action_request \<Rightarrow> thrown + string" where
  "semantic_action_request_digest H rq =
     (if rq_effective_at rq = Some Invalid_date then Inl (Fault ''RangeError'')
      else digest_result (tagged_digest H ''kf-action-request-v1'' (JObj (semantic_members rq))))"

text \<open>The identity of the advisory lock of \<open>lockIdempotencyKey\<close>.\<close>

definition idempotency_lock :: "sha256 \<Rightarrow> action_request \<Rightarrow> thrown + string" where
  "idempotency_lock H rq =
     digest_result (tagged_digest H ''kf-action-idempotency-lock-v1''
       (JObj [(units ''organizationId'', text_value (rq_organization rq)),
              (units ''actionType'', text_value (rq_action_type rq)),
              (units ''idempotencyKey'', text_value (rq_key rq))]))"

section \<open>Facts about the checks\<close>

lemma as_action_refusal_idem: "as_action_refusal (as_action_refusal e) = as_action_refusal e"
  by (auto simp: as_action_refusal_def split: thrown.splits option.splits)

lemma is_rejection_refusal:
  "is_rejection (as_action_refusal e) \<longleftrightarrow>
     is_rejection e \<or> (\<exists>f m. e = Payload_invalid f m) \<or> database_rule_violation e \<noteq> None"
  by (auto simp: as_action_refusal_def is_rejection_def database_rule_violation_def
      split: thrown.splits option.splits if_splits)

lemma strip_zeros_step: "0 < n \<Longrightarrow> n mod 10 = 0 \<Longrightarrow> strip_zeros n = strip_zeros (n div 10)"
  by (subst strip_zeros.simps) simp

lemma strip_zeros_stop: "\<not> (0 < n \<and> n mod 10 = 0) \<Longrightarrow> strip_zeros n = n"
  by (subst strip_zeros.simps) (simp only: if_False)

lemma multiple_of_ten: "0 < (n::nat) \<Longrightarrow> n mod 10 = 0 \<Longrightarrow> 0 < n div 10 \<and> n = 10 * (n div 10)"
proof -
  assume n: "0 < n" "n mod 10 = 0"
  then have "n = 10 * (n div 10)" using mult_div_mod_eq [of 10 n] by simp
  with n show ?thesis by (cases "n div 10") auto
qed

lemma strip_zeros_pos: "0 < n \<Longrightarrow> 0 < strip_zeros n \<and> strip_zeros n mod 10 \<noteq> 0"
proof (induction n rule: strip_zeros.induct)
  case (1 n)
  show ?case
  proof (cases "n mod 10 = 0")
    case True
    with 1 multiple_of_ten [of n] strip_zeros_step [of n] show ?thesis by metis
  next
    case False
    with 1(2) strip_zeros_stop [of n] show ?thesis by simp
  qed
qed

lemma strip_zeros_scale:
  "\<exists>z. n = strip_zeros n * 10 ^ z \<and> length (dec n) = length (dec (strip_zeros n)) + z"
proof (induction n rule: strip_zeros.induct)
  case (1 n)
  show ?case
  proof (cases "0 < n \<and> n mod 10 = 0")
    case True
    with 1 obtain z where z: "n div 10 = strip_zeros (n div 10) * 10 ^ z"
      "length (dec (n div 10)) = length (dec (strip_zeros (n div 10))) + z" by blast
    have strip: "strip_zeros n = strip_zeros (n div 10)"
      using True by (simp add: strip_zeros_step)
    have ten: "10 \<le> n" using True by (metis mod_less not_le less_numeral_extra(3))
    have "n = 10 * (n div 10)" by (rule conjunct2 [OF multiple_of_ten]) (use True in simp_all)
    define m where "m = n div 10"
    have "10 * m = strip_zeros m * 10 ^ Suc z"
      using arg_cong [OF z(1), of "(*) 10"] unfolding m_def [symmetric] by simp
    then have "10 * (n div 10) = strip_zeros n * 10 ^ Suc z"
      by (simp only: strip m_def)
    with \<open>n = 10 * (n div 10)\<close> have "n = strip_zeros n * 10 ^ Suc z"
      by (rule trans)
    moreover have "length (dec n) = length (dec (n div 10)) + 1"
      using ten by (subst dec.simps) simp
    then have "length (dec n) = length (dec (strip_zeros n)) + Suc z"
      using z(2) strip by simp
    ultimately show ?thesis by blast
  next
    case False
    then have "strip_zeros n = n" by (rule strip_zeros_stop)
    then show ?thesis by (intro exI [of _ 0]) simp
  qed
qed

lemma integer_number_inject: "integer_number i = integer_number j \<longleftrightarrow> i = j"
proof
  assume eq: "integer_number i = integer_number j"
  show "i = j"
  proof (cases "i = 0 \<or> j = 0")
    case True
    with eq show ?thesis by (auto simp: integer_number_def split: if_splits)
  next
    case False
    with eq have parts: "(i < 0) = (j < 0)" "strip_zeros (nat \<bar>i\<bar>) = strip_zeros (nat \<bar>j\<bar>)"
      "length (dec (nat \<bar>i\<bar>)) = length (dec (nat \<bar>j\<bar>))"
      by (auto simp: integer_number_def)
    have "nat \<bar>i\<bar> = nat \<bar>j\<bar>"
      using strip_zeros_scale [of "nat \<bar>i\<bar>"] strip_zeros_scale [of "nat \<bar>j\<bar>"] parts(2,3) by force
    with parts(1) show ?thesis by linarith
  qed
qed simp

lemma integer_number_shortest: "shortest (JNum (integer_number i))"
  using strip_zeros_pos [of "nat \<bar>i\<bar>"] by (auto simp: integer_number_def)

lemma meaningful_reason_iff:
  "assert_meaningful_reason rq = Inr u \<longleftrightarrow>
     (\<exists>reason. rq_reason rq = Some reason \<and> 8 \<le> length (trim reason) \<and>
        3 \<le> card (distinct_characters (trim reason)))"
  by (cases "rq_reason rq")
     (auto simp: assert_meaningful_reason_def MINIMUM_REASON_LENGTH_def Let_def or_default_def)

lemma semantic_digest_targets:
  assumes "mset (rq_targets rq) = mset ts"
  shows "semantic_action_request_digest H (rq\<lparr>rq_targets := ts\<rparr>) = semantic_action_request_digest H rq"
proof -
  have "sort ts = sort (rq_targets rq)"
    using assms by (metis properties_for_sort mset_sort sorted_sort)
  then show ?thesis by (simp add: semantic_action_request_digest_def semantic_members_def)
qed

text \<open>The request with everything dropped that is not part of its semantics.\<close>

definition same_semantics :: "action_request \<Rightarrow> action_request \<Rightarrow> bool" where
  "same_semantics a b \<longleftrightarrow>
     rq_organization a = rq_organization b \<and> rq_action_type a = rq_action_type b \<and>
     rq_actor a = rq_actor b \<and> rq_role a = rq_role b \<and>
     mset (rq_targets a) = mset (rq_targets b) \<and>
     denote (JObj (or_default (rq_payload a) [])) (units ''payload'') =
       denote (JObj (or_default (rq_payload b) [])) (units ''payload'') \<and>
     rq_reason a = rq_reason b \<and> rq_expected_version a = rq_expected_version b \<and>
     rq_effective_at a = rq_effective_at b"

definition semantic_value :: "action_request \<Rightarrow> jval" where
  "semantic_value rq = tagged_fields ''kf-action-request-v1'' (semantic_members rq)"

lemma semantic_tag: "is_format_tag ''kf-action-request-v1''"
  by code_simp

lemma semantic_digest_eq:
  "semantic_action_request_digest H rq = Inr d \<longleftrightarrow>
     rq_effective_at rq \<noteq> Some Invalid_date \<and>
     (\<exists>b. canonical_bytes (semantic_value rq) = Inr b \<and> d = H b)"
  by (auto simp: semantic_action_request_digest_def tagged_digest_def semantic_tag digest_result_def
      json_digest_def semantic_value_def semantic_members_def bindE_eq_Inr split: sum.splits)

lemma semantic_value_members:
  "semantic_value rq = JObj (semantic_members rq @ [(units ''format'', text_value ''kf-action-request-v1'')])"
  by (simp add: semantic_value_def tagged_fields_def text_value_def)

text \<open>Payloads as JSON parsing yields them.\<close>

definition json_payload :: "action_request \<Rightarrow> bool" where
  "json_payload rq \<longleftrightarrow> dense (JObj (or_default (rq_payload rq) [])) \<and>
     shortest (JObj (or_default (rq_payload rq) []))"

lemma semantic_value_fine:
  assumes "json_payload rq"
  shows "dense (semantic_value rq)" "shortest (semantic_value rq)"
proof -
  have "dense (nullable_version v)" "shortest (nullable_version v)" for v
    using integer_number_shortest by (auto simp: nullable_version_def split: option.splits)
  then show "dense (semantic_value rq)" "shortest (semantic_value rq)"
    using assms by (simp_all add: semantic_value_members semantic_members_def json_payload_def)
qed

lemma denote_members_defined:
  "denote_members ps path = Inr ms \<Longrightarrow> (k, v) \<in> set ps \<Longrightarrow> v \<noteq> JUndefined \<Longrightarrow>
     \<exists>d. denote v (member_path path k) = Inr d"
  by (induction ps arbitrary: ms) (auto simp: bindE_eq_Inr split: if_splits)

lemma denote_object_defined:
  assumes "denote (JObj ps) path = Inr (DObj ms)"
    and "\<And>v. map_of ps (units ''toJSON'') \<noteq> Some (JFunction v)"
    and "map_of ps k = Some v" and "v \<noteq> JUndefined"
  shows "\<exists>d. denote v (member_path path k) = Inr d"
proof -
  have "denote_members (sort_key fst ps) path = Inr ms"
    using assms(1,2) by (auto simp: bindE_eq_Inr split: option.splits jval.splits)
  then show ?thesis
    by (rule denote_members_defined) (use assms(3,4) in \<open>auto dest: map_of_SomeD\<close>)
qed

lemma denote_nullable_version:
  "denote (nullable_version v) p = Inr (case v of None \<Rightarrow> DNull | Some n \<Rightarrow>
     (case integer_number n of Finite neg s e \<Rightarrow> DNum neg s e | _ \<Rightarrow> DZero))"
  by (auto simp: nullable_version_def integer_number_def split: option.splits)

lemma nullable_version_inject:
  "denote (nullable_version v) p = denote (nullable_version w) q \<longleftrightarrow> v = w"
proof
  assume "denote (nullable_version v) p = denote (nullable_version w) q"
  then show "v = w"
    unfolding denote_nullable_version
    by (cases v; cases w)
       (auto simp: integer_number_inject [symmetric] split: jnum.splits if_splits,
        auto simp: integer_number_def split: if_splits)
qed (simp add: denote_nullable_version)

lemma semantic_value_inject:
  assumes "denote (semantic_value a) [] = Inr d" and "denote (semantic_value b) [] = Inr d"
    and "rq_effective_at a \<noteq> Some Invalid_date" "rq_effective_at b \<noteq> Some Invalid_date"
  shows "same_semantics a b"
proof -
  let ?M = "\<lambda>rq. semantic_members rq @ [(units ''format'', text_value ''kf-action-request-v1'')]"
  have keys: "distinct (map fst (?M rq))" for rq by (simp add: semantic_members_def)
  have plain: "map_of (?M rq) (units ''toJSON'') \<noteq> Some (JFunction v)" for rq v
    by (simp add: semantic_members_def)
  obtain ms where ms: "d = DObj ms"
    using assms(1) plain [of a]
    by (auto simp: semantic_value_members bindE_eq_Inr simp del: append.simps split: option.splits jval.splits)
  note da = assms(1) [unfolded ms semantic_value_members]
  note db = assms(2) [unfolded ms semantic_value_members]
  note look = denote_object_lookup [OF da keys plain]
  note look' = denote_object_lookup [OF db keys plain]
  have agree: "s = t" if "map_of (?M a) (units k) = Some (text_value s)"
    "map_of (?M b) (units k) = Some (text_value t)" for k s t
    using look [OF that(1)] look' [OF that(2)] by simp
  have nulls: "x = y" if "map_of (?M a) (units k) = Some (nullable_text x)"
    "map_of (?M b) (units k) = Some (nullable_text y)" for k x y
    using look [OF that(1)] look' [OF that(2)] by (simp add: nullable_inject)
  have lists: "xs = ys" if "map_of (?M a) (units k) = Some (text_list xs)"
    "map_of (?M b) (units k) = Some (text_list ys)" for k xs ys
    using look [OF that(1)] look' [OF that(2)] by (simp add: string_list_units_inject)
  have member: "denote v (member_path [] k) = denote w (member_path [] k)"
    if "map_of (?M a) k = Some v" "map_of (?M b) k = Some w" "v \<noteq> JUndefined" "w \<noteq> JUndefined" for k v w
    using denote_object_defined [OF da plain that(1,3)] denote_object_defined [OF db plain that(2,4)]
      look [OF that(1,3)] look' [OF that(2,4)] by force
  have targets: "sort (rq_targets a) = sort (rq_targets b)"
    by (rule lists [of "''targetIds''"]) (simp_all add: semantic_members_def)
  have effective: "map_option iso_text (rq_effective_at a) = map_option iso_text (rq_effective_at b)"
    by (rule nulls [of "''effectiveAt''"]) (simp_all add: semantic_members_def)
  show ?thesis
    unfolding same_semantics_def
  proof (intro conjI)
    show "rq_organization a = rq_organization b"
      by (rule agree [of "''organizationId''"]) (simp_all add: semantic_members_def)
    show "rq_action_type a = rq_action_type b"
      by (rule agree [of "''actionType''"]) (simp_all add: semantic_members_def)
    show "rq_actor a = rq_actor b"
      by (rule agree [of "''actorId''"]) (simp_all add: semantic_members_def)
    show "rq_role a = rq_role b"
      by (rule agree [of "''actingRoleId''"]) (simp_all add: semantic_members_def)
    show "rq_reason a = rq_reason b"
      by (rule nulls [of "''reason''"]) (simp_all add: semantic_members_def)
    show "mset (rq_targets a) = mset (rq_targets b)"
      using targets by (metis mset_sort)
    show "rq_effective_at a = rq_effective_at b"
      using effective assms(3,4)
      by (cases "rq_effective_at a"; cases "rq_effective_at b")
         (auto, metis instant.collapse instant.discI instant.exhaust_disc)
    show "denote (JObj (or_default (rq_payload a) [])) (units ''payload'') =
        denote (JObj (or_default (rq_payload b) [])) (units ''payload'')"
      by (rule member [of "units ''payload''", simplified member_path_def, simplified])
         (simp_all add: semantic_members_def)
    have "denote (nullable_version (rq_expected_version a)) (units ''expectedVersion'') =
        denote (nullable_version (rq_expected_version b)) (units ''expectedVersion'')"
      by (rule member [of "units ''expectedVersion''", simplified member_path_def, simplified])
         (simp_all add: semantic_members_def nullable_version_def split: option.splits)
    then show "rq_expected_version a = rq_expected_version b"
      by (simp only: nullable_version_inject)
  qed
qed

end
