(* ===== verification/Action_Dispatch.thy ===== *)
theory Action_Dispatch
  imports Action_Requests
begin

text \<open>
  The action kernel (\<open>packages/actions/src/internal/dispatcher.ts\<close>, \<open>authority.ts\<close>,
  \<open>state.ts\<close>, \<open>application.ts\<close>, \<open>audit.ts\<close>, \<open>idempotency.ts\<close>): one function per step, in the
  order the code has them, composed into \<open>dispatch\<close>, and the dispatcher that owns the
  transaction. What the kernel asks of functions of the database is the record \<open>services\<close>.
\<close>

section \<open>What the database answers\<close>

datatype bind_outcome =
    Context_bound
  | Principal_refused string
  | Bind_failed string string

record gap_row =
  gap_key :: string
  gap_revision :: int
  gap_outcome :: string
  gap_credited :: "int option"

record type_row =
  ty_id :: string
  ty_transactional :: bool
  ty_capability :: "string option"
  ty_qualification :: "bool option"

record transition_entry =
  te_action :: string
  te_machine :: string
  te_from :: string
  te_to :: string

record 'x services =
  svc_sha :: sha256
  svc_types :: "type_row list"
  svc_transitions :: "transition_entry list"
  svc_holds_role :: "'x world \<Rightarrow> string \<Rightarrow> string \<Rightarrow> bool"
  svc_bind :: "'x world \<Rightarrow> action_request \<Rightarrow> bind_outcome"
  svc_visible :: "'x world \<Rightarrow> action_request \<Rightarrow> object_row \<Rightarrow> bool"
  svc_person_kind :: "'x world \<Rightarrow> string \<Rightarrow> string option"
  svc_act_reaches :: "'x world \<Rightarrow> string \<Rightarrow> string \<Rightarrow> string list \<Rightarrow> bool"
  svc_gaps :: "'x world \<Rightarrow> string \<Rightarrow> string \<Rightarrow> string \<Rightarrow> string list \<Rightarrow> gap_row list"
  svc_clock :: "'x world \<Rightarrow> string \<times> string"
  svc_commit :: "'x world \<Rightarrow> thrown option"

section \<open>Authority\<close>

definition load_definition :: "'x services \<Rightarrow> string \<Rightarrow> thrown + action_definition" where
  "load_definition db ty =
     (case find (\<lambda>r. ty_id r = ty) (svc_types db) of
        None \<Rightarrow> reject Unknown_action (''no such action type '' @ [CHR 0x27] @ ty @ [CHR 0x27])
                  [(''actionType'', Text ty)]
      | Some r \<Rightarrow> Inr
          \<lparr>def_id = ty_id r, def_transactional = ty_transactional r,
           def_transitions =
             map (\<lambda>t. \<lparr>tr_machine = te_machine t, tr_from = te_from t, tr_to = te_to t\<rparr>)
               (filter (\<lambda>t. te_action t = ty) (svc_transitions db)),
           def_requires_capability = ty_capability r,
           def_requires_qualification = (ty_qualification r = Some True)\<rparr>)"

definition assert_role_held :: "'x services \<Rightarrow> 'x world \<Rightarrow> string \<Rightarrow> string \<Rightarrow> thrown + unit" where
  "assert_role_held db w actor role =
     (if \<not> svc_holds_role db w actor role
      then reject Role_not_held ''the actor does not hold that role''
             [(''actorId'', Text actor), (''roleId'', Text role)]
      else Inr ())"

text \<open>\<open>/classification|clearance/i\<close> anywhere in the message.\<close>

definition mentions_clearance :: "string \<Rightarrow> bool" where
  "mentions_clearance message \<longleftrightarrow>
     occurs ''classification'' (map lower_char message) \<or> occurs ''clearance'' (map lower_char message)"

definition bind_resolved_access_context :: "'x services \<Rightarrow> 'x world \<Rightarrow> action_request \<Rightarrow> thrown + unit" where
  "bind_resolved_access_context db w rq =
     (case svc_bind db w rq of
        Context_bound \<Rightarrow> Inr ()
      | Principal_refused reason \<Rightarrow>
          if reason = ''not_attested''
          then reject Not_attested ''nobody attested that the actor is present; identify again'' []
          else if reason = ''role_not_held''
          then reject Role_not_held ''the acting role is not held live in this organization'' []
          else if mentions_clearance reason
          then reject Classification_not_granted ''classification ceiling refused'' []
          else Inl (Fault reason)
      | Bind_failed code message \<Rightarrow>
          if code = ''42501'' \<or> code = ''P0001'' \<or> mentions_clearance message
          then reject Classification_not_granted ''classification ceiling refused'' []
          else Inl (Db_error code message))"

definition assert_act_covered ::
    "'x services \<Rightarrow> 'x world \<Rightarrow> action_request \<Rightarrow> action_definition \<Rightarrow> string list \<Rightarrow> thrown + unit" where
  "assert_act_covered db w rq def target_ids =
     (if def_requires_capability def \<noteq> Some ''act'' then Inr ()
      else if svc_person_kind db w (rq_actor rq) = Some ''service''
      then reject Act_not_granted
             (rq_action_type rq @
              '' is an institutional act; a service actor cannot perform one (ADR 0020)'')
             [(''actionType'', Text (rq_action_type rq)), (''actorId'', Text (rq_actor rq))]
      else if \<not> svc_act_reaches db w (rq_actor rq) (rq_organization rq) target_ids
      then reject Act_not_granted
             (rq_action_type rq @ '' requires act authority at the target'' @ [CHR 0x27] @
              ''s scope, and no live act grant reaches this actor there'')
             [(''actionType'', Text (rq_action_type rq)), (''targetIds'', Texts target_ids)]
      else Inr ())"

text \<open>\<open>String(n)\<close> of an integer.\<close>

definition int_text :: "int \<Rightarrow> string" where
  "int_text i = (if i < 0 then ''-'' else []) @ dec (nat \<bar>i\<bar>)"

definition assert_qualified ::
    "'x services \<Rightarrow> 'x world \<Rightarrow> action_request \<Rightarrow> action_definition \<Rightarrow> string list \<Rightarrow> thrown + unit" where
  "assert_qualified db w rq def target_ids =
     (if \<not> def_requires_qualification def then Inr ()
      else case sort_key gap_key
                  (svc_gaps db w (rq_actor rq) (rq_organization rq) (rq_action_type rq) target_ids) of
             [] \<Rightarrow> Inr ()
           | gap # gaps \<Rightarrow>
               reject Precondition_failed
                 (''KF-QUAL-001: '' @ rq_action_type rq @ '' requires qualification '' @ [CHR 0x22] @
                  gap_key gap @ [CHR 0x22] @ '' (revision '' @ int_text (gap_revision gap) @ ''): '' @
                  gap_outcome gap @ ''. '' @
                  (case gap_credited gap of
                     None \<Rightarrow> ''No evidence for it has been credited to this person''
                   | Some r \<Rightarrow> ''The credit at revision '' @ int_text r @
                       '' predates a revision that changed required behaviour''))
                 [(''rule'', Text ''KF-QUAL-001''), (''actionType'', Text (rq_action_type rq)),
                  (''requirement'', Text (gap_key gap)), (''revision'', Number (gap_revision gap)),
                  (''missing'', Texts (map gap_key (gap # gaps)))])"

section \<open>Idempotent replay\<close>

text \<open>\<open>order by receipt.seq limit 1\<close> and the count of the same rows.\<close>

definition first_receipt :: "event_row list \<Rightarrow> string \<Rightarrow> event_row option" where
  "first_receipt events a = find (\<lambda>e. ev_action e = a) events"

definition valid_target_ids :: "string list \<Rightarrow> bool" where
  "valid_target_ids ids \<longleftrightarrow> ids \<noteq> [] \<and> list_all (\<lambda>i. i \<noteq> []) ids"

definition expected_object :: "string list \<Rightarrow> string option" where
  "expected_object ids = (if valid_target_ids ids then single_object ids else None)"

definition recomputed_digest :: "sha256 \<Rightarrow> action_row \<Rightarrow> event_row \<Rightarrow> string option" where
  "recomputed_digest H prior event =
     (if valid_target_ids (row_targets prior) \<and> is_audit_link_format (ev_format event) then
        (case audit_chain_digest H (ev_prev event)
                \<lparr>action_id = row_id prior, action_type = row_action_type prior,
                 actor_id = row_actor prior, acting_role_id = row_role prior,
                 object_ids = sort (row_targets prior), effective_at = wire (ev_effective event),
                 before_digest = ev_before event, after_digest = ev_after event\<rparr>
                (ev_format event) of
           Inl _ \<Rightarrow> None | Inr d \<Rightarrow> Some d)
      else None)"

definition consistent_receipt :: "sha256 \<Rightarrow> action_row \<Rightarrow> nat \<Rightarrow> event_row \<Rightarrow> bool" where
  "consistent_receipt H prior n event \<longleftrightarrow>
     row_status prior = ''applied'' \<and> n = 1 \<and> valid_target_ids (row_targets prior) \<and>
     ev_actor event = row_actor prior \<and> ev_role event = row_role prior \<and>
     ev_action_type event = row_action_type prior \<and>
     ev_object event = expected_object (row_targets prior) \<and>
     exact (ev_effective event) = exact (row_effective prior) \<and>
     ev_request_id event = row_request_id prior \<and> ev_reason event = row_reason prior \<and>
     recomputed_digest H prior event = Some (ev_digest event)"

definition prior_actions :: "'a ledger_scheme \<Rightarrow> action_request \<Rightarrow> action_row list" where
  "prior_actions w rq =
     filter (\<lambda>a. row_organization a = rq_organization rq \<and> row_action_type a = rq_action_type rq \<and>
                 row_idempotency_key a = rq_key rq) (ledger_actions w)"

definition read_receipt :: "'x resolved_options \<Rightarrow> 'x world \<Rightarrow> action_request \<Rightarrow> string \<Rightarrow>
    thrown + jval option" where
  "read_receipt opts w rq a =
     (case map_of (receipt_readers opts) (rq_action_type rq) of
        None \<Rightarrow> Inr None
      | Some reader \<Rightarrow> bindE (reader w a) (\<lambda>r. Inr (Some r)))"

definition replay_prior_action :: "'x services \<Rightarrow> 'x resolved_options \<Rightarrow> 'x world \<Rightarrow> action_request \<Rightarrow>
    string \<Rightarrow> thrown + action_result option" where
  "replay_prior_action db opts w rq request_digest =
     (case prior_actions w rq of
        [] \<Rightarrow> Inr None
      | _ # _ # _ \<Rightarrow> Inl (Fault ''more than one row'')
      | [prior] \<Rightarrow>
          if row_actor prior \<noteq> rq_actor rq \<or> row_role prior \<noteq> rq_role rq
          then reject Actor_not_authorized
                 ''idempotency replay authorization does not match the original actor and role''
                 [(''actionType'', Text (rq_action_type rq))]
          else if row_request_digest prior \<noteq> request_digest
          then reject Idempotency_conflict
                 ''idempotency key was already used for different action semantics''
                 [(''actionType'', Text (rq_action_type rq)),
                  (''organizationId'', Text (rq_organization rq)), (''idempotencyKey'', Text (rq_key rq))]
          else case first_receipt (ledger_events w) (row_id prior) of
                 Some event \<Rightarrow>
                   if consistent_receipt (svc_sha db) prior (receipts (ledger_events w) (row_id prior)) event
                   then bindE (read_receipt opts w rq (row_id prior))
                     (\<lambda>receipt. Inr (Some
                        \<lparr>res_action = row_id prior, res_replayed = True,
                         res_objects = row_targets prior, res_audit = ev_digest event,
                         res_receipt = receipt\<rparr>))
                   else reject Precondition_failed
                          ''idempotency replay found an inconsistent action or audit receipt''
                          [(''actionId'', Text (row_id prior)), (''actionType'', Text (rq_action_type rq))]
               | None \<Rightarrow>
                   reject Precondition_failed
                     ''idempotency replay found an inconsistent action or audit receipt''
                     [(''actionId'', Text (row_id prior)), (''actionType'', Text (rq_action_type rq))])"

section \<open>Preparing the state of an act\<close>

record prepared_state =
  st_created :: "string list"
  st_targets :: "string list"
  st_objects :: "object_row list"
  st_transitions :: "(string \<times> string) list"
  st_before :: "(string \<times> string) list"
  st_before_digest :: string
  st_after_digest :: string

definition ACTION_STATE_FORMAT :: string where
  "ACTION_STATE_FORMAT = ''kf-action-state-v1''"

definition state_value :: "(string \<times> string) list \<Rightarrow> jval" where
  "state_value objects =
     JObj [(units ''objects'',
            JArr (map (\<lambda>(i, s). Some (JObj [(units ''id'', text_value i), (units ''state'', text_value s)]))
                   objects))]"

definition action_state_digest :: "sha256 \<Rightarrow> (string \<times> string) list \<Rightarrow> thrown + string" where
  "action_state_digest H objects = digest_result (tagged_digest H ACTION_STATE_FORMAT (state_value objects))"

text \<open>
  \<open>select \<dots> where id = any($1) order by id\<close>: each visible row once, whatever the array
  repeats.
\<close>

definition select_objects :: "'x services \<Rightarrow> 'x world \<Rightarrow> action_request \<Rightarrow> string list \<Rightarrow> object_row list" where
  "select_objects db w rq ids =
     filter (\<lambda>r. obj_id r \<in> set ids \<and> svc_visible db w rq r) (world_objects w)"

fun assert_expected_version :: "int option \<Rightarrow> object_row list \<Rightarrow> string list \<Rightarrow> thrown + unit" where
  "assert_expected_version None objects created = Inr ()"
| "assert_expected_version (Some v) [] created = Inr ()"
| "assert_expected_version (Some v) (r # rs) created =
     (if obj_id r \<in> set created then assert_expected_version (Some v) rs created
      else if row_version r \<noteq> v
      then reject Version_conflict ''the object changed since it was read''
             [(''objectId'', Text (obj_id r)), (''expected'', Number v), (''actual'', Number (row_version r))]
      else assert_expected_version (Some v) rs created)"

text \<open>
  \<open>chooseState\<close>: a string is the chosen state; an object (or an array, whose own properties
  are its indices) is looked up by object id, then by type; \<open>??\<close> passes over null.
\<close>

definition nullish :: "jval option \<Rightarrow> bool" where
  "nullish x \<longleftrightarrow> x = None \<or> x = Some JNull \<or> x = Some JUndefined"

definition choose_state :: "jval option \<Rightarrow> object_row \<Rightarrow> jval option" where
  "choose_state to_state r =
     (case to_state of
        Some (JObj ps) \<Rightarrow>
          if \<not> nullish (map_of ps (units (obj_id r))) then map_of ps (units (obj_id r))
          else map_of ps (units (obj_type r))
      | Some (JArr items) \<Rightarrow> None
      | _ \<Rightarrow> to_state)"

definition permitted_transitions :: "action_definition \<Rightarrow> object_row \<Rightarrow> transition_row list" where
  "permitted_transitions def r =
     filter (\<lambda>t. tr_machine t = obj_type r \<and> tr_from t = lifecycle_state r) (def_transitions def)"

fun join_text :: "string \<Rightarrow> string list \<Rightarrow> string" where
  "join_text sep [] = []"
| "join_text sep [x] = x"
| "join_text sep (x # y # ys) = x @ sep @ join_text sep (y # ys)"

text \<open>One turn of the loop: the state the object moves to, if it moves.\<close>

definition resolve_transition :: "action_request \<Rightarrow> action_definition \<Rightarrow> object_row \<Rightarrow>
    thrown + string option" where
  "resolve_transition rq def r =
     (let permitted = permitted_transitions def r in
      if def_transitions def \<noteq> [] \<and> permitted = []
      then reject Illegal_transition
             (rq_action_type rq @ '' cannot move '' @ obj_type r @ '' out of '' @ [CHR 0x27] @
              lifecycle_state r @ [CHR 0x27])
             [(''objectId'', Text (obj_id r)), (''from'', Text (lifecycle_state r))]
      else case permitted of
             [] \<Rightarrow> Inr None
           | [t] \<Rightarrow> Inr (Some (tr_to t))
           | _ \<Rightarrow>
              (case find (\<lambda>t. choose_state (map_of (or_default (rq_payload rq) []) (units ''to_state'')) r =
                          Some (text_value (tr_to t))) permitted of
                 None \<Rightarrow>
                   reject Precondition_failed
                     (rq_action_type rq @ '' from '' @ [CHR 0x27] @ lifecycle_state r @ [CHR 0x27] @
                      '' is ambiguous; payload.to_state must be one of '' @
                      join_text '', '' (map tr_to permitted))
                     [(''objectId'', Text (obj_id r)), (''candidates'', Texts (map tr_to permitted))]
               | Some t \<Rightarrow> Inr (Some (tr_to t))))"

fun resolve_transitions :: "action_request \<Rightarrow> action_definition \<Rightarrow> (string \<times> string) list \<Rightarrow>
    object_row list \<Rightarrow> thrown + (string \<times> string) list" where
  "resolve_transitions rq def acc [] = Inr acc"
| "resolve_transitions rq def acc (r # rs) =
     bindE (resolve_transition rq def r)
       (\<lambda>to. resolve_transitions rq def
          (case to of None \<Rightarrow> acc | Some s \<Rightarrow> AList.update (obj_id r) s acc) rs)"

fun separation_check :: "action_request \<Rightarrow> string list \<Rightarrow> object_row list \<Rightarrow> thrown + unit" where
  "separation_check rq restricted [] = Inr ()"
| "separation_check rq restricted (r # rs) =
     (if restricted \<noteq> [] \<and> obj_type r \<notin> set restricted then separation_check rq restricted rs
      else if created_by r = rq_actor rq
      then reject Separation_of_duty
             (rq_action_type rq @ '' may not be performed by the actor who created the record'')
             [(''objectId'', Text (obj_id r)), (''actorId'', Text (rq_actor rq))]
      else separation_check rq restricted rs)"

definition assert_separation_of_duty :: "action_request \<Rightarrow> object_row list \<Rightarrow>
    (string \<times> string list) list \<Rightarrow> thrown + unit" where
  "assert_separation_of_duty rq objects rules =
     (case map_of rules (rq_action_type rq) of
        None \<Rightarrow> Inr ()
      | Some restricted \<Rightarrow> separation_check rq restricted objects)"

definition run_precondition :: "'x resolved_options \<Rightarrow> 'x world \<Rightarrow> action_request \<Rightarrow> object_row list \<Rightarrow>
    thrown + unit" where
  "run_precondition opts w rq objects =
     (case map_of (preconditions opts) (rq_action_type rq) of
        None \<Rightarrow> Inr () | Some check \<Rightarrow> check w rq objects)"

definition materialize :: "'x resolved_options \<Rightarrow> 'x world \<Rightarrow> action_request \<Rightarrow> effect_context \<Rightarrow>
    thrown + (string list \<times> 'x world)" where
  "materialize opts w rq ctx =
     (case map_of (materializers opts) (rq_action_type rq) of
        None \<Rightarrow> Inr ([], w) | Some m \<Rightarrow> m w rq ctx)"

definition prepare_action_state :: "'x services \<Rightarrow> 'x resolved_options \<Rightarrow> 'x world \<Rightarrow> action_request \<Rightarrow>
    action_definition \<Rightarrow> effect_context \<Rightarrow> thrown + (prepared_state \<times> 'x world)" where
  "prepare_action_state db opts w rq def ctx =
     bindE (materialize opts w rq ctx) (\<lambda>(created, w1).
     (let target_ids = rq_targets rq @ created in
      if target_ids = []
      then reject Precondition_failed (rq_action_type rq @ '' names no target and creates none'')
             [(''actionType'', Text (rq_action_type rq))]
      else
        (let objects = sort_key obj_id (select_objects db w1 rq target_ids) in
         if length objects \<noteq> length target_ids
         then reject Object_not_visible ''one or more targets do not exist or are not visible to this actor''
                [(''requested'', Number (int (length target_ids))), (''found'', Number (int (length objects)))]
         else
           bindE (assert_expected_version (rq_expected_version rq) objects created) (\<lambda>_.
           bindE (resolve_transitions rq def [] objects) (\<lambda>transitions.
           bindE (assert_separation_of_duty rq objects (separation_of_duty opts)) (\<lambda>_.
           bindE (run_precondition opts w1 rq objects) (\<lambda>_.
           (let states = map (\<lambda>r. (obj_id r, lifecycle_state r)) objects;
                moved_states = map (\<lambda>r. (obj_id r, or_default (map_of transitions (obj_id r)) (lifecycle_state r))) objects
            in
            bindE (action_state_digest (svc_sha db) states) (\<lambda>before_digest.
            bindE (action_state_digest (svc_sha db) moved_states) (\<lambda>after_digest.
            Inr (\<lparr>st_created = created, st_targets = target_ids, st_objects = objects,
                  st_transitions = transitions, st_before = states,
                  st_before_digest = before_digest, st_after_digest = after_digest\<rparr>, w1)))))))))))"

section \<open>Applying and recording the act\<close>

definition inserted_action :: "action_request \<Rightarrow> string \<Rightarrow> prepared_state \<Rightarrow> effect_context \<Rightarrow> action_row" where
  "inserted_action rq request_digest state ctx =
     \<lparr>row_id = ctx_action ctx, row_organization = rq_organization rq, row_request_digest = request_digest,
      row_action_type = rq_action_type rq, row_actor = rq_actor rq, row_role = rq_role rq,
      row_targets = st_targets state, row_idempotency_key = rq_key rq,
      row_effective = stored_timestamp (ctx_effective ctx), row_request_id = rq_request_id rq,
      row_reason = rq_reason rq, row_status = ''applied''\<rparr>"

definition move_object :: "string \<Rightarrow> string \<times> string \<Rightarrow> object_row list \<Rightarrow> object_row list" where
  "move_object actor = (\<lambda>(i, to_state). map (\<lambda>r. if obj_id r = i
      then r\<lparr>lifecycle_state := to_state, row_version := row_version r + 1, updated_by := actor\<rparr> else r))"

definition apply_action :: "'x resolved_options \<Rightarrow> 'x world \<Rightarrow> action_request \<Rightarrow> string \<Rightarrow> prepared_state \<Rightarrow>
    effect_context \<Rightarrow> thrown + 'x world" where
  "apply_action opts w rq request_digest state ctx =
     (if ctx_action ctx \<in> row_id ` set (ledger_actions w) then Inl (Db_error ''23505'' ''action_pkey'')
      else
       (let w1 = w\<lparr>ledger_actions := ledger_actions w @ [inserted_action rq request_digest state ctx]\<rparr>;
            w2 = w1\<lparr>world_objects := fold (move_object (rq_actor rq)) (st_transitions state) (world_objects w1)\<rparr>
        in case map_of (effects opts) (rq_action_type rq) of
             None \<Rightarrow> Inr w2
           | Some effect \<Rightarrow> effect w2 rq (st_objects state) ctx))"

definition audit_input :: "action_request \<Rightarrow> prepared_state \<Rightarrow> effect_context \<Rightarrow> link_input" where
  "audit_input rq state ctx =
     \<lparr>in_action_id = ctx_action ctx, in_action_type = rq_action_type rq, in_actor = rq_actor rq,
      in_role = rq_role rq, in_objects = st_targets state, in_effective = ctx_effective ctx,
      in_request_id = rq_request_id rq, in_reason = rq_reason rq,
      in_before = Some (st_before_digest state), in_after = Some (st_after_digest state)\<rparr>"

definition finalize_action :: "sha256 \<Rightarrow> 'x world \<Rightarrow> action_request \<Rightarrow> prepared_state \<Rightarrow> effect_context \<Rightarrow>
    thrown + (string \<times> 'x world)" where
  "finalize_action H w rq state ctx =
     (case append_audit_event H w (audit_input rq state ctx) of
        Inl e \<Rightarrow> Inl (Not_canonical e) | Inr r \<Rightarrow> Inr r)"

section \<open>The dispatcher\<close>

text \<open>The act itself, once the request is admitted and not a replay.\<close>

definition perform_action :: "'x services \<Rightarrow> 'x resolved_options \<Rightarrow> 'x world \<Rightarrow> action_request \<Rightarrow>
    string \<Rightarrow> action_definition \<Rightarrow> effect_context \<Rightarrow> thrown + (action_result \<times> 'x world)" where
  "perform_action db opts w rq request_digest def ctx =
     bindE (prepare_action_state db opts w rq def ctx) (\<lambda>(state, w1).
     bindE (assert_act_covered db w1 rq def (st_targets state)) (\<lambda>_.
     bindE (assert_qualified db w1 rq def (st_targets state)) (\<lambda>_.
     bindE (apply_action opts w1 rq request_digest state ctx) (\<lambda>w2.
     bindE (finalize_action (svc_sha db) w2 rq state ctx) (\<lambda>(audit_digest, w3).
     bindE (read_receipt opts w3 rq (ctx_action ctx)) (\<lambda>receipt.
     Inr (\<lparr>res_action = ctx_action ctx, res_replayed = False, res_objects = st_targets state,
           res_audit = audit_digest, res_receipt = receipt\<rparr>, w3)))))))"

text \<open>The checks every request passes before its idempotency key is looked up.\<close>

definition admit_request :: "'x services \<Rightarrow> 'x resolved_options \<Rightarrow> 'x world \<Rightarrow> action_request \<Rightarrow>
    thrown + (string \<times> action_definition)" where
  "admit_request db opts w rq =
     bindE (assert_action_available (rq_action_type rq) (allowed_actions opts)) (\<lambda>_.
     bindE (assert_canonical_effective_at rq) (\<lambda>_.
     bindE (semantic_action_request_digest (svc_sha db) rq) (\<lambda>request_digest.
     bindE (idempotency_lock (svc_sha db) rq) (\<lambda>_.
     bindE (load_definition db (rq_action_type rq)) (\<lambda>def.
     bindE (assert_role_held db w (rq_actor rq) (rq_role rq)) (\<lambda>_.
     bindE (bind_resolved_access_context db w rq) (\<lambda>_.
     bindE (assert_reason_present rq (reason_required opts)) (\<lambda>_.
     Inr (request_digest, def)))))))))"

definition effect_context_of :: "'x services \<Rightarrow> 'x world \<Rightarrow> action_request \<Rightarrow> effect_context" where
  "effect_context_of db w rq =
     (let (id, now) = svc_clock db w in
      \<lparr>ctx_action = id,
       ctx_effective = (case rq_effective_at rq of Some d \<Rightarrow> iso_text d | None \<Rightarrow> now)\<rparr>)"

definition dispatch :: "'x services \<Rightarrow> 'x resolved_options \<Rightarrow> 'x world \<Rightarrow> action_request \<Rightarrow>
    thrown + (action_result \<times> 'x world)" where
  "dispatch db opts w rq =
     bindE (admit_request db opts w rq) (\<lambda>(request_digest, def).
     bindE (replay_prior_action db opts w rq request_digest) (\<lambda>replay.
     case replay of
       Some result \<Rightarrow> Inr (result, w)
     | None \<Rightarrow> perform_action db opts w rq request_digest def (effect_context_of db w rq)))"

definition transactional_dispatcher :: "'x services \<Rightarrow> 'x dispatcher_options \<Rightarrow> 'x world \<Rightarrow> action_request \<Rightarrow>
    thrown + (action_result \<times> 'x world)" where
  "transactional_dispatcher db options w rq =
     (case dispatch db (resolve_dispatcher_options options) w rq of
        Inl e \<Rightarrow> Inl (as_action_refusal e) | Inr r \<Rightarrow> Inr r)"

text \<open>
  \<open>createDispatcher\<close>: the transaction commits (deferred constraints are checked then) or
  leaves the database as it was. That a transaction that fails leaves no trace is PostgreSQL's
  promise, built in here: the world is returned as it was.
\<close>

definition action_dispatcher :: "'x services \<Rightarrow> 'x dispatcher_options \<Rightarrow> 'x world \<Rightarrow> action_request \<Rightarrow>
    (thrown + action_result) \<times> 'x world" where
  "action_dispatcher db options w rq =
     (case transactional_dispatcher db options w rq of
        Inl e \<Rightarrow> (Inl (as_action_refusal e), w)
      | Inr (result, w') \<Rightarrow>
          (case svc_commit db w' of
             Some e \<Rightarrow> (Inl (as_action_refusal e), w)
           | None \<Rightarrow> (Inr result, w')))"

section \<open>The read-only rehearsal\<close>

definition preflight :: "'x services \<Rightarrow> 'x resolved_options \<Rightarrow> 'x world \<Rightarrow> action_request \<Rightarrow> object_row list \<Rightarrow>
    thrown + unit" where
  "preflight db opts w rq prospective =
     bindE (assert_action_available (rq_action_type rq) (allowed_actions opts)) (\<lambda>_.
     bindE (assert_canonical_effective_at rq) (\<lambda>_.
     bindE (load_definition db (rq_action_type rq)) (\<lambda>def.
     bindE (assert_role_held db w (rq_actor rq) (rq_role rq)) (\<lambda>_.
     bindE (bind_resolved_access_context db w rq) (\<lambda>_.
     bindE (assert_reason_present rq (reason_required opts)) (\<lambda>_.
     bindE (assert_act_covered db w rq def (rq_targets rq @ map obj_id prospective)) (\<lambda>_.
     bindE (assert_qualified db w rq def (rq_targets rq @ map obj_id prospective)) (\<lambda>_.
     bindE
       (if prospective = [] then Inr ()
        else if rq_targets rq \<noteq> [] \<or> map_of (materializers opts) (rq_action_type rq) = None
        then reject Precondition_failed ''prospective objects are allowed only for a creation action preflight''
               [(''actionType'', Text (rq_action_type rq))]
        else if \<not> distinct (map obj_id prospective) \<or>
                list_ex (\<lambda>r. obj_organization r \<noteq> rq_organization rq) prospective
        then reject Precondition_failed ''prospective objects must be unique and belong to the action organization''
               [(''actionType'', Text (rq_action_type rq))]
        else Inr ()) (\<lambda>_.
     (let objects = (if rq_targets rq = [] then prospective else select_objects db w rq (rq_targets rq)) in
      if rq_targets rq \<noteq> [] \<and> length objects \<noteq> length (rq_targets rq)
      then reject Object_not_visible ''one or more targets do not exist or are not visible to this actor''
             [(''requested'', Number (int (length (rq_targets rq)))), (''found'', Number (int (length objects)))]
      else run_precondition opts w rq objects))))))))))"

definition transactional_preflight :: "'x services \<Rightarrow> 'x dispatcher_options \<Rightarrow> 'x world \<Rightarrow> action_request \<Rightarrow>
    object_row list \<Rightarrow> thrown + unit" where
  "transactional_preflight db options w rq prospective =
     (case preflight db (resolve_dispatcher_options options) w rq prospective of
        Inl e \<Rightarrow> Inl (as_action_refusal e) | Inr u \<Rightarrow> Inr u)"

end
