(* ===== verification/Action_Laws.thy ===== *)
theory Action_Laws
  imports Action_Dispatch
begin

text \<open>
  What the action kernel guarantees: the targets an act locks, the transitions it takes, the
  ledger it leaves behind, and what a retry under the same idempotency key returns.
\<close>

section \<open>Targets\<close>

lemma prepare_ok:
  "prepare_action_state db opts w rq def ctx = Inr (st, w1) \<Longrightarrow>
     materialize opts w rq ctx = Inr (st_created st, w1) \<and>
     st_targets st = rq_targets rq @ st_created st \<and> st_targets st \<noteq> [] \<and>
     st_objects st = sort_key obj_id (select_objects db w1 rq (st_targets st)) \<and>
     length (st_objects st) = length (st_targets st) \<and>
     assert_expected_version (rq_expected_version rq) (st_objects st) (st_created st) = Inr () \<and>
     resolve_transitions rq def [] (st_objects st) = Inr (st_transitions st) \<and>
     assert_separation_of_duty rq (st_objects st) (separation_of_duty opts) = Inr () \<and>
     run_precondition opts w1 rq (st_objects st) = Inr () \<and>
     st_before st = map (\<lambda>r. (obj_id r, lifecycle_state r)) (st_objects st) \<and>
     action_state_digest (svc_sha db) (st_before st) = Inr (st_before_digest st) \<and>
     action_state_digest (svc_sha db)
       (map (\<lambda>r. (obj_id r, or_default (map_of (st_transitions st) (obj_id r)) (lifecycle_state r)))
          (st_objects st)) = Inr (st_after_digest st)"
  by (auto simp: prepare_action_state_def bindE_eq_Inr Let_def split: if_splits)

lemma locked_targets:
  assumes ids: "distinct (map obj_id (world_objects w))"
    and objs: "objs = sort_key obj_id (select_objects db w rq targets)"
    and len: "length objs = length targets"
  shows "distinct targets \<and> map obj_id objs = sort targets"
proof -
  have sub: "set (map obj_id objs) \<subseteq> set targets"
    by (auto simp: objs select_objects_def)
  have "mset (map obj_id objs) = mset (map obj_id (select_objects db w rq targets))"
    by (simp add: objs)
  moreover have "distinct (map obj_id (select_objects db w rq targets))"
    using ids by (simp add: select_objects_def distinct_map_filter)
  ultimately have dist: "distinct (map obj_id objs)"
    by (metis mset_eq_imp_distinct_iff)
  have "length targets = card (set (map obj_id objs))"
    using len dist distinct_card [of "map obj_id objs"] by simp
  also have "\<dots> \<le> card (set targets)" by (rule card_mono) (use sub in auto)
  finally have card: "card (set targets) = length targets"
    using card_length [of targets] by simp
  then have dt: "distinct targets" by (rule card_distinct)
  have "set (map obj_id objs) = set targets"
    by (rule card_subset_eq) (use sub card len dist distinct_card [of "map obj_id objs"] in auto)
  moreover have "sorted (map obj_id objs)" by (simp add: objs)
  ultimately have "map obj_id objs = sort targets"
    using dist dt by (intro sorted_distinct_set_unique) simp_all
  with dt show ?thesis ..
qed

section \<open>Transitions\<close>

lemma resolve_transitions_map:
  "resolve_transitions rq def acc rs = Inr m \<Longrightarrow> distinct (map obj_id rs) \<Longrightarrow>
     (\<forall>r\<in>set rs. \<exists>to. resolve_transition rq def r = Inr to \<and>
        map_of m (obj_id r) = (case to of None \<Rightarrow> map_of acc (obj_id r) | Some s \<Rightarrow> Some s)) \<and>
     (\<forall>k. k \<notin> obj_id ` set rs \<longrightarrow> map_of m k = map_of acc k)"
proof (induction rs arbitrary: acc)
  case (Cons r rs)
  then obtain to where to: "resolve_transition rq def r = Inr to"
    and rest: "resolve_transitions rq def (case to of None \<Rightarrow> acc | Some s \<Rightarrow> AList.update (obj_id r) s acc) rs = Inr m"
    by (auto simp: bindE_eq_Inr)
  let ?acc = "case to of None \<Rightarrow> acc | Some s \<Rightarrow> AList.update (obj_id r) s acc"
  have acc: "map_of ?acc k = (if k = obj_id r \<and> to \<noteq> None then to else map_of acc k)" for k
    by (cases to) (simp_all add: AList.update_conv')
  have "distinct (map obj_id rs)" "obj_id r \<notin> obj_id ` set rs"
    using Cons.prems(2) by simp_all
  note IH = Cons.IH [OF rest this(1)] and fresh = this(2)
  show ?case
  proof (intro conjI ballI allI impI)
    fix x
    assume x: "x \<in> set (r # rs)"
    show "\<exists>to. resolve_transition rq def x = Inr to \<and>
        map_of m (obj_id x) = (case to of None \<Rightarrow> map_of acc (obj_id x) | Some s \<Rightarrow> Some s)"
    proof (cases "x \<in> set rs")
      case True
      then have "obj_id x \<noteq> obj_id r" using fresh by (metis imageI)
      then have "map_of ?acc (obj_id x) = map_of acc (obj_id x)" by (simp only: acc) simp
      moreover obtain to' where "resolve_transition rq def x = Inr to'"
        "map_of m (obj_id x) = (case to' of None \<Rightarrow> map_of ?acc (obj_id x) | Some s \<Rightarrow> Some s)"
        using IH True by blast
      ultimately show ?thesis by (cases to') auto
    next
      case False
      with x have "x = r" by simp
      moreover have "map_of m (obj_id r) = map_of ?acc (obj_id r)" using IH fresh by blast
      then have "map_of m (obj_id r) = (case to of None \<Rightarrow> map_of acc (obj_id r) | Some s \<Rightarrow> Some s)"
        by (simp only: acc) (simp split: option.splits)
      ultimately show ?thesis using to by blast
    qed
  next
    fix k
    assume k: "k \<notin> obj_id ` set (r # rs)"
    then have "map_of m k = map_of ?acc k" using IH by simp
    with k acc [of k] show "map_of m k = map_of acc k" by auto
  qed
qed simp

lemma resolve_transitions_distinct:
  "resolve_transitions rq def acc rs = Inr m \<Longrightarrow> distinct (map fst acc) \<Longrightarrow> distinct (map fst m)"
proof (induction rs arbitrary: acc)
  case (Cons r rs)
  then obtain to where rest: "resolve_transitions rq def (case to of None \<Rightarrow> acc | Some s \<Rightarrow> AList.update (obj_id r) s acc) rs = Inr m"
    by (auto simp: bindE_eq_Inr)
  show ?case
    by (rule Cons.IH [OF rest]) (use Cons.prems(2) in \<open>auto simp: AList.distinct_update split: option.splits\<close>)
qed simp

definition moved :: "string \<Rightarrow> (string \<times> string) list \<Rightarrow> object_row \<Rightarrow> object_row" where
  "moved actor m r = (case map_of m (obj_id r) of
       None \<Rightarrow> r
     | Some s \<Rightarrow> r\<lparr>lifecycle_state := s, row_version := row_version r + 1, updated_by := actor\<rparr>)"

lemma moved_id [simp]: "obj_id (moved actor m r) = obj_id r"
  by (simp add: moved_def split: option.splits)

lemma fold_move_object: "distinct (map fst m) \<Longrightarrow> fold (move_object actor) m rs = map (moved actor m) rs"
proof (induction m arbitrary: rs)
  case Nil
  then show ?case by (simp add: moved_def)
next
  case (Cons p m)
  obtain i s where p: "p = (i, s)" by (cases p)
  with Cons have "fold (move_object actor) (p # m) rs = map (moved actor m) (move_object actor (i, s) rs)"
    by simp
  also have "\<dots> = map (moved actor (p # m)) rs"
  proof -
    have "map_of m i = None" using Cons.prems p by (simp add: map_of_eq_None_iff)
    then show ?thesis by (auto simp: p move_object_def moved_def split: option.splits)
  qed
  finally show ?case .
qed

text \<open>What a registered transition allows one object to do.\<close>

definition legal_move :: "string \<Rightarrow> action_definition \<Rightarrow> object_row \<Rightarrow> object_row \<Rightarrow> bool" where
  "legal_move actor def r r' \<longleftrightarrow>
     (if def_transitions def = [] then r' = r
      else \<exists>t\<in>set (def_transitions def). tr_machine t = obj_type r \<and> tr_from t = lifecycle_state r \<and>
             r' = r\<lparr>lifecycle_state := tr_to t, row_version := row_version r + 1, updated_by := actor\<rparr>)"

lemma resolve_transition_legal:
  assumes "resolve_transition rq def r = Inr to" and "map_of m (obj_id r) = to"
  shows "legal_move actor def r (moved actor m r)"
proof -
  let ?P = "permitted_transitions def r"
  have sub: "t \<in> set (def_transitions def) \<and> tr_machine t = obj_type r \<and> tr_from t = lifecycle_state r"
    if "t \<in> set ?P" for t using that by (simp add: permitted_transitions_def)
  consider "def_transitions def = []" "to = None" | t where "t \<in> set ?P" "to = Some (tr_to t)"
  proof (cases ?P)
    case Nil
    with assms(1) that(1) show ?thesis
      by (auto simp: resolve_transition_def Let_def split: if_splits)
  next
    case (Cons t ts)
    show ?thesis
    proof (cases ts)
      case Nil
      with assms(1) Cons that(2) [of t] show ?thesis
        by (auto simp: resolve_transition_def Let_def)
    next
      case (Cons t' ts')
      with assms(1) \<open>?P = t # ts\<close> obtain u where "to = Some (tr_to u)"
        and "find (\<lambda>t. choose_state (map_of (or_default (rq_payload rq) []) (units ''to_state'')) r =
                          Some (text_value (tr_to t))) ?P = Some u"
        by (auto simp: resolve_transition_def Let_def split: option.splits)
      then have "u \<in> set ?P" by (auto simp: find_Some_iff)
      with \<open>to = Some (tr_to u)\<close> show ?thesis by (rule that(2) [rotated])
    qed
  qed
  then show ?thesis
  proof cases
    case 1
    with assms(2) show ?thesis by (simp add: legal_move_def moved_def)
  next
    case (2 t)
    with assms(2) sub [of t] show ?thesis by (auto simp: legal_move_def moved_def)
  qed
qed

section \<open>Separation of duty and versions\<close>

lemma separation_check_ok:
  "separation_check rq restricted rs = Inr u \<longleftrightarrow>
     (\<forall>r\<in>set rs. restricted = [] \<or> obj_type r \<in> set restricted \<longrightarrow> created_by r \<noteq> rq_actor rq)"
  by (induction rs) auto

lemma expected_version_ok:
  "assert_expected_version v rs created = Inr u \<longleftrightarrow>
     (\<forall>x. v = Some x \<longrightarrow> (\<forall>r\<in>set rs. obj_id r \<in> set created \<or> row_version r = x))"
  by (cases v; induction rs) auto

section \<open>Handlers\<close>

text \<open>
  The contract of action atoms: materializers insert records and effects write typed rows, but
  neither touches the action and audit tables, which only the kernel writes.
\<close>

definition handlers_keep_ledger :: "'x resolved_options \<Rightarrow> bool" where
  "handlers_keep_ledger opts \<longleftrightarrow>
     (\<forall>(ty, m) \<in> set (materializers opts). \<forall>w rq ctx ids w'. m w rq ctx = Inr (ids, w') \<longrightarrow>
        ledger.truncate w' = ledger.truncate w) \<and>
     (\<forall>(ty, f) \<in> set (effects opts). \<forall>w rq objs ctx w'. f w rq objs ctx = Inr w' \<longrightarrow>
        ledger.truncate w' = ledger.truncate w)"

lemma ledger_truncate_eq:
  "ledger.truncate w = ledger.truncate w' \<longleftrightarrow>
     ledger_actions w = ledger_actions w' \<and> ledger_events w = ledger_events w' \<and>
     chain_head w = chain_head w'"
  by (auto simp: ledger.defs)

lemma materialize_keeps:
  assumes "handlers_keep_ledger opts" and "materialize opts w rq ctx = Inr (ids, w1)"
  shows "ledger.truncate w1 = ledger.truncate w"
  using assms unfolding materialize_def handlers_keep_ledger_def
  by (auto split: option.splits dest!: map_of_SomeD)

lemma ledger_ok_cong:
  "ledger.truncate w = ledger.truncate w' \<Longrightarrow> ledger_ok H w \<longleftrightarrow> ledger_ok H w'"
  by (simp add: ledger_truncate_eq ledger_ok_def ledger_rows_def)

lemma apply_action_ok:
  assumes "handlers_keep_ledger opts" and "apply_action opts w rq d st ctx = Inr w'"
  shows "ctx_action ctx \<notin> row_id ` set (ledger_actions w) \<and>
    ledger_actions w' = ledger_actions w @ [inserted_action rq d st ctx] \<and>
    ledger_events w' = ledger_events w \<and> chain_head w' = chain_head w"
proof -
  let ?w1 = "w\<lparr>ledger_actions := ledger_actions w @ [inserted_action rq d st ctx]\<rparr>"
  let ?w2 = "?w1\<lparr>world_objects := fold (move_object (rq_actor rq)) (st_transitions st) (world_objects ?w1)\<rparr>"
  have fresh: "ctx_action ctx \<notin> row_id ` set (ledger_actions w)"
    using assms(2) by (auto simp: apply_action_def split: if_splits)
  have "ledger.truncate w' = ledger.truncate ?w2"
  proof (cases "map_of (effects opts) (rq_action_type rq)")
    case None
    with assms(2) fresh show ?thesis by (simp add: apply_action_def Let_def)
  next
    case (Some f)
    with assms(2) fresh have "f ?w2 rq (st_objects st) ctx = Inr w'"
      by (simp add: apply_action_def Let_def)
    with assms(1) map_of_SomeD [OF Some] show ?thesis
      unfolding handlers_keep_ledger_def by fast
  qed
  with fresh show ?thesis by (simp add: ledger_truncate_eq)
qed

section \<open>The performed act\<close>

lemma perform_ok:
  assumes "perform_action db opts w rq d def ctx = Inr (res, w3)"
  obtains st w1 w2 where
    "prepare_action_state db opts w rq def ctx = Inr (st, w1)"
    "assert_act_covered db w1 rq def (st_targets st) = Inr ()"
    "assert_qualified db w1 rq def (st_targets st) = Inr ()"
    "apply_action opts w1 rq d st ctx = Inr w2"
    "append_audit_event (svc_sha db) w2 (audit_input rq st ctx) = Inr (res_audit res, w3)"
    "read_receipt opts w3 rq (ctx_action ctx) = Inr (res_receipt res)"
    "res_action res = ctx_action ctx" "res_objects res = st_targets st" "\<not> res_replayed res"
proof -
  obtain st w1 w2 where steps: "prepare_action_state db opts w rq def ctx = Inr (st, w1)"
      "assert_act_covered db w1 rq def (st_targets st) = Inr ()"
      "assert_qualified db w1 rq def (st_targets st) = Inr ()"
      "apply_action opts w1 rq d st ctx = Inr w2"
    and rest: "bindE (finalize_action (svc_sha db) w2 rq st ctx) (\<lambda>(audit_digest, w3).
       bindE (read_receipt opts w3 rq (ctx_action ctx)) (\<lambda>receipt.
       Inr (\<lparr>res_action = ctx_action ctx, res_replayed = False, res_objects = st_targets st,
             res_audit = audit_digest, res_receipt = receipt\<rparr>, w3))) = Inr (res, w3)"
    using assms by (auto simp: perform_action_def bindE_eq_Inr)
  obtain a w3' where fin: "finalize_action (svc_sha db) w2 rq st ctx = Inr (a, w3')"
    using rest by (auto simp: bindE_eq_Inr)
  then have "append_audit_event (svc_sha db) w2 (audit_input rq st ctx) = Inr (a, w3')"
    by (auto simp: finalize_action_def split: sum.splits)
  with rest fin show ?thesis by (intro that [OF steps]) (auto simp: bindE_eq_Inr)
qed

lemma append_audit_event_eq:
  "append_audit_event H w i = Inr (d, w') \<longleftrightarrow>
     audit_chain_digest H (chain_head w) (input_entry i) CURRENT_AUDIT_LINK_FORMAT = Inr d \<and>
     w' = w\<lparr>ledger_events := ledger_events w @
              [link_event i (Suc (length (ledger_events w))) (chain_head w) d], chain_head := d\<rparr>"
  by (auto simp: append_audit_event_def bindE_eq_Inr)

lemma link_of_inserted: "link_of_row (audit_input rq st ctx) (inserted_action rq d st ctx)"
  by (simp add: link_of_row_def audit_input_def inserted_action_def)

lemma perform_ledger:
  assumes keep: "handlers_keep_ledger opts" and H: "hex_digests (svc_sha db)"
    and ok: "ledger_ok (svc_sha db) w" and perf: "perform_action db opts w rq d def ctx = Inr (res, w')"
  shows "ledger_ok (svc_sha db) w' \<and> ctx_action ctx \<notin> row_id ` set (ledger_actions w) \<and>
    chain_head w' = res_audit res \<and>
    (\<exists>st. st_targets st = res_objects res \<and>
       ledger_actions w' = ledger_actions w @ [inserted_action rq d st ctx] \<and>
       audit_chain_digest (svc_sha db) (chain_head w) (input_entry (audit_input rq st ctx))
         CURRENT_AUDIT_LINK_FORMAT = Inr (res_audit res) \<and>
       ledger_events w' = ledger_events w @
         [link_event (audit_input rq st ctx) (Suc (length (ledger_events w))) (chain_head w) (res_audit res)])"
proof -
  obtain st w1 w2 where prep: "prepare_action_state db opts w rq def ctx = Inr (st, w1)"
    and app: "apply_action opts w1 rq d st ctx = Inr w2"
    and fin: "append_audit_event (svc_sha db) w2 (audit_input rq st ctx) = Inr (res_audit res, w')"
    and res: "res_objects res = st_targets st"
    by (rule perform_ok [OF perf])
  have w1: "ledger_actions w1 = ledger_actions w" "ledger_events w1 = ledger_events w"
    "chain_head w1 = chain_head w"
    using materialize_keeps [OF keep] prepare_ok [OF prep] by (auto simp: ledger_truncate_eq)
  note w2 = apply_action_ok [OF keep app, unfolded w1]
  note w' = fin [unfolded append_audit_event_eq]
  have "ledger_ok (svc_sha db) w'"
    by (rule append_audit_event_ok [OF ok H _ _ _ _ link_of_inserted fin])
       (use w2 w' in \<open>simp_all add: inserted_action_def\<close>)
  moreover have "chain_head w' = res_audit res" "ledger_actions w' = ledger_actions w2"
    using w' by simp_all
  ultimately show ?thesis using w2 w' res by auto
qed

section \<open>Dispatching and retrying\<close>

lemma replay_none: "replay_prior_action db opts w rq d = Inr None \<Longrightarrow> prior_actions w rq = []"
  by (auto simp: replay_prior_action_def bindE_eq_Inr split: list.splits if_splits option.splits)

lemma replay_some: "replay_prior_action db opts w rq d = Inr (Some res) \<Longrightarrow> res_replayed res"
  by (auto simp: replay_prior_action_def bindE_eq_Inr split: list.splits if_splits option.splits)

lemma dispatch_applied:
  assumes "dispatch db opts w rq = Inr (res, w')" and "\<not> res_replayed res"
  obtains d def where "admit_request db opts w rq = Inr (d, def)" "prior_actions w rq = []"
    "perform_action db opts w rq d def (effect_context_of db w rq) = Inr (res, w')"
proof -
  obtain d def r where admit: "admit_request db opts w rq = Inr (d, def)"
    and replay: "replay_prior_action db opts w rq d = Inr r"
    and rest: "(case r of Some result \<Rightarrow> Inr (result, w)
      | None \<Rightarrow> perform_action db opts w rq d def (effect_context_of db w rq)) = Inr (res, w')"
    using assms(1) by (auto simp: dispatch_def bindE_eq_Inr)
  have "r = None" using replay rest assms(2) by (cases r) (auto dest: replay_some)
  with admit replay rest show ?thesis by (intro that) (auto dest: replay_none)
qed

lemma dispatch_replayed:
  assumes "dispatch db opts w rq = Inr (res, w')" and "res_replayed res"
  shows "w' = w"
proof -
  obtain d def r where "admit_request db opts w rq = Inr (d, def)"
    and "(case r of Some result \<Rightarrow> Inr (result, w)
      | None \<Rightarrow> perform_action db opts w rq d def (effect_context_of db w rq)) = Inr (res, w')"
    using assms(1) by (auto simp: dispatch_def bindE_eq_Inr)
  with assms(2) show ?thesis by (cases r) (auto elim: perform_ok)
qed

lemma dispatch_ledger:
  assumes "handlers_keep_ledger opts" and "hex_digests (svc_sha db)" and "ledger_ok (svc_sha db) w"
    and disp: "dispatch db opts w rq = Inr (res, w')"
  shows "ledger_ok (svc_sha db) w'"
proof (cases "res_replayed res")
  case True
  with disp assms(3) show ?thesis using dispatch_replayed by blast
next
  case False
  obtain d def where "perform_action db opts w rq d def (effect_context_of db w rq) = Inr (res, w')"
    by (rule dispatch_applied [OF disp False])
  from perform_ledger [OF assms(1-3) this] show ?thesis by blast
qed

text \<open>The dispatcher as a step on the database: refused or applied, the ledger stays sound.\<close>

definition kernel_step :: "'x services \<Rightarrow> 'x dispatcher_options \<Rightarrow> action_request \<Rightarrow> 'x world \<Rightarrow> 'x world" where
  "kernel_step db options rq w = snd (action_dispatcher db options w rq)"

definition kernel_inv :: "'x services \<Rightarrow> 'x dispatcher_options \<Rightarrow> 'x world \<Rightarrow> bool" where
  "kernel_inv db options w \<longleftrightarrow>
     handlers_keep_ledger (resolve_dispatcher_options options) \<and> hex_digests (svc_sha db) \<and>
     ledger_ok (svc_sha db) w"

interpretation kernel: keeps_invariant "kernel_step db options" "kernel_inv db options"
  for db :: "'x services" and options
proof unfold_locales
  fix w :: "'x world" and rq
  assume inv: "kernel_inv db options w"
  show "kernel_inv db options (kernel_step db options rq w)"
  proof (cases "dispatch db (resolve_dispatcher_options options) w rq")
    case (Inl e)
    with inv show ?thesis by (simp add: kernel_step_def action_dispatcher_def transactional_dispatcher_def)
  next
    case (Inr r)
    obtain res w' where r: "r = (res, w')" by (cases r)
    with Inr inv have "kernel_inv db options w'"
      using dispatch_ledger by (auto simp: kernel_inv_def)
    with Inr r inv show ?thesis
      by (auto simp: kernel_step_def action_dispatcher_def transactional_dispatcher_def split: option.splits)
  qed
qed

text \<open>
  What later requests can do to the ledger: they add rows for actions and keys it did not have,
  and receipts of those actions only.
\<close>

definition action_key :: "action_row \<Rightarrow> string \<times> string \<times> string" where
  "action_key a = (row_organization a, row_action_type a, row_idempotency_key a)"

definition ledger_grown :: "'a ledger_scheme \<Rightarrow> 'b ledger_scheme \<Rightarrow> bool" where
  "ledger_grown w w' \<longleftrightarrow>
     (\<exists>as es. ledger_actions w' = ledger_actions w @ as \<and> ledger_events w' = ledger_events w @ es \<and>
        (\<forall>a\<in>set as. action_key a \<notin> action_key ` set (ledger_actions w)) \<and>
        (\<forall>e\<in>set es. ev_action e \<notin> row_id ` set (ledger_actions w)))"

lemma ledger_grown_refl [simp]: "ledger_grown w w"
  by (simp add: ledger_grown_def)

lemma ledger_grown_trans [trans]:
  assumes "ledger_grown u v" and "ledger_grown v w"
  shows "ledger_grown u w"
proof -
  obtain as es where v: "ledger_actions v = ledger_actions u @ as" "ledger_events v = ledger_events u @ es"
    "\<forall>a\<in>set as. action_key a \<notin> action_key ` set (ledger_actions u)"
    "\<forall>e\<in>set es. ev_action e \<notin> row_id ` set (ledger_actions u)"
    using assms(1) unfolding ledger_grown_def by blast
  obtain as' es' where w: "ledger_actions w = ledger_actions v @ as'" "ledger_events w = ledger_events v @ es'"
    "\<forall>a\<in>set as'. action_key a \<notin> action_key ` set (ledger_actions v)"
    "\<forall>e\<in>set es'. ev_action e \<notin> row_id ` set (ledger_actions v)"
    using assms(2) unfolding ledger_grown_def by blast
  show ?thesis
    unfolding ledger_grown_def
    by (rule exI [of _ "as @ as'"], rule exI [of _ "es @ es'"]) (use v w in auto)
qed

lemma dispatch_grows:
  assumes "handlers_keep_ledger opts" and "hex_digests (svc_sha db)" and "ledger_ok (svc_sha db) w"
    and disp: "dispatch db opts w rq = Inr (res, w')"
  shows "ledger_grown w w'"
proof (cases "res_replayed res")
  case True
  with disp show ?thesis using dispatch_replayed by fastforce
next
  case False
  obtain d def where none: "prior_actions w rq = []"
    and perf: "perform_action db opts w rq d def (effect_context_of db w rq) = Inr (res, w')"
    by (rule dispatch_applied [OF disp False])
  have "\<forall>a\<in>set (ledger_actions w). action_key a \<noteq> (rq_organization rq, rq_action_type rq, rq_key rq)"
    using none by (auto simp: prior_actions_def filter_empty_conv action_key_def)
  then have "(rq_organization rq, rq_action_type rq, rq_key rq) \<notin> action_key ` set (ledger_actions w)"
    by (metis imageE)
  moreover have "action_key (inserted_action rq d st ctx) = (rq_organization rq, rq_action_type rq, rq_key rq)" for st ctx
    by (simp add: action_key_def inserted_action_def)
  moreover have "ev_action (link_event (audit_input rq st ctx) n p x) = ctx_action ctx" for st ctx n p x
    by (simp add: link_event_def audit_input_def)
  ultimately show ?thesis
    using perform_ledger [OF assms(1-3) perf] unfolding ledger_grown_def by auto
qed

lemma dispatcher_inr:
  "action_dispatcher db options w rq = (Inr res, w') \<Longrightarrow>
     dispatch db (resolve_dispatcher_options options) w rq = Inr (res, w')"
  by (auto simp: action_dispatcher_def transactional_dispatcher_def split: sum.splits option.splits)

lemma kernel_run_grows:
  "kernel_inv db options w \<Longrightarrow> ledger_grown w (fold (kernel_step db options) requests w)"
proof (induction requests arbitrary: w)
  case (Cons rq requests)
  have "ledger_grown w (kernel_step db options rq w)"
  proof (cases "action_dispatcher db options w rq")
    case (Pair r w')
    show ?thesis
    proof (cases r)
      case (Inl e)
      with Pair have "w' = w"
        by (auto simp: action_dispatcher_def transactional_dispatcher_def split: sum.splits option.splits prod.splits)
      with Pair show ?thesis by (simp add: kernel_step_def)
    next
      case (Inr res)
      with Pair have "dispatch db (resolve_dispatcher_options options) w rq = Inr (res, w')"
        by (simp add: dispatcher_inr)
      with Cons.prems Pair show ?thesis
        using dispatch_grows by (auto simp: kernel_inv_def kernel_step_def)
    qed
  qed
  also have "ledger_grown (kernel_step db options rq w)
      (fold (kernel_step db options) requests (kernel_step db options rq w))"
    by (rule Cons.IH [OF kernel.keeps [OF Cons.prems]])
  finally show ?case by simp
qed simp

lemma grown_prior_actions:
  assumes "ledger_grown w w'" and "prior_actions w rq \<noteq> []"
  shows "prior_actions w' rq = prior_actions w rq"
proof -
  obtain as where as: "ledger_actions w' = ledger_actions w @ as"
    "\<forall>a\<in>set as. action_key a \<notin> action_key ` set (ledger_actions w)"
    using assms(1) unfolding ledger_grown_def by blast
  have "(rq_organization rq, rq_action_type rq, rq_key rq) \<in> action_key ` set (ledger_actions w)"
    using assms(2) by (force simp: prior_actions_def filter_empty_conv action_key_def)
  with as show ?thesis by (auto simp: prior_actions_def filter_empty_conv action_key_def)
qed

lemma first_receipt_mono: "first_receipt es i = Some e \<Longrightarrow> first_receipt (es @ fs) i = Some e"
  by (induction es) (auto simp: first_receipt_def split: if_splits)

lemma grown_receipts:
  assumes "ledger_grown w w'" and "i \<in> row_id ` set (ledger_actions w)"
  shows "receipts (ledger_events w') i = receipts (ledger_events w) i"
    and "first_receipt (ledger_events w) i = Some e \<Longrightarrow> first_receipt (ledger_events w') i = Some e"
proof -
  obtain es where es: "ledger_events w' = ledger_events w @ es"
    "\<forall>e\<in>set es. ev_action e \<notin> row_id ` set (ledger_actions w)"
    using assms(1) unfolding ledger_grown_def by blast
  have "\<forall>e\<in>set es. ev_action e \<noteq> i" using es(2) assms(2) by blast
  then show "receipts (ledger_events w') i = receipts (ledger_events w) i"
    by (simp add: es receipts_append receipts_none)
  show "first_receipt (ledger_events w) i = Some e \<Longrightarrow> first_receipt (ledger_events w') i = Some e"
    unfolding es(1) by (rule first_receipt_mono)
qed

section \<open>A retry returns the first result\<close>

lemma prior_actions_append:
  "ledger_actions w' = ledger_actions w @ [a] \<Longrightarrow>
     prior_actions w' rq = prior_actions w rq @
       (if row_organization a = rq_organization rq \<and> row_action_type a = rq_action_type rq \<and>
           row_idempotency_key a = rq_key rq then [a] else [])"
  by (simp add: prior_actions_def)

lemma first_receipt_append:
  "\<forall>e\<in>set es. ev_action e \<noteq> i \<Longrightarrow> ev_action e = i \<Longrightarrow> first_receipt (es @ [e]) i = Some e"
  by (induction es) (auto simp: first_receipt_def)

lemma single_object_expected: "valid_target_ids ids \<Longrightarrow> expected_object ids = single_object (sort ids)"
  by (simp add: expected_object_def single_object_sort)

lemma perform_targets:
  "perform_action db opts w rq d def ctx = Inr (res, w') \<Longrightarrow> res_objects res \<noteq> []"
  by (erule perform_ok) (auto dest: prepare_ok)

text \<open>
  What an applied act leaves for retries: its row alone under its key, its one receipt, and the
  two consistent. Later requests keep all three.
\<close>

lemma performed_row:
  assumes keep: "handlers_keep_ledger opts" and H: "hex_digests (svc_sha db)"
    and ok: "ledger_ok (svc_sha db) w" and none: "prior_actions w rq = []"
    and perf: "perform_action db opts w rq d def ctx = Inr (res, w')"
  obtains a where "prior_actions w' rq = [a]" "a \<in> set (ledger_actions w')" "row_id a = res_action res"
    "row_actor a = rq_actor rq" "row_role a = rq_role rq" "row_request_digest a = d"
    "row_targets a = res_objects res"
    "\<exists>e. first_receipt (ledger_events w') (row_id a) = Some e \<and> ev_digest e = res_audit res \<and>
      receipts (ledger_events w') (row_id a) = 1 \<and>
      ([] \<notin> set (res_objects res) \<longrightarrow> consistent_receipt (svc_sha db) a 1 e)"
proof -
  obtain st where ok': "ledger_ok (svc_sha db) w'" and fresh: "ctx_action ctx \<notin> row_id ` set (ledger_actions w)"
    and st: "st_targets st = res_objects res"
    and acts: "ledger_actions w' = ledger_actions w @ [inserted_action rq d st ctx]"
    and dig: "audit_chain_digest (svc_sha db) (chain_head w) (input_entry (audit_input rq st ctx))
         CURRENT_AUDIT_LINK_FORMAT = Inr (res_audit res)"
    and evs: "ledger_events w' = ledger_events w @
         [link_event (audit_input rq st ctx) (Suc (length (ledger_events w))) (chain_head w) (res_audit res)]"
    using perform_ledger [OF keep H ok perf] by blast
  let ?a = "inserted_action rq d st ctx"
  let ?e = "link_event (audit_input rq st ctx) (Suc (length (ledger_events w))) (chain_head w) (res_audit res)"
  have res: "res_action res = ctx_action ctx" using perform_ok [OF perf] by metis
  have prior: "prior_actions w' rq = [?a]"
    using none by (simp add: prior_actions_append [OF acts]) (simp add: inserted_action_def)
  have id: "row_id ?a = ctx_action ctx" by (simp add: inserted_action_def)
  have "\<forall>e\<in>set (ledger_events w). ev_action e \<noteq> ctx_action ctx"
    using ok fresh unfolding ledger_ok_def by metis
  then have first: "first_receipt (ledger_events w') (row_id ?a) = Some ?e"
    unfolding evs id by (rule first_receipt_append) (simp add: link_event_def audit_input_def)
  have one: "receipts (ledger_events w') (row_id ?a) = 1"
    using ok' by (simp add: ledger_ok_def acts)
  have consistent: "consistent_receipt (svc_sha db) ?a 1 ?e" if "[] \<notin> set (res_objects res)"
  proof -
    have valid: "valid_target_ids (st_targets st)"
      using that perform_targets [OF perf] by (auto simp: valid_target_ids_def list_all_iff st)
    then show ?thesis
      using dig
      by (simp add: consistent_receipt_def recomputed_digest_def inserted_action_def link_event_def
          audit_input_def input_entry_def single_object_expected current_format_known stored_timestamp_def)
  qed
  have "\<exists>e. first_receipt (ledger_events w') (row_id ?a) = Some e \<and> ev_digest e = res_audit res \<and>
      receipts (ledger_events w') (row_id ?a) = 1 \<and>
      ([] \<notin> set (res_objects res) \<longrightarrow> consistent_receipt (svc_sha db) ?a 1 e)"
    using first one consistent by (simp add: link_event_def)
  then show ?thesis
    by (rule that [OF prior, rotated -1]) (use res st in \<open>simp_all add: acts\<close>, simp_all add: inserted_action_def)
qed

lemma same_key_prior_actions:
  "rq_organization rq' = rq_organization rq \<Longrightarrow> rq_action_type rq' = rq_action_type rq \<Longrightarrow>
     rq_key rq' = rq_key rq \<Longrightarrow> prior_actions w rq' = prior_actions w rq"
  by (simp add: prior_actions_def)

lemma replay_performed:
  assumes "handlers_keep_ledger opts" and "hex_digests (svc_sha db)" and "ledger_ok (svc_sha db) w"
    and "prior_actions w rq = []" and perf: "perform_action db opts w rq d def ctx = Inr (res, w')"
    and names: "[] \<notin> set (res_objects res)" and grown: "ledger_grown w' w''"
    and same: "rq_organization rq' = rq_organization rq" "rq_action_type rq' = rq_action_type rq"
      "rq_key rq' = rq_key rq" "rq_actor rq' = rq_actor rq" "rq_role rq' = rq_role rq"
  shows "replay_prior_action db opts w'' rq' d =
    bindE (read_receipt opts w'' rq' (res_action res))
      (\<lambda>receipt. Inr (Some (res\<lparr>res_replayed := True, res_receipt := receipt\<rparr>)))"
proof -
  obtain a e where prior: "prior_actions w' rq = [a]" and a: "a \<in> set (ledger_actions w')"
    "row_id a = res_action res" "row_actor a = rq_actor rq" "row_role a = rq_role rq"
    "row_request_digest a = d" "row_targets a = res_objects res"
    and e: "first_receipt (ledger_events w') (row_id a) = Some e" "ev_digest e = res_audit res"
      "receipts (ledger_events w') (row_id a) = 1" "consistent_receipt (svc_sha db) a 1 e"
    using performed_row [OF assms(1-5)] names by metis
  have eq: "\<lparr>res_action = res_action res, res_replayed = True, res_objects = res_objects res,
      res_audit = res_audit res, res_receipt = r\<rparr> = res\<lparr>res_replayed := True, res_receipt := r\<rparr>" for r
    by (cases res) simp
  have "prior_actions w'' rq' = [a]"
    using grown_prior_actions [OF grown, of rq] prior same_key_prior_actions [OF same(1-3), of w''] by simp
  moreover have "row_id a \<in> row_id ` set (ledger_actions w')" using a by blast
  note later = grown_receipts [OF grown this]
  ultimately show ?thesis
    using a(2-) e same by (simp add: replay_prior_action_def eq)
qed

section \<open>Digests the kernel takes always exist\<close>

lemma denote_object_total:
  assumes "\<And>k v p. (k, v) \<in> set ps \<Longrightarrow> surrogate_failure k = None \<and> v \<noteq> JUndefined \<and> (\<exists>d. denote v p = Inr d)"
    and "\<And>v. map_of ps (units ''toJSON'') \<noteq> Some (JFunction v)"
  shows "\<exists>ms. denote (JObj ps) path = Inr (DObj ms)"
proof -
  have "\<exists>ms. denote_members (sort_key fst ps) path = Inr ms"
    by (rule denote_members_total) (use assms(1) in auto)
  then show ?thesis using assms(2) by (auto split: option.splits jval.splits)
qed

lemma tagged_digest_total:
  assumes "is_format_tag tag" and "units ''format'' \<notin> fst ` set ps" and "dense (JObj ps)"
    and "\<And>k v p. (k, v) \<in> set ps \<Longrightarrow> surrogate_failure k = None \<and> v \<noteq> JUndefined \<and> (\<exists>d. denote v p = Inr d)"
    and "\<And>v. map_of ps (units ''toJSON'') \<noteq> Some (JFunction v)"
  shows "\<exists>b. tagged_digest H tag (JObj ps) = Inr (H b)"
proof -
  let ?ps = "ps @ [(units ''format'', text_value tag)]"
  have "map_of ?ps (units ''toJSON'') \<noteq> Some (JFunction v)" for v
    using assms(5) by (auto simp: map_add_def split: option.splits)
  then have "\<exists>ms. denote (JObj ?ps) [] = Inr (DObj ms)"
    by (intro denote_object_total) (use assms(4) units_scalar in auto)
  then obtain ms where "denote (JObj ?ps) [] = Inr (DObj ms)" ..
  moreover have "dense (JObj ?ps)" using assms(3) by simp
  ultimately have "canonical_bytes (JObj ?ps) = Inr (utf8 (render (DObj ms)))"
    using canonical_bytes_denote by blast
  then show ?thesis
    using assms(1,2) by (simp add: tagged_digest_def json_digest_def tagged_fields_def text_value_def) blast
qed

lemma action_state_digest_total: "\<exists>b. action_state_digest H objects = Inr (H b)"
proof -
  have items: "\<exists>ds. denote_items (map (\<lambda>(i, s). Some (JObj [(units ''id'', text_value i), (units ''state'', text_value s)])) xs) n p = Inr ds"
    for xs n p
  proof (induction xs arbitrary: n)
    case (Cons x xs)
    obtain i s where x: "x = (i, s)" by (cases x)
    have "\<exists>d. denote (JObj [(units ''id'', text_value i), (units ''state'', text_value s)]) q = Inr d" for q
    proof -
      have "\<exists>ms. denote (JObj [(units ''id'', text_value i), (units ''state'', text_value s)]) q = Inr (DObj ms)"
        by (rule denote_object_total) (auto simp: units_scalar)
      then show ?thesis by blast
    qed
    with Cons.IH [of "Suc n"] show ?case by (auto simp: x bindE_eq_Inr simp del: denote.simps)
  qed simp
  have "\<exists>b. tagged_digest H ACTION_STATE_FORMAT (state_value objects) = Inr (H b)"
    unfolding state_value_def
  proof (rule tagged_digest_total)
    show "is_format_tag ACTION_STATE_FORMAT" by code_simp
  qed (use items in \<open>auto simp: list_all_iff units_scalar bindE_eq_Inr\<close>)
  then show ?thesis by (auto simp: action_state_digest_def digest_result_def)
qed

lemma idempotency_lock_total: "\<exists>b. idempotency_lock H rq = Inr (H b)"
proof -
  have "is_format_tag ''kf-action-idempotency-lock-v1''" by code_simp
  then have "\<exists>b. tagged_digest H ''kf-action-idempotency-lock-v1''
      (JObj [(units ''organizationId'', text_value (rq_organization rq)),
              (units ''actionType'', text_value (rq_action_type rq)),
              (units ''idempotencyKey'', text_value (rq_key rq))]) = Inr (H b)"
    by (rule tagged_digest_total) (auto simp: units_scalar)
  then show ?thesis by (auto simp: idempotency_lock_def digest_result_def)
qed

lemma semantic_digest_total:
  assumes "rq_payload rq = None" and "rq_effective_at rq \<noteq> Some Invalid_date"
  shows "\<exists>b. semantic_action_request_digest H rq = Inr (H b)"
proof -
  have "\<exists>b. tagged_digest H ''kf-action-request-v1'' (JObj (semantic_members rq)) = Inr (H b)"
  proof (rule tagged_digest_total [OF semantic_tag])
    show "units ''format'' \<notin> fst ` set (semantic_members rq)" by (simp add: semantic_members_def)
    show "dense (JObj (semantic_members rq))"
      using assms(1) by (simp add: semantic_members_def or_default_def nullable_version_def split: option.splits)
    show "map_of (semantic_members rq) (units ''toJSON'') \<noteq> Some (JFunction v)" for v
      by (simp add: semantic_members_def)
    show "surrogate_failure k = None \<and> v \<noteq> JUndefined \<and> (\<exists>d. denote v p = Inr d)"
      if "(k, v) \<in> set (semantic_members rq)" for k v p
    proof -
      have "\<exists>d. denote (nullable_version x) p = Inr d" "nullable_version x \<noteq> JUndefined" for x p
        by (simp only: denote_nullable_version) (auto simp: nullable_version_def split: option.splits)
      moreover have "\<exists>d. denote (JObj []) p = Inr d" by simp
      ultimately show ?thesis
        using that assms(1) by (auto simp: semantic_members_def or_default_def units_scalar)
    qed
  qed
  with assms(2) show ?thesis by (auto simp: semantic_action_request_digest_def digest_result_def)
qed

end
