(* ===== verification/Kernel_Properties.thy ===== *)
theory Kernel_Properties
  imports Action_Laws
begin

text \<open>
  Properties of the action kernel and of the ledger it writes, each with an instance at a
  concrete database: one action type, one object, a digest function with constant output.
\<close>

section \<open>A concrete kernel\<close>

definition sample_sha :: sha256 where
  "sample_sha b = replicate 64 CHR ''a''"

definition sample_object :: object_row where
  "sample_object =
     \<lparr>obj_id = ''o1'', obj_type = ''invoice'', lifecycle_state = ''draft'', row_version = 1,
      obj_organization = ''org'', created_by = ''ann'', updated_by = ''ann''\<rparr>"

definition sample_world :: "unit world" where
  "sample_world =
     \<lparr>ledger_actions = [], ledger_events = [], chain_head = genesis_digest,
      world_objects = [sample_object], world_rest = ()\<rparr>"

definition sample_services_with :: "sha256 \<Rightarrow> unit services" where
  "sample_services_with H =
     \<lparr>svc_sha = H,
      svc_types = [\<lparr>ty_id = ''approve_invoice'', ty_transactional = True, ty_capability = Some ''act'',
                    ty_qualification = Some True\<rparr>],
      svc_transitions = [\<lparr>te_action = ''approve_invoice'', te_machine = ''invoice'', te_from = ''draft'',
                          te_to = ''approved''\<rparr>],
      svc_holds_role = (\<lambda>w a r. True), svc_bind = (\<lambda>w rq. Context_bound),
      svc_visible = (\<lambda>w rq r. True), svc_person_kind = (\<lambda>w a. Some ''person''),
      svc_act_reaches = (\<lambda>w a g ids. True), svc_gaps = (\<lambda>w a g ty ids. []),
      svc_clock = (\<lambda>w. (CHR ''a'' # dec (length (ledger_actions w)), ''2026-01-01T00:00:00.000Z'')),
      svc_commit = (\<lambda>w. None)\<rparr>"

definition sample_services :: "unit services" where
  "sample_services = sample_services_with sample_sha"

definition sample_options :: "unit dispatcher_options" where
  "sample_options =
     \<lparr>opt_allowed = None, opt_preconditions = None, opt_materializers = None, opt_effects = None,
      opt_receipts = None, opt_separation = None, opt_reason_required = None\<rparr>"

definition sample_request :: "string list \<Rightarrow> action_request" where
  "sample_request ts =
     \<lparr>rq_action_type = ''approve_invoice'', rq_actor = ''bob'', rq_role = ''r1'', rq_targets = ts,
      rq_payload = None, rq_reason = None, rq_key = ''k1'', rq_request_id = None,
      rq_organization = ''org'', rq_max_classification = ''internal'', rq_attestation = None,
      rq_effective_at = None, rq_expected_version = Some 1\<rparr>"

abbreviation sample_resolved :: "unit resolved_options" where
  "sample_resolved \<equiv> resolve_dispatcher_options sample_options"

lemma sample_keep: "handlers_keep_ledger sample_resolved"
  by (simp add: handlers_keep_ledger_def resolve_dispatcher_options_def sample_options_def or_default_def)

lemma sample_ok: "ledger_ok (svc_sha sample_services) sample_world"
  by (simp add: ledger_ok_def sample_world_def ledger_rows_def rows_head_def hex64_genesis)

lemma sample_dispatch_with:
  assumes "hex_digests H"
  shows "\<exists>res w'. dispatch (sample_services_with H) sample_resolved sample_world (sample_request [''o1'']) = Inr (res, w') \<and>
     \<not> res_replayed res \<and> res_objects res = [''o1''] \<and>
     world_objects w' = [sample_object\<lparr>lifecycle_state := ''approved'', row_version := 2, updated_by := ''bob''\<rparr>]"
proof -
  obtain b where sem: "semantic_action_request_digest H (sample_request [''o1'']) = Inr (H b)"
    using semantic_digest_total [of "sample_request [''o1'']" H] by (auto simp: sample_request_def)
  obtain c where lock: "idempotency_lock H (sample_request [''o1'']) = Inr (H c)"
    using idempotency_lock_total by blast
  obtain f where state: "action_state_digest H xs = Inr (H (f xs))" for xs
    using action_state_digest_total [of H] by metis
  have link: "audit_chain_digest H genesis_digest e CURRENT_AUDIT_LINK_FORMAT =
      Inr (H (link_preimage genesis_digest e CURRENT_AUDIT_LINK_FORMAT))" for e
    by (simp add: audit_chain_digest_eq hex64_genesis current_format_known)
  have admit: "admit_request (sample_services_with H) sample_resolved sample_world (sample_request [''o1'']) =
      Inr (H b, \<lparr>def_id = ''approve_invoice'', def_transactional = True,
        def_transitions = [\<lparr>tr_machine = ''invoice'', tr_from = ''draft'', tr_to = ''approved''\<rparr>],
        def_requires_capability = Some ''act'', def_requires_qualification = True\<rparr>)"
    using sem lock
    by (simp add: admit_request_def sample_services_with_def sample_request_def assert_action_available_def
        resolve_dispatcher_options_def sample_options_def assert_canonical_effective_at_def
        load_definition_def assert_role_held_def bind_resolved_access_context_def
        assert_reason_present_def or_default_def DEFAULT_REASON_REQUIRED_def Let_def)
  show ?thesis
    unfolding dispatch_def admit
    by (simp add: replay_prior_action_def prior_actions_def perform_action_def prepare_action_state_def
        materialize_def select_objects_def resolve_transition_def permitted_transitions_def
        assert_separation_of_duty_def run_precondition_def assert_act_covered_def assert_qualified_def
        apply_action_def finalize_action_def append_audit_event_def read_receipt_def effect_context_of_def
        resolve_dispatcher_options_def sample_options_def sample_services_with_def sample_world_def
        sample_object_def sample_request_def or_default_def DEFAULT_SEPARATION_OF_DUTY_def state link
        move_object_def Let_def)
qed

lemma sample_hex: "hex_digests (svc_sha sample_services)"
proof -
  have "is_hex CHR ''a''" by code_simp
  then show ?thesis by (simp add: hex_digests_def hex64_def sample_services_def sample_services_with_def
        sample_sha_def list_all_length)
qed

lemma sample_dispatch:
  "\<exists>res w'. dispatch sample_services sample_resolved sample_world (sample_request [''o1'']) = Inr (res, w') \<and>
     \<not> res_replayed res \<and> res_objects res = [''o1''] \<and>
     world_objects w' = [sample_object\<lparr>lifecycle_state := ''approved'', row_version := 2, updated_by := ''bob''\<rparr>]"
  unfolding sample_services_def
  by (rule sample_dispatch_with)
     (use sample_hex in \<open>simp add: sample_services_def sample_services_with_def\<close>)

section \<open>The ledger\<close>

text \<open>C1: Tamper evidence of a restored archive. If two archives' audit chains both pass
  \<open>assertRestoredAuditChain\<close> and end in the same head digest, then they are the same chain:
  every link commits to the same action, actor, role, targets, time, before and after digest
  in the same order, and carries the same digest. SHA-256 is assumed not to collide on the links'
  preimages nor to yield the genesis digest for one of them.\<close>

theorem restored_chain_tamper_evident:
  assumes "inj_on H (row_preimage ` set (ledger_rows db) \<union> row_preimage ` set (ledger_rows db'))"
    and "genesis_digest \<notin> H ` (row_preimage ` set (ledger_rows db) \<union> row_preimage ` set (ledger_rows db'))"
    and "assert_restored_audit_chain H db = Inr ()" and "assert_restored_audit_chain H db' = Inr ()"
    and "rows_head genesis_digest (ledger_rows db) = rows_head genesis_digest (ledger_rows db')"
  shows "map row_commitment (ledger_rows db) = map row_commitment (ledger_rows db') \<and>
    map (ev_digest \<circ> fst) (ledger_rows db) = map (ev_digest \<circ> fst) (ledger_rows db')"
proof -
  have "check_links H (ledger_rows db) None genesis_digest (ledger_rows db) = Inr ()"
    using assms(3) by (auto simp: assert_restored_audit_chain_def ledger_rows_def first_expected_def Let_def
        bindE_eq_Inr split: option.splits)
  moreover have "check_links H (ledger_rows db') None genesis_digest (ledger_rows db') = Inr ()"
    using assms(4) by (auto simp: assert_restored_audit_chain_def ledger_rows_def first_expected_def Let_def
        bindE_eq_Inr split: option.splits)
  ultimately show ?thesis
    using check_links_tamper_evident [OF assms(1,2) _ _ assms(5)] by blast
qed

definition sample_action :: action_row where
  "sample_action =
     \<lparr>row_id = ''a1'', row_organization = ''org'', row_request_digest = ''d'', row_action_type = ''approve_invoice'',
      row_actor = ''bob'', row_role = ''r1'', row_targets = [''o1''], row_idempotency_key = ''k1'',
      row_effective = stored_timestamp ''2026-01-01T00:00:00.000Z'', row_request_id = None, row_reason = None,
      row_status = ''applied''\<rparr>"

definition sample_link :: link_input where
  "sample_link =
     \<lparr>in_action_id = ''a1'', in_action_type = ''approve_invoice'', in_actor = ''bob'', in_role = ''r1'',
      in_objects = [''o1''], in_effective = ''2026-01-01T00:00:00.000Z'', in_request_id = None, in_reason = None,
      in_before = None, in_after = None\<rparr>"

definition sample_chain :: ledger where
  "sample_chain =
     \<lparr>ledger_actions = [sample_action],
      ledger_events = [link_event sample_link 1 genesis_digest (replicate 64 CHR ''a'')],
      chain_head = replicate 64 CHR ''a''\<rparr>"

lemma sample_chain_ok: "ledger_ok sample_sha sample_chain"
proof -
  let ?db = "\<lparr>ledger_actions = [sample_action], ledger_events = [], chain_head = genesis_digest\<rparr>"
  have "append_audit_event sample_sha ?db sample_link = Inr (replicate 64 CHR ''a'', sample_chain)"
    by (simp add: append_audit_event_eq audit_chain_digest_eq hex64_genesis current_format_known
        sample_sha_def sample_chain_def)
  from append_audit_event_ok [OF empty_ledger_ok _ _ _ _ _ _ this, of sample_action] sample_hex
  show ?thesis
    by (auto simp: empty_ledger_def sample_action_def sample_link_def link_of_row_def sample_chain_def
        sample_services_def sample_services_with_def)
qed

theorem restored_chain_tamper_evident_witness:
  "map row_commitment (ledger_rows sample_chain) = map row_commitment (ledger_rows sample_chain) \<and>
   rows_head genesis_digest (ledger_rows sample_chain) = replicate 64 CHR ''a''"
proof -
  have rows: "ledger_rows sample_chain =
      [(link_event sample_link 1 genesis_digest (replicate 64 CHR ''a''), sample_action)]"
    by (simp add: ledger_rows_def sample_chain_def find_action_def link_event_def sample_link_def sample_action_def)
  have "genesis_digest \<notin> sample_sha ` B" for B
    by (simp add: genesis_digest_def sample_sha_def image_iff replicate_eq_replicate)
  moreover have "inj_on sample_sha (row_preimage ` set (ledger_rows sample_chain) \<union> row_preimage ` set (ledger_rows sample_chain))"
    by (simp add: rows)
  ultimately have "map row_commitment (ledger_rows sample_chain) = map row_commitment (ledger_rows sample_chain)"
    using restored_chain_tamper_evident [of sample_sha sample_chain sample_chain]
      ledger_ok_restores [OF sample_chain_ok] by blast
  then show ?thesis by (simp add: rows rows_head_def link_event_def)
qed

text \<open>C2: Every database the dispatcher can leave behind restores. From a sound ledger, after any
  sequence of requests, applied, replayed or refused, the audit chain is sound and an archive of
  it passes \<open>assertRestoredAuditChain\<close>, provided the materializers and effects leave the action and
  audit tables to the kernel and digests are 64 lower-case hexadecimal digits.\<close>

theorem dispatched_ledger_restores:
  assumes "handlers_keep_ledger (resolve_dispatcher_options options)" and "hex_digests (svc_sha db)"
    and "ledger_ok (svc_sha db) w"
  shows "assert_restored_audit_chain (svc_sha db) (fold (kernel_step db options) requests w) = Inr ()"
proof -
  have "kernel_inv db options (fold (kernel_step db options) requests w)"
    by (rule kernel.run) (use assms in \<open>simp add: kernel_inv_def\<close>)
  then show ?thesis by (auto simp: kernel_inv_def intro: ledger_ok_restores)
qed

theorem dispatched_ledger_restores_witness:
  "ledger_ok (svc_sha sample_services) sample_world \<and>
   assert_restored_audit_chain (svc_sha sample_services)
     (fold (kernel_step sample_services sample_options) [sample_request [''o1''], sample_request [''o2'']]
        sample_world) = Inr ()"
  by (rule conjI [OF sample_ok dispatched_ledger_restores [OF sample_keep sample_hex sample_ok]])

section \<open>Retries\<close>




lemma sample_committed:
  "dispatch (sample_services_with H) sample_resolved w rq = Inr (res, w') \<Longrightarrow>
     action_dispatcher (sample_services_with H) sample_options w rq = (Inr res, w')"
  by (simp add: action_dispatcher_def transactional_dispatcher_def) (simp add: sample_services_with_def)


text \<open>The bytes a request's identity is the digest of.\<close>

definition request_preimage :: "action_request \<Rightarrow> 8 word list" where
  "request_preimage rq = (case canonical_bytes (semantic_value rq) of Inl e \<Rightarrow> [] | Inr b \<Rightarrow> b)"

lemma admitted_digest:
  "admit_request db opts w rq = Inr (d, def) \<Longrightarrow>
     rq_effective_at rq \<noteq> Some Invalid_date \<and>
     canonical_bytes (semantic_value rq) = Inr (request_preimage rq) \<and> d = svc_sha db (request_preimage rq)"
  by (auto simp: admit_request_def bindE_eq_Inr semantic_digest_eq request_preimage_def)

text \<open>C4: A key is used once. After a request was applied and committed, let any further requests go
  through the dispatcher. Then a request in the same organization, of the same action type, by the
  same actor and role and under the same idempotency key that passes the admission checks but means
  something else (other targets, payload, reason, expected version or effective time) is
  refused as \<open>idempotency_conflict\<close>, naming the type, organization and key, and is not performed.
  Neither payload has holes in its arrays, and SHA-256 is assumed not to collide on the two requests'
  bytes. (The key's scope is the organization and the action type.) The ledger
  was sound before the first request and handlers leave the action and audit tables to the kernel.\<close>

theorem reused_key_conflicts:
  assumes "handlers_keep_ledger (resolve_dispatcher_options options)" and "hex_digests (svc_sha db)"
    and "ledger_ok (svc_sha db) w"
    and first: "action_dispatcher db options w rq = (Inr res, w')" and new: "\<not> res_replayed res"
    and same: "rq_organization rq' = rq_organization rq" "rq_action_type rq' = rq_action_type rq"
      "rq_key rq' = rq_key rq" "rq_actor rq' = rq_actor rq" "rq_role rq' = rq_role rq"
    and later: "w'' = fold (kernel_step db options) requests w'"
    and admit': "admit_request db (resolve_dispatcher_options options) w'' rq' = Inr (d', def')"
    and json: "json_payload rq" "json_payload rq'"
    and H: "inj_on (svc_sha db) {request_preimage rq, request_preimage rq'}"
    and differ: "\<not> same_semantics rq rq'"
  shows "dispatch db (resolve_dispatcher_options options) w'' rq' =
    reject Idempotency_conflict ''idempotency key was already used for different action semantics''
      [(''actionType'', Text (rq_action_type rq)), (''organizationId'', Text (rq_organization rq)),
       (''idempotencyKey'', Text (rq_key rq))]"
proof -
  let ?opts = "resolve_dispatcher_options options"
  note disp = dispatcher_inr [OF first]
  obtain d def where admit: "admit_request db ?opts w rq = Inr (d, def)" and none: "prior_actions w rq = []"
    and perf: "perform_action db ?opts w rq d def (effect_context_of db w rq) = Inr (res, w')"
    by (rule dispatch_applied [OF disp new])
  note bytes = admitted_digest [OF admit] admitted_digest [OF admit']
  have "d \<noteq> d'"
  proof
    assume "d = d'"
    then have "svc_sha db (request_preimage rq) = svc_sha db (request_preimage rq')"
      using bytes by (metis (no_types))
    then have "request_preimage rq = request_preimage rq'" by (rule inj_onD [OF H]) simp_all
    with bytes have "canonical_bytes (semantic_value rq) = Inr (request_preimage rq)"
      "canonical_bytes (semantic_value rq') = Inr (request_preimage rq)" by simp_all
    from canonical_bytes_inject [OF semantic_value_fine [OF json(1)] semantic_value_fine [OF json(2)] this]
    obtain v where v: "denote (semantic_value rq) [] = Inr v" "denote (semantic_value rq') [] = Inr v" by blast
    have "same_semantics rq rq'"
      by (rule semantic_value_inject [OF v]) (use bytes in simp_all)
    with differ show False ..
  qed
  have "kernel_inv db options w'"
    using dispatch_ledger [OF assms(1-3) disp] assms(1,2) by (simp add: kernel_inv_def)
  then have grown: "ledger_grown w' w''" unfolding later by (rule kernel_run_grows)
  obtain a where prior: "prior_actions w' rq = [a]" and a: "row_actor a = rq_actor rq" "row_role a = rq_role rq"
    "row_request_digest a = d"
    using performed_row [OF assms(1-3) none perf] by metis
  have "prior_actions w'' rq' = [a]"
    using grown_prior_actions [OF grown, of rq] prior same_key_prior_actions [OF same(1-3), of w''] by simp
  then show ?thesis
    using admit' \<open>d \<noteq> d'\<close> a same by (simp add: dispatch_def replay_prior_action_def reject_def)
qed

lemma reused_key_conflicts_witness:
  "\<exists>H res w'.
     action_dispatcher (sample_services_with H) sample_options sample_world (sample_request [''o1'']) = (Inr res, w') \<and>
     dispatch (sample_services_with H) sample_resolved
       (fold (kernel_step (sample_services_with H) sample_options)
          [sample_request [''o1'']\<lparr>rq_key := ''k2'', rq_actor := ''eve''\<rparr>] w')
       (sample_request [''o1'']\<lparr>rq_reason := Some ''other''\<rparr>) =
       reject Idempotency_conflict ''idempotency key was already used for different action semantics''
         [(''actionType'', Text ''approve_invoice''), (''organizationId'', Text ''org''),
          (''idempotencyKey'', Text ''k1'')]"
proof -
  let ?rq = "sample_request [''o1'']" and ?rq' = "sample_request [''o1'']\<lparr>rq_reason := Some ''other''\<rparr>"
  define H :: sha256 where "H b = replicate 64 (if b = request_preimage ?rq then CHR ''a'' else CHR ''b'')" for b
  let ?db = "sample_services_with H"
  let ?later = "[sample_request [''o1'']\<lparr>rq_key := ''k2'', rq_actor := ''eve''\<rparr>]"
  have "is_hex CHR ''a''" "is_hex CHR ''b''" by code_simp+
  then have H: "hex_digests H" by (simp add: hex_digests_def hex64_def H_def list_all_length)
  have sha: "svc_sha ?db = H" by (simp add: sample_services_with_def)
  obtain res w' where d: "dispatch ?db sample_resolved sample_world ?rq = Inr (res, w')" and new: "\<not> res_replayed res"
    using sample_dispatch_with [OF H] by blast
  let ?w'' = "fold (kernel_step ?db sample_options) ?later w'"
  obtain b where "semantic_action_request_digest H ?rq' = Inr (H b)"
    using semantic_digest_total [of ?rq' H] by (auto simp: sample_request_def)
  moreover obtain c where "idempotency_lock H ?rq' = Inr (H c)"
    using idempotency_lock_total by blast
  ultimately have "\<exists>d' def'. admit_request ?db sample_resolved ?w'' ?rq' = Inr (d', def')"
    by (simp add: admit_request_def sample_services_with_def sample_request_def assert_action_available_def
        resolve_dispatcher_options_def sample_options_def assert_canonical_effective_at_def
        load_definition_def assert_role_held_def bind_resolved_access_context_def
        assert_reason_present_def or_default_def DEFAULT_REASON_REQUIRED_def Let_def)
  then obtain d' def' where admit: "admit_request ?db sample_resolved ?w'' ?rq' = Inr (d', def')" by blast
  have json: "json_payload ?rq" "json_payload ?rq'"
    by (simp_all add: json_payload_def sample_request_def or_default_def)
  have inj: "inj_on (svc_sha ?db) {request_preimage ?rq, request_preimage ?rq'}"
    unfolding sha by (auto simp: inj_on_def H_def split: if_splits)
  have differ: "\<not> same_semantics ?rq ?rq'"
    by (simp add: same_semantics_def sample_request_def)
  have ok: "ledger_ok (svc_sha ?db) sample_world"
    by (simp add: ledger_ok_def sample_world_def ledger_rows_def rows_head_def hex64_genesis)
  have hex: "hex_digests (svc_sha ?db)" unfolding sha by (rule H)
  have first: "action_dispatcher ?db sample_options sample_world ?rq = (Inr res, w')"
    using d by (rule sample_committed)
  have "dispatch ?db sample_resolved ?w'' ?rq' =
    reject Idempotency_conflict ''idempotency key was already used for different action semantics''
      [(''actionType'', Text (rq_action_type ?rq)), (''organizationId'', Text (rq_organization ?rq)),
       (''idempotencyKey'', Text (rq_key ?rq))]"
    by (rule reused_key_conflicts [OF sample_keep hex ok first new _ _ _ _ _ refl admit json inj differ]) simp_all
  with first show ?thesis by (simp add: sample_request_def) blast
qed

section \<open>What an applied act did\<close>

lemma applied_state:
  assumes "dispatch db opts w rq = Inr (res, w')" and "\<not> res_replayed res"
  obtains d def st w1 w2 where
    "admit_request db opts w rq = Inr (d, def)"
    "prepare_action_state db opts w rq def (effect_context_of db w rq) = Inr (st, w1)"
    "st_targets st = res_objects res"
    "apply_action opts w1 rq d st (effect_context_of db w rq) = Inr w2"
    "append_audit_event (svc_sha db) w2 (audit_input rq st (effect_context_of db w rq)) = Inr (res_audit res, w')"
    "assert_act_covered db w1 rq def (st_targets st) = Inr ()"
    "assert_qualified db w1 rq def (st_targets st) = Inr ()"
proof -
  obtain d def where admit: "admit_request db opts w rq = Inr (d, def)"
    and perf: "perform_action db opts w rq d def (effect_context_of db w rq) = Inr (res, w')"
    by (rule dispatch_applied [OF assms])
  show ?thesis by (rule perform_ok [OF perf], rule that [OF admit]) simp_all
qed

lemma admitted_definition:
  "admit_request db opts w rq = Inr (d, def) \<Longrightarrow> load_definition db (rq_action_type rq) = Inr def"
  by (auto simp: admit_request_def bindE_eq_Inr)

text \<open>C5: An applied act acted on exactly the objects it names, each once, all visible to the actor:
  the targets of the result are distinct, each of them is a row of the objects table after
  materialization, and a request that names a target twice, or one it cannot see, is refused.\<close>

theorem applied_targets_distinct_visible:
  assumes "dispatch db opts w rq = Inr (res, w')" and "\<not> res_replayed res"
    and "materialize opts w rq (effect_context_of db w rq) = Inr (created, w1)"
    and "distinct (map obj_id (world_objects w1))"
  shows "res_objects res = rq_targets rq @ created \<and> distinct (res_objects res) \<and>
    set (res_objects res) \<subseteq> obj_id ` {r \<in> set (world_objects w1). svc_visible db w1 rq r}"
proof -
  obtain d def st w1' where prep: "prepare_action_state db opts w rq def (effect_context_of db w rq) = Inr (st, w1')"
    and st: "st_targets st = res_objects res"
    by (rule applied_state [OF assms(1,2)])
  note facts = prepare_ok [OF prep]
  have w1: "w1' = w1" "st_created st = created" using facts assms(3) by auto
  have "distinct (st_targets st) \<and> map obj_id (st_objects st) = sort (st_targets st)"
    by (rule locked_targets [OF assms(4)]) (use facts w1 in blast)+
  then have "distinct (st_targets st)" and "set (st_targets st) = obj_id ` set (st_objects st)"
    by (simp, metis set_map set_sort)
  with facts w1 st show ?thesis by (auto simp: select_objects_def)
qed

theorem applied_targets_distinct_visible_witness:
  "\<exists>res w'. dispatch sample_services sample_resolved sample_world (sample_request [''o1'']) = Inr (res, w') \<and>
     res_objects res = [''o1''] \<and> distinct (res_objects res)"
proof -
  obtain res w' where d: "dispatch sample_services sample_resolved sample_world (sample_request [''o1'']) = Inr (res, w')"
    "\<not> res_replayed res"
    using sample_dispatch by blast
  have "materialize sample_resolved sample_world (sample_request [''o1''])
      (effect_context_of sample_services sample_world (sample_request [''o1''])) = Inr ([], sample_world)"
    by (simp add: materialize_def resolve_dispatcher_options_def sample_options_def or_default_def)
  from applied_targets_distinct_visible [OF d this] d(1) show ?thesis
    by (auto simp: sample_world_def sample_request_def)
qed

text \<open>C6: Transitions are the registered ones. When an act without a typed effect is applied, every
  object of the database whose id the result names has made a move the registry lists for that
  action out of the object's state (its version counted up, its updater the actor), or is unchanged
  if the action registers no transition; every other object is as it was.\<close>

theorem applied_transitions_registered:
  assumes disp: "dispatch db opts w rq = Inr (res, w')" and new: "\<not> res_replayed res"
    and mat: "materialize opts w rq (effect_context_of db w rq) = Inr (created, w1)"
    and ids: "distinct (map obj_id (world_objects w1))"
    and eff: "map_of (effects opts) (rq_action_type rq) = None"
    and def: "load_definition db (rq_action_type rq) = Inr def"
  shows "list_all2 (\<lambda>r r'. obj_id r' = obj_id r \<and>
       (if obj_id r \<in> set (res_objects res) then legal_move (rq_actor rq) def r r' else r' = r))
     (world_objects w1) (world_objects w')"
proof -
  obtain d def' st w1' w2 where admit: "admit_request db opts w rq = Inr (d, def')"
    and prep: "prepare_action_state db opts w rq def' (effect_context_of db w rq) = Inr (st, w1')"
    and st: "st_targets st = res_objects res"
    and app: "apply_action opts w1' rq d st (effect_context_of db w rq) = Inr w2"
    and aud: "append_audit_event (svc_sha db) w2 (audit_input rq st (effect_context_of db w rq)) = Inr (res_audit res, w')"
    by (rule applied_state [OF disp new])
  note facts = prepare_ok [OF prep]
  have w1': "w1' = w1" using facts mat by auto
  have "Inr def' = (Inr def :: thrown + action_definition)"
    using admitted_definition [OF admit] def by simp
  then have def': "def' = def" by simp
  let ?m = "st_transitions st"
  have objs: "st_objects st = sort_key obj_id (select_objects db w1 rq (st_targets st))"
    and len: "length (st_objects st) = length (st_targets st)"
    and res_ok: "resolve_transitions rq def [] (st_objects st) = Inr ?m"
    using facts unfolding w1' def' by blast+
  from locked_targets [OF ids objs len] have targets: "distinct (st_targets st)"
    "map obj_id (st_objects st) = sort (st_targets st)" by blast+
  then have dist: "distinct (map obj_id (st_objects st))" by simp
  have named: "obj_id ` set (st_objects st) = set (st_targets st)"
    using targets(2) by (metis set_map set_sort)
  note trans = resolve_transitions_map [OF res_ok dist]
  have "distinct (map fst ?m)" by (rule resolve_transitions_distinct [OF res_ok]) simp
  then have "world_objects w' = map (moved (rq_actor rq) ?m) (world_objects w1)"
    using app aud eff by (auto simp: apply_action_def append_audit_event_eq w1' Let_def fold_move_object
        split: if_splits)
  moreover have "legal_move (rq_actor rq) def r (moved (rq_actor rq) ?m r)"
    if r: "r \<in> set (world_objects w1)" "obj_id r \<in> set (st_targets st)" for r
  proof -
    obtain s where s: "s \<in> set (st_objects st)" "obj_id s = obj_id r"
      using r(2) named by (metis imageE)
    then have "s \<in> set (world_objects w1)" by (simp add: objs select_objects_def)
    with s(2) r(1) ids have "s = r" by (metis inj_onD distinct_map)
    with s(1) trans obtain to where to: "resolve_transition rq def r = Inr to"
      "map_of ?m (obj_id r) = (case to of None \<Rightarrow> map_of [] (obj_id r) | Some s \<Rightarrow> Some s)" by blast
    from to(2) have "map_of ?m (obj_id r) = to" by (cases to) simp_all
    then show ?thesis by (rule resolve_transition_legal [OF to(1)])
  qed
  moreover have "moved (rq_actor rq) ?m r = r" if "obj_id r \<notin> set (st_targets st)" for r
    using trans that named by (simp add: moved_def)
  ultimately show ?thesis by (auto simp: list_all2_conv_all_nth st)
qed

theorem applied_transitions_registered_witness:
  "\<exists>res w' r. dispatch sample_services sample_resolved sample_world (sample_request [''o1'']) = Inr (res, w') \<and>
     world_objects w' = [r] \<and> lifecycle_state r = ''approved'' \<and> row_version r = 2"
proof -
  obtain res w' where d: "dispatch sample_services sample_resolved sample_world (sample_request [''o1'']) = Inr (res, w')"
    and new: "\<not> res_replayed res" and objs: "res_objects res = [''o1'']"
    using sample_dispatch by blast
  have mat: "materialize sample_resolved sample_world (sample_request [''o1''])
      (effect_context_of sample_services sample_world (sample_request [''o1''])) = Inr ([], sample_world)"
    by (simp add: materialize_def resolve_dispatcher_options_def sample_options_def or_default_def)
  obtain def where def: "load_definition sample_services (rq_action_type (sample_request [''o1''])) = Inr def"
    and trs: "def_transitions def = [\<lparr>tr_machine = ''invoice'', tr_from = ''draft'', tr_to = ''approved''\<rparr>]"
    by (simp add: load_definition_def sample_services_def sample_services_with_def sample_request_def)
  from applied_transitions_registered [OF d new mat _ _ def] objs
  show ?thesis
    using d trs by (auto simp: sample_world_def sample_object_def resolve_dispatcher_options_def
        sample_options_def or_default_def legal_move_def list_all2_Cons1)
qed

text \<open>C7: Separation of duty and optimistic locking hold of every applied act: no object it targets
  was created by its actor where the action's rule restricts the object's type (or every type), and
  an expected version is the version of every target the act did not create.\<close>

theorem applied_duty_and_version:
  assumes disp: "dispatch db opts w rq = Inr (res, w')" and new: "\<not> res_replayed res"
    and mat: "materialize opts w rq (effect_context_of db w rq) = Inr (created, w1)"
    and ids: "distinct (map obj_id (world_objects w1))"
    and r: "r \<in> set (world_objects w1)" "obj_id r \<in> set (res_objects res)"
  shows "(\<forall>restricted. map_of (separation_of_duty opts) (rq_action_type rq) = Some restricted \<longrightarrow>
       restricted = [] \<or> obj_type r \<in> set restricted \<longrightarrow> created_by r \<noteq> rq_actor rq) \<and>
     (\<forall>v. rq_expected_version rq = Some v \<longrightarrow> obj_id r \<notin> set created \<longrightarrow> row_version r = v)"
proof -
  obtain d def st w1' where prep: "prepare_action_state db opts w rq def (effect_context_of db w rq) = Inr (st, w1')"
    and st: "st_targets st = res_objects res"
    by (rule applied_state [OF disp new])
  note facts = prepare_ok [OF prep]
  have w1': "w1' = w1" "st_created st = created" using facts mat by auto
  have objs: "st_objects st = sort_key obj_id (select_objects db w1 rq (st_targets st))"
    and len: "length (st_objects st) = length (st_targets st)"
    and ver: "assert_expected_version (rq_expected_version rq) (st_objects st) created = Inr ()"
    and sod: "assert_separation_of_duty rq (st_objects st) (separation_of_duty opts) = Inr ()"
    using facts unfolding w1' by blast+
  have named: "obj_id ` set (st_objects st) = set (st_targets st)"
    using locked_targets [OF ids objs len] by (metis set_map set_sort)
  then obtain s where s: "s \<in> set (st_objects st)" "obj_id s = obj_id r"
    using r(2) st by (metis imageE)
  then have "s \<in> set (world_objects w1)" by (simp add: objs select_objects_def)
  with s(2) r(1) ids have "s = r" by (metis inj_onD distinct_map)
  with s(1) have "r \<in> set (st_objects st)" by simp
  then show ?thesis
    using ver sod by (auto simp: expected_version_ok assert_separation_of_duty_def separation_check_ok)
qed

theorem applied_duty_and_version_witness:
  "\<exists>res w'. dispatch sample_services sample_resolved sample_world (sample_request [''o1'']) = Inr (res, w') \<and>
     created_by sample_object \<noteq> ''bob'' \<and> row_version sample_object = 1"
proof -
  obtain res w' where d: "dispatch sample_services sample_resolved sample_world (sample_request [''o1'']) = Inr (res, w')"
    and new: "\<not> res_replayed res" and objs: "res_objects res = [''o1'']"
    using sample_dispatch by blast
  have mat: "materialize sample_resolved sample_world (sample_request [''o1''])
      (effect_context_of sample_services sample_world (sample_request [''o1''])) = Inr ([], sample_world)"
    by (simp add: materialize_def resolve_dispatcher_options_def sample_options_def or_default_def)
  have "obj_id sample_object \<in> set (res_objects res)" by (simp add: objs sample_object_def)
  moreover have "map_of (separation_of_duty sample_resolved) ''approve_invoice'' = Some [''invoice'']"
    by (simp add: resolve_dispatcher_options_def sample_options_def or_default_def DEFAULT_SEPARATION_OF_DUTY_def)
  ultimately show ?thesis
    using applied_duty_and_version [OF d new mat, of sample_object] d
    by (auto simp: sample_world_def sample_request_def) (auto simp: sample_object_def)
qed

section \<open>Refusals\<close>

text \<open>A required reason carries information: it is accepted exactly when, trimmed, it has at
  least eight characters and, white space and case aside, at least three different ones; so one or
  two characters repeated, however long, are refused.\<close>

theorem required_reason_meaningful:
  "assert_reason_present rq required = Inr () \<longleftrightarrow>
     (rq_action_type rq \<in> set required \<longrightarrow>
       (\<exists>reason. rq_reason rq = Some reason \<and> 8 \<le> length (trim reason) \<and>
          3 \<le> card (distinct_characters (trim reason))))"
  by (simp add: assert_reason_present_def meaningful_reason_iff)

theorem required_reason_meaningful_witness:
  "assert_reason_present (sample_request [] \<lparr>rq_action_type := ''verify_record'', rq_reason := Some ''checked it''\<rparr>)
     DEFAULT_REASON_REQUIRED = Inr () \<and>
   assert_reason_present (sample_request [] \<lparr>rq_action_type := ''verify_record'', rq_reason := Some ''xXxXxXxXxX''\<rparr>)
     DEFAULT_REASON_REQUIRED \<noteq> Inr ()"
proof -
  have "8 \<le> length (trim ''checked it'') \<and> 3 \<le> card (distinct_characters (trim ''checked it''))" by code_simp
  moreover have "card (distinct_characters (trim ''xXxXxXxXxX'')) = 1" by code_simp
  ultimately show ?thesis
    unfolding required_reason_meaningful by (simp add: DEFAULT_REASON_REQUIRED_def)
qed

end
