(* ===== verification/Action_Composition.thy ===== *)
theory Action_Composition
  imports Kernel_Properties
begin

text \<open>
  Composing action atoms into one dispatcher (\<open>packages/orchestrator/src/index.ts\<close>): who owns an
  action type, which group's handlers run for it, and the refusal of ambiguous ownership. A group
  is identified by its position in the composed list; two positions never share an action, so this
  is the identity of the group objects.
\<close>

record 'x action_atoms =
  at_name :: string
  at_owned :: "string list"
  at_materializers :: "(string \<times> 'x materializer) list option"
  at_effects :: "(string \<times> 'x action_effect) list option"
  at_preconditions :: "(string \<times> 'x precondition_check) list option"
  at_receipts :: "(string \<times> 'x receipt_reader) list option"

datatype compose_error =
    Empty_action_id string
  | Owned_twice string string string
  | Handler_unowned string string
  | Handler_foreign string string string

type_synonym owners = "(string \<times> nat) list"

section \<open>Ownership\<close>

text \<open>The inner loop of \<open>collectOwners\<close>, over the actions of the group at position \<open>i\<close>.\<close>

fun own_actions :: "string list \<Rightarrow> string \<Rightarrow> nat \<Rightarrow> string list \<Rightarrow> owners \<Rightarrow> compose_error + owners" where
  "own_actions names name i [] owners = Inr owners"
| "own_actions names name i (a # as) owners =
     (if trim a = [] then Inl (Empty_action_id name)
      else case map_of owners a of
             Some j \<Rightarrow> Inl (Owned_twice a (names ! j) name)
           | None \<Rightarrow> own_actions names name i as (owners @ [(a, i)]))"

fun collect_from :: "string list \<Rightarrow> nat \<Rightarrow> 'x action_atoms list \<Rightarrow> owners \<Rightarrow> compose_error + owners" where
  "collect_from names i [] owners = Inr owners"
| "collect_from names i (g # gs) owners =
     bindE (own_actions names (at_name g) i (at_owned g) owners) (collect_from names (Suc i) gs)"

definition collect_owners :: "'x action_atoms list \<Rightarrow> compose_error + owners" where
  "collect_owners groups = collect_from (map at_name groups) 0 groups []"

section \<open>Handlers\<close>

fun merge_entries :: "string list \<Rightarrow> owners \<Rightarrow> string \<Rightarrow> nat \<Rightarrow> (string \<times> 'h) list \<Rightarrow> (string \<times> 'h) list \<Rightarrow>
    compose_error + (string \<times> 'h) list" where
  "merge_entries names owners name i [] result = Inr result"
| "merge_entries names owners name i ((a, h) # hs) result =
     (case map_of owners a of
        None \<Rightarrow> Inl (Handler_unowned a name)
      | Some j \<Rightarrow>
          if j \<noteq> i then Inl (Handler_foreign a name (names ! j))
          else merge_entries names owners name i hs (AList.update a h result))"

fun merge_from :: "string list \<Rightarrow> owners \<Rightarrow> ('x action_atoms \<Rightarrow> (string \<times> 'h) list option) \<Rightarrow> nat \<Rightarrow>
    'x action_atoms list \<Rightarrow> (string \<times> 'h) list \<Rightarrow> compose_error + (string \<times> 'h) list" where
  "merge_from names owners select i [] result = Inr result"
| "merge_from names owners select i (g # gs) result =
     bindE (merge_entries names owners (at_name g) i (or_default (select g) []) result)
       (merge_from names owners select (Suc i) gs)"

definition merge_owned_handlers :: "'x action_atoms list \<Rightarrow> owners \<Rightarrow>
    ('x action_atoms \<Rightarrow> (string \<times> 'h) list option) \<Rightarrow> compose_error + (string \<times> 'h) list" where
  "merge_owned_handlers groups owners select = merge_from (map at_name groups) owners select 0 groups []"

definition compose_action_atoms :: "'x action_atoms list \<Rightarrow> compose_error + 'x dispatcher_options" where
  "compose_action_atoms groups =
     bindE (collect_owners groups) (\<lambda>owners.
     bindE (merge_owned_handlers groups owners at_materializers) (\<lambda>ms.
     bindE (merge_owned_handlers groups owners at_effects) (\<lambda>es.
     bindE (merge_owned_handlers groups owners at_preconditions) (\<lambda>ps.
     bindE (merge_owned_handlers groups owners at_receipts) (\<lambda>rs.
     Inr \<lparr>opt_allowed = Some (map fst owners), opt_preconditions = Some ps, opt_materializers = Some ms,
          opt_effects = Some es, opt_receipts = Some rs, opt_separation = None,
          opt_reason_required = None\<rparr>)))))"

section \<open>What composition establishes\<close>

lemma own_actions_ok:
  "own_actions names name i as owners = Inr owners' \<Longrightarrow> distinct (map fst owners) \<Longrightarrow>
     owners' = owners @ map (\<lambda>a. (a, i)) as \<and> distinct (map fst owners') \<and> (\<forall>a\<in>set as. trim a \<noteq> [])"
proof (induction as arbitrary: owners)
  case (Cons a as)
  then have step: "own_actions names name i as (owners @ [(a, i)]) = Inr owners'" "trim a \<noteq> []"
    "map_of owners a = None"
    by (auto split: if_splits option.splits)
  then have "distinct (map fst (owners @ [(a, i)]))" using Cons.prems(2) by (simp add: map_of_eq_None_iff)
  from Cons.IH [OF step(1) this] have eq: "owners' = (owners @ [(a, i)]) @ map (\<lambda>a. (a, i)) as"
    and d: "distinct (map fst owners')" and rest: "\<forall>a\<in>set as. trim a \<noteq> []" by blast+
  show ?case
  proof (intro conjI)
    show "owners' = owners @ map (\<lambda>a. (a, i)) (a # as)" using eq by simp
    show "distinct (map fst owners')" by (rule d)
    show "\<forall>x\<in>set (a # as). trim x \<noteq> []" using rest step(2) by simp
  qed
qed simp

fun owned_at :: "nat \<Rightarrow> 'x action_atoms list \<Rightarrow> owners" where
  "owned_at i [] = []"
| "owned_at i (g # gs) = map (\<lambda>a. (a, i)) (at_owned g) @ owned_at (Suc i) gs"

lemma collect_from_ok:
  "collect_from names i gs owners = Inr owners' \<Longrightarrow> distinct (map fst owners) \<Longrightarrow>
     owners' = owners @ owned_at i gs \<and> distinct (map fst owners')"
proof (induction gs arbitrary: i owners)
  case (Cons g gs)
  then obtain os where os: "own_actions names (at_name g) i (at_owned g) owners = Inr os"
    and rest: "collect_from names (Suc i) gs os = Inr owners'"
    by (auto simp: bindE_eq_Inr)
  from own_actions_ok [OF os Cons.prems(2)] have o: "os = owners @ map (\<lambda>a. (a, i)) (at_owned g)"
    "distinct (map fst os)" by blast+
  from Cons.IH [OF rest o(2)] have "owners' = os @ owned_at (Suc i) gs" and d: "distinct (map fst owners')"
    by blast+
  then have "owners' = owners @ owned_at i (g # gs)" by (simp add: o(1))
  with d show ?case by (rule conjI [rotated])
qed simp

lemma owned_at_position:
  "(a, j) \<in> set (owned_at i gs) \<longleftrightarrow> i \<le> j \<and> j < i + length gs \<and> a \<in> set (at_owned (gs ! (j - i)))"
proof (induction gs arbitrary: i)
  case (Cons g gs)
  have "(a, j) \<in> set (owned_at i (g # gs)) \<longleftrightarrow> (j = i \<and> a \<in> set (at_owned g)) \<or> (a, j) \<in> set (owned_at (Suc i) gs)"
    by auto
  also have "\<dots> \<longleftrightarrow> i \<le> j \<and> j < i + length (g # gs) \<and> a \<in> set (at_owned ((g # gs) ! (j - i)))"
    unfolding Cons.IH by (cases "j = i") (auto simp: nth_Cons' Suc_diff_Suc le_less Suc_le_eq)
  finally show ?case .
qed simp

lemma merge_entries_ok:
  "merge_entries names owners name i hs result = Inr m \<Longrightarrow> distinct (map fst hs) \<Longrightarrow>
     (\<forall>a. map_of m a = (case map_of hs a of Some h \<Rightarrow> Some h | None \<Rightarrow> map_of result a)) \<and>
     (\<forall>a \<in> fst ` set hs. map_of owners a = Some i)"
proof (induction hs arbitrary: result)
  case (Cons p hs)
  obtain a h where p: "p = (a, h)" by (cases p)
  with Cons.prems have own: "map_of owners a = Some i"
    and rest: "merge_entries names owners name i hs (AList.update a h result) = Inr m"
    and d: "distinct (map fst hs)" and fresh: "map_of hs a = None"
    by (auto split: option.splits if_splits simp: map_of_eq_None_iff)
  note IH = Cons.IH [OF rest d]
  have "map_of m x = (case map_of (p # hs) x of Some h \<Rightarrow> Some h | None \<Rightarrow> map_of result x)" for x
    using IH fresh by (cases "map_of hs x"; cases "x = a") (simp_all add: p AList.update_conv')
  with IH own p show ?case by auto
qed simp

definition handlers_of :: "('x action_atoms \<Rightarrow> (string \<times> 'h) list option) \<Rightarrow> 'x action_atoms \<Rightarrow> string \<Rightarrow> 'h option" where
  "handlers_of select g = map_of (or_default (select g) [])"

lemma merge_from_ok:
  "merge_from names owners select i gs result = Inr m \<Longrightarrow>
     (\<forall>g\<in>set gs. distinct (map fst (or_default (select g) []))) \<Longrightarrow>
     (\<forall>a. map_of result a \<noteq> None \<longrightarrow> (\<exists>j<i. map_of owners a = Some j)) \<Longrightarrow>
     map_of m a =
       (case map_of owners a of
          None \<Rightarrow> None
        | Some j \<Rightarrow> if j < i then map_of result a
                   else if j < i + length gs then handlers_of select (gs ! (j - i)) a else None)"
proof (induction gs arbitrary: i result)
  case Nil
  then show ?case by (cases "map_of result a") (auto split: option.splits)
next
  case (Cons g gs)
  then obtain r where r: "merge_entries names owners (at_name g) i (or_default (select g) []) result = Inr r"
    and rest: "merge_from names owners select (Suc i) gs r = Inr m"
    by (auto simp: bindE_eq_Inr)
  have "distinct (map fst (or_default (select g) []))" using Cons.prems(2) by simp
  note merged = merge_entries_ok [OF r this]
  have look: "map_of r x = (case handlers_of select g x of Some h \<Rightarrow> Some h | None \<Rightarrow> map_of result x)" for x
    using merged by (simp add: handlers_of_def)
  have own: "map_of owners x = Some i" if h: "handlers_of select g x \<noteq> None" for x
  proof -
    have "x \<in> fst ` set (or_default (select g) [])"
      using h by (metis handlers_of_def map_of_eq_None_iff)
    with merged show ?thesis by blast
  qed
  have "\<exists>j<Suc i. map_of owners x = Some j" if "map_of r x \<noteq> None" for x
  proof (cases "handlers_of select g x")
    case None
    with that look [of x] have "map_of result x \<noteq> None" by simp
    with Cons.prems(3) show ?thesis using less_SucI by blast
  next
    case (Some h)
    with own [of x] show ?thesis by auto
  qed
  then have IH: "map_of m a = (case map_of owners a of None \<Rightarrow> None
      | Some j \<Rightarrow> if j < Suc i then map_of r a
                 else if j < Suc i + length gs then handlers_of select (gs ! (j - Suc i)) a else None)"
    by (intro Cons.IH [OF rest]) (use Cons.prems(2) in auto)
  show ?case
  proof (cases "map_of owners a")
    case None
    with IH show ?thesis by simp
  next
    case (Some j)
    consider "j < i" | "j = i" | "i < j" by linarith
    then show ?thesis
    proof cases
      case 1
      then have "handlers_of select g a = None" using own [of a] Some by (cases "handlers_of select g a") auto
      with 1 IH Some look [of a] show ?thesis by simp
    next
      case 2
      with Cons.prems(3) Some have "map_of result a = None" by (cases "map_of result a") auto
      with 2 IH Some look [of a] show ?thesis by (cases "handlers_of select g a") simp_all
    next
      case 3
      then obtain k where "j = Suc (i + k)" by (auto simp: less_iff_Suc_add)
      with IH Some show ?thesis by simp
    qed
  qed
qed

lemma composed_owners:
  assumes "collect_owners groups = Inr owners"
  shows "map_of owners a = Some j \<longleftrightarrow> j < length groups \<and> a \<in> set (at_owned (groups ! j))"
    and "fst ` set owners = (\<Union>g\<in>set groups. set (at_owned g))"
proof -
  have c: "owners = [] @ owned_at 0 groups \<and> distinct (map fst owners)"
    by (rule collect_from_ok [OF assms [unfolded collect_owners_def]]) simp
  then have o: "owners = owned_at 0 groups" by simp
  from c have "distinct (map fst owners)" by blast
  then have "map_of owners a = Some j \<longleftrightarrow> (a, j) \<in> set owners" by simp
  then show "map_of owners a = Some j \<longleftrightarrow> j < length groups \<and> a \<in> set (at_owned (groups ! j))"
    by (simp only: o owned_at_position) simp
  show "fst ` set owners = (\<Union>g\<in>set groups. set (at_owned g))"
  proof (intro set_eqI iffI)
    fix x
    assume "x \<in> fst ` set owners"
    then obtain j where "(x, j) \<in> set (owned_at 0 groups)" using o by auto
    then show "x \<in> (\<Union>g\<in>set groups. set (at_owned g))" by (auto simp: owned_at_position)
  next
    fix x
    assume "x \<in> (\<Union>g\<in>set groups. set (at_owned g))"
    then obtain g where "g \<in> set groups" "x \<in> set (at_owned g)" by blast
    then obtain j where "j < length groups" "x \<in> set (at_owned (groups ! j))" by (metis in_set_conv_nth)
    then have "(x, j) \<in> set (owned_at 0 groups)" by (simp add: owned_at_position)
    then show "x \<in> fst ` set owners" using o by force
  qed
qed

definition distinct_handlers :: "'x action_atoms \<Rightarrow> bool" where
  "distinct_handlers g \<longleftrightarrow>
     distinct (map fst (or_default (at_materializers g) [])) \<and> distinct (map fst (or_default (at_effects g) [])) \<and>
     distinct (map fst (or_default (at_preconditions g) [])) \<and> distinct (map fst (or_default (at_receipts g) []))"

lemma composed_lookup:
  assumes "collect_owners groups = Inr owners" and "merge_owned_handlers groups owners select = Inr m"
    and "\<forall>g\<in>set groups. distinct (map fst (or_default (select g) []))"
  shows "map_of m a = Some h \<longleftrightarrow> (\<exists>g\<in>set groups. a \<in> set (at_owned g) \<and> handlers_of select g a = Some h)"
proof -
  note own = composed_owners(1) [OF assms(1)]
  have look: "map_of m a = (case map_of owners a of None \<Rightarrow> None
      | Some j \<Rightarrow> if j < length groups then handlers_of select (groups ! j) a else None)"
    using merge_from_ok [OF assms(2) [unfolded merge_owned_handlers_def] assms(3), of a]
    by (cases "map_of owners a") simp_all
  show ?thesis
  proof
    assume "map_of m a = Some h"
    with look obtain j where "map_of owners a = Some j" "j < length groups" "handlers_of select (groups ! j) a = Some h"
      by (auto split: option.splits if_splits)
    with own show "\<exists>g\<in>set groups. a \<in> set (at_owned g) \<and> handlers_of select g a = Some h" by force
  next
    assume "\<exists>g\<in>set groups. a \<in> set (at_owned g) \<and> handlers_of select g a = Some h"
    then obtain g where "g \<in> set groups" "a \<in> set (at_owned g)" "handlers_of select g a = Some h" by blast
    then obtain j where j: "j < length groups" "a \<in> set (at_owned (groups ! j))" "handlers_of select (groups ! j) a = Some h"
      by (metis in_set_conv_nth)
    then have "map_of owners a = Some j" using own by blast
    with j look show "map_of m a = Some h" by simp
  qed
qed

lemma compose_parts:
  assumes "compose_action_atoms groups = Inr options"
  obtains owners ms es ps rs where "collect_owners groups = Inr owners"
    "merge_owned_handlers groups owners at_materializers = Inr ms"
    "merge_owned_handlers groups owners at_effects = Inr es"
    "merge_owned_handlers groups owners at_preconditions = Inr ps"
    "merge_owned_handlers groups owners at_receipts = Inr rs"
    "opt_allowed options = Some (map fst owners)" "opt_materializers options = Some ms"
    "opt_effects options = Some es" "opt_preconditions options = Some ps" "opt_receipts options = Some rs"
  using assms that by (auto simp: compose_action_atoms_def bindE_eq_Inr)

section \<open>Properties\<close>

text \<open>C28: Ownership is unambiguous. When composition succeeds, no action type is owned by two groups,
  the dispatcher admits exactly the owned action types, and for every action type the
  materializer, effect, check and receipt reader that run are the ones its owning group declares.\<close>

theorem composition_unambiguous:
  assumes "compose_action_atoms groups = Inr options" and "\<forall>g\<in>set groups. distinct_handlers g"
  shows "(\<forall>i j a. i < length groups \<and> j < length groups \<and> a \<in> set (at_owned (groups ! i)) \<and>
       a \<in> set (at_owned (groups ! j)) \<longrightarrow> i = j) \<and>
     (\<exists>as. opt_allowed options = Some as \<and> set as = (\<Union>g\<in>set groups. set (at_owned g))) \<and>
     (\<forall>a m. map_of (or_default (opt_materializers options) []) a = Some m \<longleftrightarrow>
        (\<exists>g\<in>set groups. a \<in> set (at_owned g) \<and> handlers_of at_materializers g a = Some m)) \<and>
     (\<forall>a e. map_of (or_default (opt_effects options) []) a = Some e \<longleftrightarrow>
        (\<exists>g\<in>set groups. a \<in> set (at_owned g) \<and> handlers_of at_effects g a = Some e)) \<and>
     (\<forall>a p. map_of (or_default (opt_preconditions options) []) a = Some p \<longleftrightarrow>
        (\<exists>g\<in>set groups. a \<in> set (at_owned g) \<and> handlers_of at_preconditions g a = Some p)) \<and>
     (\<forall>a r. map_of (or_default (opt_receipts options) []) a = Some r \<longleftrightarrow>
        (\<exists>g\<in>set groups. a \<in> set (at_owned g) \<and> handlers_of at_receipts g a = Some r))"
proof (rule compose_parts [OF assms(1)])
  fix owners ms es ps rs
  assume owners: "collect_owners groups = Inr owners"
    and merged: "merge_owned_handlers groups owners at_materializers = Inr ms"
      "merge_owned_handlers groups owners at_effects = Inr es"
      "merge_owned_handlers groups owners at_preconditions = Inr ps"
      "merge_owned_handlers groups owners at_receipts = Inr rs"
    and options: "opt_allowed options = Some (map fst owners)" "opt_materializers options = Some ms"
      "opt_effects options = Some es" "opt_preconditions options = Some ps" "opt_receipts options = Some rs"
  have "i = j" if "i < length groups" "j < length groups" "a \<in> set (at_owned (groups ! i))"
    "a \<in> set (at_owned (groups ! j))" for i j a
  proof -
    have "map_of owners a = Some i" "map_of owners a = Some j"
      using that composed_owners(1) [OF owners] by blast+
    then show ?thesis by simp
  qed
  then have unique: "\<forall>i j a. i < length groups \<and> j < length groups \<and> a \<in> set (at_owned (groups ! i)) \<and>
       a \<in> set (at_owned (groups ! j)) \<longrightarrow> i = j" by blast
  have allowed: "\<exists>as. opt_allowed options = Some as \<and> set as = (\<Union>g\<in>set groups. set (at_owned g))"
    by (simp add: options composed_owners(2) [OF owners])
  have d: "\<forall>g\<in>set groups. distinct (map fst (or_default (at_materializers g) []))"
    "\<forall>g\<in>set groups. distinct (map fst (or_default (at_effects g) []))"
    "\<forall>g\<in>set groups. distinct (map fst (or_default (at_preconditions g) []))"
    "\<forall>g\<in>set groups. distinct (map fst (or_default (at_receipts g) []))"
    using assms(2) unfolding distinct_handlers_def by blast+
  note look = composed_lookup [OF owners merged(1) d(1)] composed_lookup [OF owners merged(2) d(2)]
    composed_lookup [OF owners merged(3) d(3)] composed_lookup [OF owners merged(4) d(4)]
  show ?thesis
    by (intro conjI unique allowed; unfold options or_default_def option.case; intro allI; rule look)
qed

definition sample_atoms :: "string \<Rightarrow> string list \<Rightarrow> unit action_atoms" where
  "sample_atoms name owned =
     \<lparr>at_name = name, at_owned = owned, at_materializers = None,
      at_effects = Some (map (\<lambda>a. (a, \<lambda>w rq objs ctx. Inr w)) owned), at_preconditions = None, at_receipts = None\<rparr>"

theorem composition_unambiguous_witness:
  "\<exists>options :: unit dispatcher_options. \<exists>as.
     compose_action_atoms [sample_atoms ''a'' [''x''], sample_atoms ''b'' [''y'']] = Inr options \<and>
     opt_allowed options = Some as \<and> set as = {''x'', ''y''}"
proof -
  let ?gs = "[sample_atoms ''a'' [''x''], sample_atoms ''b'' [''y'']]"
  have t: "trim ''x'' \<noteq> []" "trim ''y'' \<noteq> []" by code_simp+
  obtain options where c: "compose_action_atoms ?gs = Inr options"
    using t by (simp add: compose_action_atoms_def collect_owners_def merge_owned_handlers_def
        sample_atoms_def or_default_def)
  have "\<forall>g\<in>set ?gs. distinct_handlers g" by (simp add: distinct_handlers_def sample_atoms_def or_default_def)
  with composition_unambiguous [OF c] c show ?thesis by (fastforce simp: sample_atoms_def)
qed

text \<open>The order of the groups does not choose a handler. Two successful compositions of the same
  groups, however ordered, admit the same actions and run the same handlers for each.\<close>

theorem composition_order_irrelevant:
  assumes "compose_action_atoms groups = Inr options" and "compose_action_atoms groups' = Inr options'"
    and "set groups = set groups'" and "\<forall>g\<in>set groups. distinct_handlers g"
  shows "set (the (opt_allowed options)) = set (the (opt_allowed options')) \<and>
    map_of (or_default (opt_materializers options) []) = map_of (or_default (opt_materializers options') []) \<and>
    map_of (or_default (opt_effects options) []) = map_of (or_default (opt_effects options') []) \<and>
    map_of (or_default (opt_preconditions options) []) = map_of (or_default (opt_preconditions options') []) \<and>
    map_of (or_default (opt_receipts options) []) = map_of (or_default (opt_receipts options') [])"
proof (rule compose_parts [OF assms(1)], rule compose_parts [OF assms(2)])
  fix owners ms es ps rs owners' ms' es' ps' rs'
  assume o: "collect_owners groups = Inr owners" "collect_owners groups' = Inr owners'"
    and m: "merge_owned_handlers groups owners at_materializers = Inr ms"
      "merge_owned_handlers groups owners at_effects = Inr es"
      "merge_owned_handlers groups owners at_preconditions = Inr ps"
      "merge_owned_handlers groups owners at_receipts = Inr rs"
      "merge_owned_handlers groups' owners' at_materializers = Inr ms'"
      "merge_owned_handlers groups' owners' at_effects = Inr es'"
      "merge_owned_handlers groups' owners' at_preconditions = Inr ps'"
      "merge_owned_handlers groups' owners' at_receipts = Inr rs'"
    and opts: "opt_allowed options = Some (map fst owners)" "opt_materializers options = Some ms"
      "opt_effects options = Some es" "opt_preconditions options = Some ps" "opt_receipts options = Some rs"
      "opt_allowed options' = Some (map fst owners')" "opt_materializers options' = Some ms'"
      "opt_effects options' = Some es'" "opt_preconditions options' = Some ps'" "opt_receipts options' = Some rs'"
  have d: "\<forall>g\<in>set groups. distinct_handlers g" "\<forall>g\<in>set groups'. distinct_handlers g"
    using assms(3,4) by simp_all
  have same: "map_of x = map_of y"
    if "\<And>a h. map_of x a = Some h \<longleftrightarrow> (\<exists>g\<in>set groups. P g a h)"
      "\<And>a h. map_of y a = Some h \<longleftrightarrow> (\<exists>g\<in>set groups'. P g a h)" for x y :: "(string \<times> 'h) list" and P
  proof
    fix a
    show "map_of x a = map_of y a"
      using that [of a] assms(3) by (metis not_None_eq)
  qed
  have "map_of ms = map_of ms'"
    by (rule same [OF composed_lookup [OF o(1) m(1)] composed_lookup [OF o(2) m(5)]])
       (use d in \<open>simp_all add: distinct_handlers_def\<close>)
  moreover have "map_of es = map_of es'"
    by (rule same [OF composed_lookup [OF o(1) m(2)] composed_lookup [OF o(2) m(6)]])
       (use d in \<open>simp_all add: distinct_handlers_def\<close>)
  moreover have "map_of ps = map_of ps'"
    by (rule same [OF composed_lookup [OF o(1) m(3)] composed_lookup [OF o(2) m(7)]])
       (use d in \<open>simp_all add: distinct_handlers_def\<close>)
  moreover have "map_of rs = map_of rs'"
    by (rule same [OF composed_lookup [OF o(1) m(4)] composed_lookup [OF o(2) m(8)]])
       (use d in \<open>simp_all add: distinct_handlers_def\<close>)
  ultimately show ?thesis
    using composed_owners(2) [OF o(1)] composed_owners(2) [OF o(2)] assms(3)
    by (simp add: opts or_default_def)
qed

theorem composition_order_irrelevant_witness:
  "\<exists>o1 o2 :: unit dispatcher_options.
     compose_action_atoms [sample_atoms ''a'' [''x''], sample_atoms ''b'' [''y'']] = Inr o1 \<and>
     compose_action_atoms [sample_atoms ''b'' [''y''], sample_atoms ''a'' [''x'']] = Inr o2 \<and>
     map_of (or_default (opt_effects o1) []) = map_of (or_default (opt_effects o2) [])"
proof -
  let ?gs = "[sample_atoms ''a'' [''x''], sample_atoms ''b'' [''y'']]"
  let ?gs' = "[sample_atoms ''b'' [''y''], sample_atoms ''a'' [''x'']]"
  have t: "trim ''x'' \<noteq> []" "trim ''y'' \<noteq> []" by code_simp+
  obtain o1 where c: "compose_action_atoms ?gs = Inr o1"
    using t by (simp add: compose_action_atoms_def collect_owners_def merge_owned_handlers_def
        sample_atoms_def or_default_def)
  obtain o2 where c': "compose_action_atoms ?gs' = Inr o2"
    using t by (simp add: compose_action_atoms_def collect_owners_def merge_owned_handlers_def
        sample_atoms_def or_default_def)
  have "\<forall>g\<in>set ?gs. distinct_handlers g" by (simp add: distinct_handlers_def sample_atoms_def or_default_def)
  with composition_order_irrelevant [OF c c'] c c' show ?thesis by fastforce
qed

text \<open>An action no composed group owns cannot be dispatched: it is refused as \<open>unknown_action\<close>
  before any table is read, even if the registry knows it.\<close>

theorem unowned_action_refused:
  assumes "compose_action_atoms groups = Inr options" and "\<forall>g\<in>set groups. rq_action_type rq \<notin> set (at_owned g)"
  shows "\<exists>message detail. dispatch db (resolve_dispatcher_options options) w rq = reject Unknown_action message detail"
proof (rule compose_parts [OF assms(1)])
  fix owners
  assume "collect_owners groups = Inr owners" and "opt_allowed options = Some (map fst owners)"
  moreover from this have "rq_action_type rq \<notin> fst ` set owners"
    using composed_owners(2) assms(2) by blast
  ultimately show ?thesis
    by (auto simp: dispatch_def admit_request_def assert_action_available_def resolve_dispatcher_options_def)
qed

theorem unowned_action_refused_witness:
  "\<exists>options :: unit dispatcher_options. \<exists>message detail.
     compose_action_atoms [sample_atoms ''a'' [''x'']] = Inr options \<and>
     dispatch sample_services (resolve_dispatcher_options options) sample_world (sample_request [''o1'']) =
       reject Unknown_action message detail"
proof -
  have "trim ''x'' \<noteq> []" by code_simp
  then obtain options where c: "compose_action_atoms [sample_atoms ''a'' [''x'']] = Inr options"
    by (simp add: compose_action_atoms_def collect_owners_def merge_owned_handlers_def
        sample_atoms_def or_default_def)
  have "\<forall>g\<in>set [sample_atoms ''a'' [''x'']]. rq_action_type (sample_request [''o1'']) \<notin> set (at_owned g)"
    by (simp add: sample_atoms_def sample_request_def)
  with unowned_action_refused [OF c] c show ?thesis by blast
qed

end
