(* ===== verification/Canonical_Properties.thy ===== *)
theory Canonical_Properties
  imports Action_Laws
begin

text \<open>
  Properties of canonicalization and of the digests taken of canonical bytes, with the sparse
  array that the refusal of undefined elements does not see.
\<close>

text \<open>C15: Canonical bytes determine the datum. Two values without array holes have the same
  canonical bytes exactly when they stand for the same JSON datum (numbers equal as numbers, text
  equal code unit by code unit, objects equal member by member), so a digest of canonical bytes is
  a digest of the datum.\<close>

theorem canonical_bytes_determine_datum:
  assumes "dense v" "shortest v" "dense w" "shortest w" and "canonical_bytes v = Inr b"
  shows "canonical_bytes w = Inr b \<longleftrightarrow> (\<exists>d. denote v [] = Inr d \<and> denote w [] = Inr d)"
proof
  assume "canonical_bytes w = Inr b"
  with canonical_bytes_inject [OF assms(1-5)] show "\<exists>d. denote v [] = Inr d \<and> denote w [] = Inr d" by blast
next
  assume "\<exists>d. denote v [] = Inr d \<and> denote w [] = Inr d"
  then obtain d where d: "denote v [] = Inr d" "denote w [] = Inr d" by blast
  with canonical_bytes_denote [OF assms(1)] assms(5) have "b = utf8 (render d)" by auto
  with d canonical_bytes_denote [OF assms(3)] show "canonical_bytes w = Inr b" by blast
qed

theorem canonical_bytes_determine_datum_witness:
  "\<exists>b. canonical_bytes (JObj [(units ''b'', JNull), (units ''a'', JNum (Finite False 15 1))]) = Inr b \<and>
     canonical_bytes (JInst (JObj [(units ''a'', JNum (Finite False 15 1)), (units ''b'', JNull), (units ''c'', JUndefined)])) = Inr b"
proof -
  let ?v = "JObj [(units ''b'', JNull), (units ''a'', JNum (Finite False 15 1))]"
  let ?w = "JInst (JObj [(units ''a'', JNum (Finite False 15 1)), (units ''b'', JNull), (units ''c'', JUndefined)])"
  let ?d = "DObj [(units ''a'', DNum False 15 1), (units ''b'', DNull)]"
  have "units ''a'' \<le> units ''b''" "\<not> units ''b'' \<le> units ''a''" "units ''b'' \<le> units ''c''"
    by code_simp+
  then have d: "denote ?v [] = Inr ?d" "denote ?w [] = Inr ?d"
    by (simp_all add: assert_unicode_def units_scalar)
  have fine: "dense ?v" "shortest ?v" "dense ?w" "shortest ?w" by simp_all
  have "canonical_bytes ?v = Inr (utf8 (render ?d))"
    using canonical_bytes_denote [OF fine(1)] d(1) by blast
  with canonical_bytes_determine_datum [OF fine this] d show ?thesis by blast
qed

text \<open>The order in which an object's members were created is invisible: permuting them changes
  neither the canonical text nor the error, at any depth the object occurs.\<close>

theorem member_order_invisible:
  assumes "distinct (map fst ps)" and "mset ps = mset qs"
  shows "serialize (JObj ps) path = serialize (JObj qs) path"
proof -
  have "map_of ps = map_of qs"
    using assms by (metis map_of_eqI mset_eq_setD map_of_inject_set mset_eq_imp_distinct_iff mset_map)
  then show ?thesis by (simp only: serialize.simps sort_key_permutation [OF assms])
qed

theorem member_order_invisible_witness:
  "serialize (JObj [(units ''a'', JBigint 1), (units ''b'', JNull)]) (units ''x'') =
   serialize (JObj [(units ''b'', JNull), (units ''a'', JBigint 1)]) (units ''x'')"
  by (rule member_order_invisible) (simp_all add: add_mset_commute)

text \<open>C29: A format tag separates domains. Take two plain objects without holes in their arrays and
  without a function under \<open>toJSON\<close> (which would replace the tagged object), each with its keys once,
  and let SHA-256 not collide on their two preimages. If the two have the same tagged digest, then it
  was taken under the same tag and of the same data; and neither digest exists for \<open>fields\<close> that carry
  a \<open>format\<close> of their own.\<close>

theorem tagged_digest_separates:
  assumes "tagged_digest H tag (JObj ps) = Inr d" and "tagged_digest H tag' (JObj qs) = Inr d"
    and "dense (JObj ps)" "shortest (JObj ps)" "dense (JObj qs)" "shortest (JObj qs)"
    and "distinct (map fst ps)" "distinct (map fst qs)"
    and "inj_on H {b. canonical_bytes (tagged_fields tag ps) = Inr b \<or> canonical_bytes (tagged_fields tag' qs) = Inr b}"
    and "\<And>v. map_of ps (units ''toJSON'') \<noteq> Some (JFunction v)" "\<And>v. map_of qs (units ''toJSON'') \<noteq> Some (JFunction v)"
  shows "tag = tag' \<and> denote (tagged_fields tag ps) [] = denote (tagged_fields tag' qs) [] \<and>
    units ''format'' \<notin> fst ` set ps \<union> fst ` set qs"
proof -
  obtain b b' where b: "canonical_bytes (tagged_fields tag ps) = Inr b" "d = H b"
    and b': "canonical_bytes (tagged_fields tag' qs) = Inr b'" "d = H b'"
    and own: "units ''format'' \<notin> fst ` set ps" "units ''format'' \<notin> fst ` set qs"
    using assms(1,2) by (auto simp: tagged_digest_def json_digest_def bindE_eq_Inr split: if_splits)
  then have "b = b'" using assms(9) by (auto simp: inj_on_def)
  have fine: "dense (tagged_fields tag ps)" "shortest (tagged_fields tag ps)"
    "dense (tagged_fields tag' qs)" "shortest (tagged_fields tag' qs)"
    using assms(3-6) by (simp_all add: tagged_fields_def)
  obtain v where v: "denote (tagged_fields tag ps) [] = Inr v" "denote (tagged_fields tag' qs) [] = Inr v"
    using canonical_bytes_inject [OF fine b(1) b'(1) [folded \<open>b = b'\<close>]] by blast
  let ?P = "ps @ [(units ''format'', text_value tag)]" and ?Q = "qs @ [(units ''format'', text_value tag')]"
  have key: "distinct (map fst ?P)" "distinct (map fst ?Q)" using assms(7,8) own by auto
  have look: "map_of ?P (units ''format'') = Some (text_value tag)" "map_of ?Q (units ''format'') = Some (text_value tag')"
  proof -
    have "map_of ps (units ''format'') = None" "map_of qs (units ''format'') = None"
      using own by (simp_all add: map_of_eq_None_iff)
    then show "map_of ?P (units ''format'') = Some (text_value tag)" "map_of ?Q (units ''format'') = Some (text_value tag')"
      by (simp_all add: map_of_append map_add_def)
  qed
  have plain: "map_of ?P (units ''toJSON'') \<noteq> Some (JFunction x)" "map_of ?Q (units ''toJSON'') \<noteq> Some (JFunction x)" for x
    using assms(10,11) by (auto simp: map_of_append map_add_def split: option.splits)
  obtain ms where ms: "v = DObj ms"
    using v(1) plain(1) by (auto simp: tagged_fields_def text_value_def bindE_eq_Inr split: option.splits jval.splits)
  note vs = v [unfolded ms tagged_fields_def, folded text_value_def]
  have "DStr (units tag) = DStr (units tag')"
    using denote_object_lookup [OF vs(1) key(1) plain(1) look(1)]
      denote_object_lookup [OF vs(2) key(2) plain(2) look(2)] by simp
  then show ?thesis using v own by simp
qed

text \<open>A digest function without collisions, and one object in two member orders under one tag, then
  under two tags.\<close>

definition byte_sha :: sha256 where
  "byte_sha b = map (\<lambda>w. char_of (unat w)) b"

lemma inj_byte_sha: "inj byte_sha"
proof -
  have "inj (\<lambda>w :: 8 word. char_of (unat w) :: char)"
  proof (rule injI)
    fix v w :: "8 word"
    assume "(char_of (unat v) :: char) = char_of (unat w)"
    then have "unat v mod 256 = unat w mod 256" by (metis of_char_of)
    moreover have "unat v < 256" "unat w < 256" using unsigned_less [of v, where 'a = nat] unsigned_less [of w, where 'a = nat] by simp_all
    ultimately show "v = w" by (simp add: word_unat_eq_iff)
  qed
  then show ?thesis unfolding byte_sha_def by (simp add: inj_mapI)
qed

theorem tagged_digest_separates_witness:
  "let ps = [(units ''a'', JNull), (units ''b'', JBool True)]; qs = [(units ''b'', JBool True), (units ''a'', JNull)] in
   \<exists>d d'. tagged_digest byte_sha ''kf-x-v1'' (JObj ps) = Inr d \<and> tagged_digest byte_sha ''kf-x-v1'' (JObj qs) = Inr d \<and>
     denote (tagged_fields ''kf-x-v1'' ps) [] = denote (tagged_fields ''kf-x-v1'' qs) [] \<and>
     tagged_digest byte_sha ''kf-y-v1'' (JObj qs) = Inr d' \<and> d \<noteq> d'"
proof -
  let ?ps = "[(units ''a'', JNull), (units ''b'', JBool True)]" and ?qs = "[(units ''b'', JBool True), (units ''a'', JNull)]"
  have tags: "is_format_tag ''kf-x-v1''" "is_format_tag ''kf-y-v1''" by code_simp+
  have "\<exists>b. tagged_digest byte_sha tag (JObj vs) = Inr (byte_sha b)" if "is_format_tag tag" "vs = ?ps \<or> vs = ?qs" for tag vs
    using that(2) by (intro tagged_digest_total [OF that(1)]) (auto simp: units_scalar units_inject)
  then obtain b c e where d: "tagged_digest byte_sha ''kf-x-v1'' (JObj ?ps) = Inr (byte_sha b)"
    "tagged_digest byte_sha ''kf-x-v1'' (JObj ?qs) = Inr (byte_sha c)"
    "tagged_digest byte_sha ''kf-y-v1'' (JObj ?qs) = Inr (byte_sha e)"
    using tags by (metis (no_types, lifting))
  let ?tagged = "\<lambda>vs. vs @ [(units ''format'', JStr (units ''kf-x-v1''))]"
  have "serialize (JObj (?tagged ?ps)) [] = serialize (JObj (?tagged ?qs)) []"
    by (rule member_order_invisible) (simp_all add: units_inject add_mset_commute)
  then have "canonical_bytes (tagged_fields ''kf-x-v1'' ?ps) = canonical_bytes (tagged_fields ''kf-x-v1'' ?qs)"
    by (simp only: canonical_bytes_def canonicalize_def tagged_fields_def)
  then have same: "tagged_digest byte_sha ''kf-x-v1'' (JObj ?qs) = Inr (byte_sha b)"
    using d(1) tags(1) by (simp add: tagged_digest_def json_digest_def units_inject)
  have inj: "inj_on byte_sha A" for A using inj_byte_sha by (rule inj_on_subset) simp
  have separates: "tag = tag' \<and> denote (tagged_fields tag ?ps) [] = denote (tagged_fields tag' ?qs) []"
    if "tagged_digest byte_sha tag (JObj ?ps) = Inr x" "tagged_digest byte_sha tag' (JObj ?qs) = Inr x" for tag tag' x
    using tagged_digest_separates [OF that _ _ _ _ _ _ inj] by (fastforce simp: units_inject)
  from separates [OF d(1) same]
  have denoted: "denote (tagged_fields ''kf-x-v1'' ?ps) [] = denote (tagged_fields ''kf-x-v1'' ?qs) []" by (rule conjunct2)
  have different: "byte_sha b \<noteq> byte_sha e"
  proof
    assume "byte_sha b = byte_sha e"
    with d(3) have "tagged_digest byte_sha ''kf-y-v1'' (JObj ?qs) = Inr (byte_sha b)" by (simp only:)
    from separates [OF d(1) this] have "''kf-x-v1'' = ''kf-y-v1''" by (rule conjunct1)
    then show False by simp
  qed
  show ?thesis
    unfolding Let_def
    by (rule exI, rule exI, rule conjI [OF d(1) conjI [OF same conjI [OF denoted conjI [OF d(3) different]]]])
qed

text \<open>The refusal of undefined array elements does not cover holes: a sparse array, which
  \<open>map\<close> does not visit, gets a canonical form, the one of a different value. An array of one hole
  has the bytes of the empty array.\<close>

theorem sparse_array_collides:
  "canonicalize (JArr [None]) = canonicalize (JArr []) \<and>
   canonicalize (JArr [Some JUndefined]) = Inl (Canonicalization_error Undefined_element (units ''[0]'')) \<and>
   (\<exists>e. denote (JArr [None]) [] = Inl e)"
proof -
  have "index_path [] 0 = units ''[0]''" by code_simp
  then show ?thesis by (simp add: canonicalize_def)
qed

end
