(* ===== verification/Damm_Check.thy ===== *)
theory Damm_Check
  imports KF_Prelude
begin

text \<open>
  The Damm check digit and the identifier grammars it closes
  (\<open>packages/ontology-compiler/src/damm.ts\<close>): the table walk, the structural check on a
  table, compiling a registry's grammar, validating an identifier and formatting one.

  A regular expression compiled from the registry's text is the pair of its source and the
  predicate it decides: the registry, not this code, writes it.
\<close>

section \<open>The walk\<close>

definition DAMM_TABLE :: "nat list list" where
  "DAMM_TABLE =
    [[0, 3, 1, 7, 5, 9, 8, 6, 4, 2],
     [7, 0, 9, 2, 1, 5, 4, 8, 6, 3],
     [4, 2, 0, 6, 8, 7, 1, 3, 5, 9],
     [1, 7, 5, 0, 9, 8, 3, 4, 2, 6],
     [6, 1, 2, 3, 0, 4, 5, 9, 7, 8],
     [3, 6, 7, 4, 2, 0, 9, 5, 8, 1],
     [5, 8, 6, 9, 7, 2, 0, 1, 3, 4],
     [8, 9, 4, 5, 3, 6, 2, 0, 1, 7],
     [9, 4, 3, 8, 6, 1, 7, 2, 0, 5],
     [2, 5, 8, 1, 4, 3, 6, 7, 9, 0]]"

definition cell :: "nat list list \<Rightarrow> nat \<Rightarrow> nat \<Rightarrow> nat" where
  "cell table i d = table ! i ! d"

fun damm_walk :: "nat list list \<Rightarrow> nat \<Rightarrow> string \<Rightarrow> string + nat" where
  "damm_walk table interim [] = Inr interim"
| "damm_walk table interim (c # cs) =
     (if \<not> is_digit c then Inl ''contains a non-digit''
      else damm_walk table (cell table interim (char_digit c)) cs)"

definition damm_check :: "string \<Rightarrow> string + nat" where
  "damm_check payload = damm_walk DAMM_TABLE 0 payload"

definition damm_valid :: "string \<Rightarrow> string + bool" where
  "damm_valid payload = bindE (damm_check payload) (\<lambda>c. Inr (c = 0))"

definition is_anti_symmetric_quasigroup :: "nat list list \<Rightarrow> bool" where
  "is_anti_symmetric_quasigroup table \<longleftrightarrow>
     length table = 10 \<and> list_all (\<lambda>r. length r = 10) table \<and>
     list_all (\<lambda>r. sort r = [0..<10]) table \<and>
     list_all (\<lambda>c. sort (map (\<lambda>r. r ! c) table) = [0..<10]) [0..<10] \<and>
     list_all (\<lambda>i. table ! i ! i = 0) [0..<10]"

section \<open>What a table must satisfy to detect errors\<close>

text \<open>
  The interface of a check table: a step on the interim digit that is a permutation in either
  argument. Total anti-symmetry is a further law.
\<close>

locale check_table =
  fixes step :: "nat \<Rightarrow> nat \<Rightarrow> nat"
  assumes closed: "i < 10 \<Longrightarrow> d < 10 \<Longrightarrow> step i d < 10"
    and row_inj: "i < 10 \<Longrightarrow> d < 10 \<Longrightarrow> e < 10 \<Longrightarrow> step i d = step i e \<Longrightarrow> d = e"
    and col_inj: "i < 10 \<Longrightarrow> j < 10 \<Longrightarrow> d < 10 \<Longrightarrow> step i d = step j d \<Longrightarrow> i = j"
begin

lemma walk_closed: "i < 10 \<Longrightarrow> \<forall>d\<in>set ds. d < 10 \<Longrightarrow> foldl step i ds < 10"
  by (induction ds arbitrary: i) (auto intro: closed)

lemma walk_inj:
  "i < 10 \<Longrightarrow> j < 10 \<Longrightarrow> \<forall>d\<in>set ds. d < 10 \<Longrightarrow> foldl step i ds = foldl step j ds \<Longrightarrow> i = j"
proof (induction ds arbitrary: i j)
  case (Cons d ds)
  have d: "d < 10" "\<forall>d\<in>set ds. d < 10" using Cons.prems(3) by simp_all
  have "step i d = step j d"
    by (rule Cons.IH [OF closed [OF Cons.prems(1) d(1)] closed [OF Cons.prems(2) d(1)] d(2)])
       (use Cons.prems(4) in simp)
  with Cons.prems(1,2) d(1) show ?case by (rule col_inj)
qed simp

lemma substitution_detected:
  assumes "\<forall>d\<in>set (xs @ [d, e] @ ys). d < 10" and "d \<noteq> e"
  shows "foldl step 0 (xs @ [d] @ ys) \<noteq> foldl step 0 (xs @ [e] @ ys)"
proof
  assume eq: "foldl step 0 (xs @ [d] @ ys) = foldl step 0 (xs @ [e] @ ys)"
  have i: "foldl step 0 xs < 10" by (rule walk_closed) (use assms(1) in simp_all)
  have d: "d < 10" "e < 10" "\<forall>d\<in>set ys. d < 10" using assms(1) by simp_all
  have "step (foldl step 0 xs) d = step (foldl step 0 xs) e"
    by (rule walk_inj [OF closed [OF i d(1)] closed [OF i d(2)] d(3)]) (use eq in simp)
  with i d(1,2) have "d = e" by (rule row_inj)
  with assms(2) show False ..
qed

end

locale antisymmetric_table = check_table +
  assumes anti: "i < 10 \<Longrightarrow> a < 10 \<Longrightarrow> b < 10 \<Longrightarrow> step (step i a) b = step (step i b) a \<Longrightarrow> a = b"
begin

lemma transposition_detected:
  assumes "\<forall>d\<in>set (xs @ [a, b] @ ys). d < 10" and "a \<noteq> b"
  shows "foldl step 0 (xs @ [a, b] @ ys) \<noteq> foldl step 0 (xs @ [b, a] @ ys)"
proof
  assume eq: "foldl step 0 (xs @ [a, b] @ ys) = foldl step 0 (xs @ [b, a] @ ys)"
  have i: "foldl step 0 xs < 10" by (rule walk_closed) (use assms(1) in simp_all)
  have d: "a < 10" "b < 10" "\<forall>d\<in>set ys. d < 10" using assms(1) by simp_all
  have "step (step (foldl step 0 xs) a) b = step (step (foldl step 0 xs) b) a"
    by (rule walk_inj [OF closed [OF closed [OF i d(1)] d(2)] closed [OF closed [OF i d(2)] d(1)] d(3)])
       (use eq in simp)
  with i d(1,2) have "a = b" by (rule anti)
  with assms(2) show False ..
qed

end

text \<open>A permutation of the ten digits has ten different entries below 10.\<close>

lemma digit_row:
  assumes "sort r = [0..<10]"
  shows "distinct r" and "length r = 10" and "d < 10 \<Longrightarrow> r ! d < 10"
proof -
  have "mset r = mset [0..<10]" by (metis assms mset_sort)
  then show d: "distinct r" and l: "length r = 10"
    by (metis distinct_upt mset_eq_imp_distinct_iff) (metis \<open>mset r = mset [0..<10]\<close> length_upt minus_nat.diff_0 mset_eq_length)
  have "set r = {0..<10}" by (metis assms set_sort set_upt)
  then show "d < 10 \<Longrightarrow> r ! d < 10" using l nth_mem [of d r] by auto
qed

lemma quasigroup_table:
  assumes "is_anti_symmetric_quasigroup table"
  shows "check_table (cell table)"
proof
  have len: "length table = 10" and rows: "\<And>i. i < 10 \<Longrightarrow> sort (table ! i) = [0..<10]"
    and cols: "\<And>c. c < 10 \<Longrightarrow> sort (map (\<lambda>r. r ! c) table) = [0..<10]"
    using assms by (auto simp: is_anti_symmetric_quasigroup_def list_all_length)
  fix i j d e :: nat
  show "i < 10 \<Longrightarrow> d < 10 \<Longrightarrow> cell table i d < 10"
    using digit_row(3) [OF rows] by (simp add: cell_def)
  show "i < 10 \<Longrightarrow> d < 10 \<Longrightarrow> e < 10 \<Longrightarrow> cell table i d = cell table i e \<Longrightarrow> d = e"
    using digit_row(1,2) [OF rows] by (metis cell_def nth_eq_iff_index_eq)
  show "i < 10 \<Longrightarrow> j < 10 \<Longrightarrow> d < 10 \<Longrightarrow> cell table i d = cell table j d \<Longrightarrow> i = j"
    using digit_row(1) [OF cols [of d]] len by (simp add: cell_def distinct_conv_nth) blast
qed

lemma damm_table_checked: "is_anti_symmetric_quasigroup DAMM_TABLE"
  by code_simp

lemma damm_anti:
  assumes "i < 10" "a < 10" "b < 10" "cell DAMM_TABLE (cell DAMM_TABLE i a) b = cell DAMM_TABLE (cell DAMM_TABLE i b) a"
  shows "a = b"
proof -
  have "\<forall>i\<in>set [0..<10]. \<forall>a\<in>set [0..<10]. \<forall>b\<in>set [0..<10].
      cell DAMM_TABLE (cell DAMM_TABLE i a) b = cell DAMM_TABLE (cell DAMM_TABLE i b) a \<longrightarrow> a = b"
    by code_simp
  with assms show ?thesis by simp
qed

interpretation damm: antisymmetric_table "cell DAMM_TABLE"
  by (intro antisymmetric_table.intro quasigroup_table damm_table_checked antisymmetric_table_axioms.intro)
     (rule damm_anti)

lemma damm_walk_digits:
  "list_all is_digit s \<Longrightarrow> damm_walk table i s = Inr (foldl (cell table) i (map char_digit s))"
  by (induction s arbitrary: i) auto

lemma damm_check_digits:
  "list_all is_digit s \<Longrightarrow> damm_check s = Inr (foldl (cell DAMM_TABLE) 0 (map char_digit s))"
  by (simp add: damm_check_def damm_walk_digits)

lemma damm_walk_nondigit: "\<not> list_all is_digit s \<Longrightarrow> \<exists>e. damm_walk table i s = Inl e"
  by (induction s arbitrary: i) auto

section \<open>Identifier grammars\<close>

datatype identifier_kind = Enterprise | Record_kind | Serial

record identifier_verdict =
  verdict_valid :: bool
  verdict_kind :: "identifier_kind option"
  verdict_reason :: "string option"

datatype damm_payload = Sequence | Year_and_sequence

record regex =
  rx_source :: string
  rx_test :: "string \<Rightarrow> bool"

text \<open>One entry of \<open>grammars.yaml\<close>, as parsed.\<close>

record grammar_entry =
  ge_pattern :: "regex option"
  ge_damm_required :: bool
  ge_damm_payload :: string

record compiled_kind =
  ck_kind :: identifier_kind
  ck_pattern :: regex
  ck_payload :: damm_payload

record identifier_grammar =
  gr_prefix :: string
  gr_namespaces :: "string list"
  gr_kinds :: "compiled_kind list"

definition kind_name :: "identifier_kind \<Rightarrow> string" where
  "kind_name k = (case k of Enterprise \<Rightarrow> ''enterprise'' | Record_kind \<Rightarrow> ''record'' | Serial \<Rightarrow> ''serial'')"

definition compile_kind :: "(string \<Rightarrow> grammar_entry option) \<Rightarrow> identifier_kind \<Rightarrow> string + compiled_kind" where
  "compile_kind grammars kind =
     (case grammars (kind_name kind) of
        None \<Rightarrow> Inl (''identifier grammar: '' @ kind_name kind @ '' is not a mapping'')
      | Some g \<Rightarrow>
         (case ge_pattern g of
            None \<Rightarrow> Inl (''identifier grammar: '' @ kind_name kind @ '' has no pattern'')
          | Some pattern \<Rightarrow>
              if \<not> ge_damm_required g
              then Inl (''identifier grammar: '' @ kind_name kind @ '' does not require a Damm digit'')
              else if ge_damm_payload g = ''sequence''
              then Inr \<lparr>ck_kind = kind, ck_pattern = pattern, ck_payload = Sequence\<rparr>
              else if ge_damm_payload g = ''year_and_sequence''
              then Inr \<lparr>ck_kind = kind, ck_pattern = pattern, ck_payload = Year_and_sequence\<rparr>
              else Inl (''identifier grammar: '' @ kind_name kind @ '' damm_payload '' @ ge_damm_payload g @
                     '' is not known'')))"

definition upper_letter :: "char \<Rightarrow> bool" where
  "upper_letter c \<longleftrightarrow> (65::nat) \<le> of_char c \<and> of_char c \<le> (90::nat)"

text \<open>\<open>/^\^([A-Z][A-Z0-9]*-)\(([A-Z|]+)\)-/\<close>: the prefix and the alternation.\<close>

definition enterprise_shape :: "string \<Rightarrow> (string \<times> string) option" where
  "enterprise_shape source =
     (case source of
        start # first # rest \<Rightarrow>
          let middle = takeWhile (\<lambda>c. upper_letter c \<or> is_digit c) rest;
              tail = dropWhile (\<lambda>c. upper_letter c \<or> is_digit c) rest;
              names = takeWhile (\<lambda>c. upper_letter c \<or> c = CHR ''|'') (drop 2 tail);
              end = dropWhile (\<lambda>c. upper_letter c \<or> c = CHR ''|'') (drop 2 tail) in
          if start = CHR 0x5E \<and> upper_letter first \<and> take 2 tail = ''-('' \<and> names \<noteq> [] \<and> take 2 end = '')-''
          then Some (first # middle @ ''-'', names) else None
      | _ \<Rightarrow> None)"

definition compile_grammar :: "(string \<Rightarrow> grammar_entry option) option \<Rightarrow> string + identifier_grammar" where
  "compile_grammar file =
     (case file of
        None \<Rightarrow> Inl ''identifier grammar: grammars is not a mapping''
      | Some grammars \<Rightarrow>
          bindE (compile_kind grammars Enterprise) (\<lambda>enterprise.
          bindE (compile_kind grammars Record_kind) (\<lambda>record_kind.
          bindE (compile_kind grammars Serial) (\<lambda>serial.
          case enterprise_shape (rx_source (ck_pattern enterprise)) of
            None \<Rightarrow> Inl ''identifier grammar: the enterprise pattern does not read as ^<PREFIX>(<NAMESPACES>)-''
          | Some (prefix, names) \<Rightarrow> Inr
              \<lparr>gr_prefix = prefix, gr_namespaces = split_on CHR ''|'' names,
               gr_kinds = [enterprise, record_kind, serial]\<rparr>))))"

text \<open>\<open>parts.at(-n)\<close>; an absent field is the text \<open>undefined\<close> once concatenated.\<close>

definition field_from_end :: "nat \<Rightarrow> string list \<Rightarrow> string" where
  "field_from_end n parts = (if n \<le> length parts then parts ! (length parts - n) else ''undefined'')"

definition payload_digits :: "damm_payload \<Rightarrow> string \<Rightarrow> string" where
  "payload_digits payload ident =
     (let parts = split_on CHR ''-'' ident in
      if payload = Year_and_sequence then field_from_end 3 parts @ field_from_end 2 parts
      else field_from_end 2 parts)"

definition check_field :: "string \<Rightarrow> string" where
  "check_field ident = field_from_end 1 (split_on CHR ''-'' ident)"

text \<open>\<open>^<prefix>([A-Z]{2,5})-[0-9]{6}-[0-9]$\<close>: the namespace of an identifier so shaped.\<close>

definition shaped_namespace :: "string \<Rightarrow> string \<Rightarrow> string option" where
  "shaped_namespace prefix ident =
     (if take (length prefix) ident = prefix then
       (case split_on CHR ''-'' (drop (length prefix) ident) of
          [ns, sequence, check] \<Rightarrow>
            if 2 \<le> length ns \<and> length ns \<le> 5 \<and> list_all upper_letter ns \<and>
               length sequence = 6 \<and> list_all is_digit sequence \<and> length check = 1 \<and> list_all is_digit check
            then Some ns else None
        | _ \<Rightarrow> None)
      else None)"

fun join_names :: "string \<Rightarrow> string list \<Rightarrow> string" where
  "join_names sep [] = []"
| "join_names sep [x] = x"
| "join_names sep (x # y # ys) = x @ sep @ join_names sep (y # ys)"

definition first_match :: "identifier_grammar \<Rightarrow> string \<Rightarrow> compiled_kind option" where
  "first_match g ident = find (\<lambda>k. rx_test (ck_pattern k) ident) (gr_kinds g)"

definition validate :: "identifier_grammar \<Rightarrow> string \<Rightarrow> string + identifier_verdict" where
  "validate g ident =
     (case first_match g ident of
        Some k \<Rightarrow>
          let check = check_field ident; digits = payload_digits (ck_payload k) ident in
          bindE (damm_check (digits @ check)) (\<lambda>residue.
            if residue = 0 then Inr \<lparr>verdict_valid = True, verdict_kind = Some (ck_kind k), verdict_reason = None\<rparr>
            else bindE (damm_check digits) (\<lambda>expected.
              Inr \<lparr>verdict_valid = False, verdict_kind = Some (ck_kind k),
                   verdict_reason = Some (''check digit is '' @ check @ '', expected '' @ dec expected)\<rparr>))
      | None \<Rightarrow>
         (case shaped_namespace (gr_prefix g) ident of
            Some ns \<Rightarrow> Inr \<lparr>verdict_valid = False, verdict_kind = None,
                verdict_reason = Some ([CHR 0x27] @ ns @ [CHR 0x27] @ '' is not an allocated namespace. Allocated: '' @
                  join_names '', '' (gr_namespaces g) @ '' (RCD uses the record grammar).'')\<rparr>
          | None \<Rightarrow> Inr \<lparr>verdict_valid = False, verdict_kind = None,
                verdict_reason = Some ''matches no allocated identifier grammar''\<rparr>))"

definition enterprise_text :: "identifier_grammar \<Rightarrow> string \<Rightarrow> string \<Rightarrow> nat \<Rightarrow> string" where
  "enterprise_text g ns padded check = gr_prefix g @ ns @ ''-'' @ padded @ ''-'' @ dec check"

definition format_enterprise :: "identifier_grammar \<Rightarrow> string \<Rightarrow> int \<Rightarrow> string + string" where
  "format_enterprise g ns sequence =
     (if ns \<notin> set (gr_namespaces g)
      then Inl (''formatEnterprise: '' @ [CHR 0x27] @ ns @ [CHR 0x27] @ '' is not an allocated namespace'')
      else if sequence < 0 \<or> 999999 < sequence
      then Inl ''formatEnterprise: sequence outside 0-999999''
      else
       (let padded = pad_start 6 (dec (nat sequence)) in
        bindE (damm_check padded) (\<lambda>check.
        (let ident = enterprise_text g ns padded check in
         bindE (validate g ident) (\<lambda>v.
           if \<not> verdict_valid v
           then Inl (''formatEnterprise: '' @ ident @ '' does not satisfy the registry'' @ [CHR 0x27] @ ''s own grammar'')
           else Inr ident)))))"

section \<open>Typing errors\<close>

text \<open>One digit replaced by another, or two different neighbours exchanged.\<close>

inductive typo :: "string \<Rightarrow> string \<Rightarrow> bool" where
  wrong_digit: "c \<noteq> c' \<Longrightarrow> is_digit c' \<Longrightarrow> typo (xs @ [c] @ ys) (xs @ [c'] @ ys)"
| swapped: "a \<noteq> b \<Longrightarrow> typo (xs @ [a, b] @ ys) (xs @ [b, a] @ ys)"

inductive_cases typoE: "typo s t"

lemma char_digit_inject: "is_digit c \<Longrightarrow> is_digit d \<Longrightarrow> char_digit c = char_digit d \<longleftrightarrow> c = d"
  by (metis digit_char_char_digit)

lemma digits_below: "list_all is_digit s \<Longrightarrow> \<forall>d\<in>set (map char_digit s). d < 10"
  by (auto simp: list_all_iff char_digit_less)

lemma typo_detected:
  assumes "typo s t" and "list_all is_digit s"
  shows "list_all is_digit t \<and> damm_check t \<noteq> damm_check s"
  using assms(1)
proof cases
  case (wrong_digit c c' xs ys)
  have all: "list_all is_digit (xs @ [c, c'] @ ys)" using assms(2) wrong_digit by simp
  have "foldl (cell DAMM_TABLE) 0 (map char_digit xs @ [char_digit c] @ map char_digit ys) \<noteq>
      foldl (cell DAMM_TABLE) 0 (map char_digit xs @ [char_digit c'] @ map char_digit ys)"
    by (rule damm.substitution_detected)
       (use digits_below [OF all] all wrong_digit(3) in \<open>simp_all add: char_digit_inject\<close>)
  with all show ?thesis by (simp add: wrong_digit(1,2) damm_check_digits)
next
  case (swapped a b xs ys)
  have all: "list_all is_digit (xs @ [a, b] @ ys)" using assms(2) swapped by simp
  have "foldl (cell DAMM_TABLE) 0 (map char_digit xs @ [char_digit a, char_digit b] @ map char_digit ys) \<noteq>
      foldl (cell DAMM_TABLE) 0 (map char_digit xs @ [char_digit b, char_digit a] @ map char_digit ys)"
    by (rule damm.transposition_detected)
       (use digits_below [OF all] all swapped(3) in \<open>simp_all add: char_digit_inject\<close>)
  with all show ?thesis by (simp add: swapped(1,2) damm_check_digits)
qed

lemma damm_check_ok_digits: "damm_check s = Inr c \<Longrightarrow> list_all is_digit s"
  using damm_walk_nondigit [of s DAMM_TABLE 0] by (auto simp: damm_check_def)

section \<open>Properties\<close>

lemma damm_append: "list_all is_digit s \<Longrightarrow> is_digit c \<Longrightarrow>
    damm_check (s @ [c]) = bindE (damm_check s) (\<lambda>i. Inr (cell DAMM_TABLE i (char_digit c)))"
  by (simp add: damm_check_digits)

lemma damm_check_below: "damm_check s = Inr c \<Longrightarrow> c < 10"
proof -
  assume "damm_check s = Inr c"
  moreover from this have "list_all is_digit s" by (rule damm_check_ok_digits)
  ultimately show ?thesis using damm.walk_closed [of 0 "map char_digit s"] digits_below [of s]
    by (simp add: damm_check_digits)
qed

lemma damm_diagonal: "i < 10 \<Longrightarrow> cell DAMM_TABLE i i = 0"
proof -
  have "\<forall>i\<in>set [0..<10]. cell DAMM_TABLE i i = 0" by code_simp
  then show "i < 10 \<Longrightarrow> cell DAMM_TABLE i i = 0" by simp
qed

text \<open>C24: Rule R7 of the registry: a number that carries a valid check digit stops being valid when
  any one of its digits is mistyped, or when any two different neighbouring digits are exchanged,
  wherever in the number, the check digit included.\<close>

theorem typing_errors_detected:
  assumes "damm_valid s = Inr True" and "typo s t"
  shows "damm_valid t = Inr False"
proof -
  have s: "damm_check s = Inr 0" using assms(1) by (auto simp: damm_valid_def bindE_eq_Inr)
  note t = typo_detected [OF assms(2) damm_check_ok_digits [OF s]]
  then obtain c where "damm_check t = Inr c" by (simp add: damm_check_digits)
  with t s show ?thesis by (simp add: damm_valid_def)
qed

theorem typing_errors_detected_witness:
  "damm_valid ''5724'' = Inr True \<and> damm_valid ''5274'' = Inr False \<and> damm_valid ''5734'' = Inr False"
proof (intro conjI)
  show ok: "damm_valid ''5724'' = Inr True" by code_simp
  have digit: "is_digit CHR ''3''" by code_simp
  have "typo (''5'' @ [CHR ''7'', CHR ''2''] @ ''4'') (''5'' @ [CHR ''2'', CHR ''7''] @ ''4'')"
    by (rule typo.swapped) simp
  then show "damm_valid ''5274'' = Inr False" by (intro typing_errors_detected [OF ok]) simp
  have "typo (''57'' @ [CHR ''2''] @ ''4'') (''57'' @ [CHR ''3''] @ ''4'')"
    by (rule typo.wrong_digit) (simp_all add: digit)
  then show "damm_valid ''5734'' = Inr False" by (intro typing_errors_detected [OF ok]) simp
qed

text \<open>The check digit exists and is unique: of the ten digits that can follow a payload, exactly
  the one \<open>dammCheck\<close> computes makes it valid.\<close>

theorem check_digit_unique:
  assumes "list_all is_digit payload" and "is_digit c"
  shows "damm_valid (payload @ [c]) = Inr (damm_check payload = Inr (char_digit c))"
proof -
  obtain i where i: "damm_check payload = Inr i" using assms(1) by (simp add: damm_check_digits)
  then have "i < 10" by (rule damm_check_below)
  moreover have "char_digit c < 10" using assms(2) by (rule char_digit_less)
  ultimately have "cell DAMM_TABLE i (char_digit c) = 0 \<longleftrightarrow> i = char_digit c"
    using damm.row_inj [of i "char_digit c" i] damm_diagonal [of i] by auto
  with i assms show ?thesis by (simp add: damm_valid_def damm_append)
qed

theorem check_digit_unique_witness:
  "damm_valid (''572'' @ ''4'') = Inr True \<and> damm_valid (''572'' @ ''5'') = Inr False"
proof -
  have d: "list_all is_digit ''572''" "is_digit CHR ''4''" "is_digit CHR ''5''" by code_simp+
  have c: "damm_check ''572'' = Inr 4" "char_digit CHR ''4'' = 4" "char_digit CHR ''5'' = 5" by code_simp+
  show ?thesis
    using check_digit_unique [OF d(1,2)] check_digit_unique [OF d(1,3)] by (simp add: c)
qed

lemma completed_valid: "damm_check payload = Inr e \<Longrightarrow> damm_valid (payload @ dec e) = Inr True"
proof -
  assume e: "damm_check payload = Inr e"
  then have "e < 10" by (rule damm_check_below)
  then have "dec e = [digit_char e]" "is_digit (digit_char e)" "char_digit (digit_char e) = e"
    by (simp_all add: dec.simps is_digit_digit_char)
  with check_digit_unique [OF damm_check_ok_digits [OF e]] e show ?thesis by simp
qed

text \<open>C35: A mistyped identifier is refused at entry and import. If an identifier validates, then any
  text of the same grammar whose checked digits differ from it by one wrong digit or one exchange
  of neighbours does not validate, and the verdict names the grammar, the check digit read and the
  one expected, which is the digit that would make the text's payload valid.\<close>

theorem mistyped_identifier_refused:
  assumes "validate g i = Inr v" and "verdict_valid v"
    and "first_match g i = Some k" and "first_match g j = Some k"
    and "typo (payload_digits (ck_payload k) i @ check_field i) (payload_digits (ck_payload k) j @ check_field j)"
  shows "\<exists>e<10. damm_valid (payload_digits (ck_payload k) j @ dec e) = Inr True \<and>
    validate g j = Inr \<lparr>verdict_valid = False, verdict_kind = Some (ck_kind k),
      verdict_reason = Some (''check digit is '' @ check_field j @ '', expected '' @ dec e)\<rparr>"
proof -
  let ?s = "payload_digits (ck_payload k) i @ check_field i"
  let ?t = "payload_digits (ck_payload k) j @ check_field j"
  have s: "damm_check ?s = Inr 0"
    using assms(1-3) by (auto simp: validate_def Let_def bindE_eq_Inr split: if_splits)
  note t = typo_detected [OF assms(5) damm_check_ok_digits [OF s]]
  then obtain c where c: "damm_check ?t = Inr c" "c \<noteq> 0" using s by (auto simp: damm_check_digits)
  have "list_all is_digit (payload_digits (ck_payload k) j)" using t by simp
  then obtain e where e: "damm_check (payload_digits (ck_payload k) j) = Inr e" by (simp add: damm_check_digits)
  show ?thesis
    by (rule exI [of _ e]) (use c e assms(4) in \<open>simp add: validate_def damm_check_below completed_valid\<close>)
qed

definition sample_grammar :: identifier_grammar where
  "sample_grammar =
     \<lparr>gr_prefix = ''OH-'', gr_namespaces = [''DOC'', ''PRJ''],
      gr_kinds = [\<lparr>ck_kind = Enterprise,
        ck_pattern = \<lparr>rx_source = ''^OH-(DOC|PRJ)-[0-9]{6}-[0-9]$'',
          rx_test = (\<lambda>s. shaped_namespace ''OH-'' s \<in> {Some ''DOC'', Some ''PRJ''})\<rparr>,
        ck_payload = Sequence\<rparr>]\<rparr>"

theorem mistyped_identifier_refused_witness:
  "\<exists>e<10. damm_valid (''000010'' @ dec e) = Inr True \<and>
     validate sample_grammar ''OH-DOC-000010-3'' = Inr \<lparr>verdict_valid = False, verdict_kind = Some Enterprise,
       verdict_reason = Some (''check digit is '' @ ''3'' @ '', expected '' @ dec e)\<rparr>"
proof -
  have v: "validate sample_grammar ''OH-DOC-000001-3'' =
      Inr \<lparr>verdict_valid = True, verdict_kind = Some Enterprise, verdict_reason = None\<rparr>"
    by code_simp
  let ?k = "hd (gr_kinds sample_grammar)"
  have m: "rx_test (ck_pattern ?k) ''OH-DOC-000001-3''" "rx_test (ck_pattern ?k) ''OH-DOC-000010-3''"
    by code_simp+
  have f: "first_match sample_grammar ''OH-DOC-000001-3'' = Some ?k"
    "first_match sample_grammar ''OH-DOC-000010-3'' = Some ?k"
    using m by (simp_all add: first_match_def sample_grammar_def)
  have k: "ck_payload ?k = Sequence" "ck_kind ?k = Enterprise" by code_simp+
  have parts: "payload_digits Sequence ''OH-DOC-000001-3'' = ''000001''" "check_field ''OH-DOC-000001-3'' = ''3''"
    "payload_digits Sequence ''OH-DOC-000010-3'' = ''000010''" "check_field ''OH-DOC-000010-3'' = ''3''"
    by code_simp+
  have "typo (''0000'' @ [CHR ''0'', CHR ''1''] @ ''3'') (''0000'' @ [CHR ''1'', CHR ''0''] @ ''3'')"
    by (rule typo.swapped) simp
  then have "typo (''000001'' @ ''3'') (''000010'' @ ''3'')" by simp
  from mistyped_identifier_refused [OF v _ f, unfolded k parts, OF _ this] show ?thesis by simp
qed

lemma split_on_pieces: "p \<in> set (split_on c s) \<Longrightarrow> c \<notin> set p \<and> set p \<subseteq> set s"
proof (induction s arbitrary: p)
  case (Cons x s)
  have "\<forall>p\<in>set (split_on c s). c \<notin> set p \<and> set p \<subseteq> set s" using Cons.IH by blast
  with Cons.prems show ?case by (cases "split_on c s") (auto split: if_splits)
qed simp

lemma undec_zeros: "undec (replicate k CHR ''0'' @ s) = undec s"
proof -
  have "char_digit CHR ''0'' = 0" by code_simp
  then have "foldl (\<lambda>acc c. 10 * acc + char_digit c) 0 (replicate k CHR ''0'') = 0"
    by (induction k) simp_all
  then show ?thesis by (simp add: undec_def)
qed

lemma undec_pad_start: "undec (pad_start w (dec n)) = n"
  by (simp add: pad_start_def undec_zeros)

lemma compiled_namespaces:
  assumes "compile_grammar file = Inr g" and "ns \<in> set (gr_namespaces g)"
  shows "CHR ''-'' \<notin> set ns"
proof -
  obtain source prefix names where shape: "enterprise_shape source = Some (prefix, names)"
    and g: "gr_namespaces g = split_on CHR ''|'' names"
    using assms(1) by (auto simp: compile_grammar_def bindE_eq_Inr split: option.splits)
  have "set names \<subseteq> {c. upper_letter c \<or> c = CHR ''|''}"
    using shape by (auto simp: enterprise_shape_def Let_def dest: set_takeWhileD split: list.splits if_splits)
  moreover have "\<not> upper_letter CHR ''-''" "CHR ''-'' \<noteq> CHR ''|''" by code_simp+
  ultimately show ?thesis using split_on_pieces assms(2) g by fastforce
qed

text \<open>Formatting an enterprise identifier is sound and loses nothing: under a grammar compiled
  from a registry, a formatted identifier validates under that grammar, and two allocations (a
  namespace and a sequence number) never share an identifier.\<close>

theorem formatted_identifiers_unique:
  assumes "compile_grammar file = Inr g"
    and "format_enterprise g ns n = Inr i" and "format_enterprise g ns' n' = Inr i"
  shows "ns = ns' \<and> n = n' \<and> (\<exists>v. validate g i = Inr v \<and> verdict_valid v)"
proof -
  have form: "\<exists>c. i = enterprise_text g x (pad_start 6 (dec (nat m))) c \<and> x \<in> set (gr_namespaces g) \<and>
      0 \<le> m \<and> m \<le> 999999 \<and> (\<exists>v. validate g i = Inr v \<and> verdict_valid v)"
    if "format_enterprise g x m = Inr i" for x m
    using that by (auto simp: format_enterprise_def Let_def bindE_eq_Inr split: if_splits)
  obtain c c' where i: "i = enterprise_text g ns (pad_start 6 (dec (nat n))) c"
      "i = enterprise_text g ns' (pad_start 6 (dec (nat n'))) c'"
    and names: "ns \<in> set (gr_namespaces g)" "ns' \<in> set (gr_namespaces g)"
    and n: "0 \<le> n" "n \<le> 999999" "0 \<le> n'" "n' \<le> 999999"
    and valid: "\<exists>v. validate g i = Inr v \<and> verdict_valid v"
    using form [OF assms(2)] form [OF assms(3)] by blast
  have len: "length (pad_start 6 (dec (nat m))) = 6" if "0 \<le> m" "m \<le> 999999" for m
    using that by (intro length_pad_start length_dec_le) (simp_all add: nat_less_iff)
  have "ns @ CHR ''-'' # (pad_start 6 (dec (nat n)) @ ''-'' @ dec c) =
      ns' @ CHR ''-'' # (pad_start 6 (dec (nat n')) @ ''-'' @ dec c')"
    using i by (simp add: enterprise_text_def)
  from split_at_unique [OF compiled_namespaces [OF assms(1) names(1)] compiled_namespaces [OF assms(1) names(2)] this]
  have "ns = ns'" and "pad_start 6 (dec (nat n)) = pad_start 6 (dec (nat n'))"
    using len n by simp_all
  then have "nat n = nat n'" by (metis undec_pad_start)
  with \<open>ns = ns'\<close> n valid show ?thesis by auto
qed

definition sample_file :: "string \<Rightarrow> grammar_entry option" where
  "sample_file kind =
     Some \<lparr>ge_pattern = Some (ck_pattern (hd (gr_kinds sample_grammar))), ge_damm_required = True,
           ge_damm_payload = ''sequence''\<rparr>"

theorem formatted_identifiers_unique_witness:
  "\<exists>g. compile_grammar (Some sample_file) = Inr g \<and> format_enterprise g ''DOC'' 1 = Inr ''OH-DOC-000001-3'' \<and>
     (\<exists>v. validate g ''OH-DOC-000001-3'' = Inr v \<and> verdict_valid v)"
proof -
  have c: "case compile_grammar (Some sample_file) of
      Inr g \<Rightarrow> format_enterprise g ''DOC'' 1 = Inr ''OH-DOC-000001-3'' | Inl _ \<Rightarrow> False"
    by code_simp
  then obtain g where g: "compile_grammar (Some sample_file) = Inr g"
    and f: "format_enterprise g ''DOC'' 1 = Inr ''OH-DOC-000001-3''"
    by (cases "compile_grammar (Some sample_file)") auto
  from formatted_identifiers_unique [OF g f f] g f show ?thesis by blast
qed

definition difference_table :: "nat list list" where
  "difference_table = map (\<lambda>i. map (\<lambda>d. (d + 10 - i) mod 10) [0..<10]) [0..<10]"

text \<open>The structural check on a table guarantees less than its name. A table that passes
  \<open>isAntiSymmetricQuasigroup\<close> detects every single wrong digit, but it need not be
  anti-symmetric: the table of differences modulo ten passes the check and does not notice 0 and 5
  being exchanged. \<open>DAMM_TABLE\<close> itself is anti-symmetric.\<close>

theorem structural_check_misses_transpositions:
  "is_anti_symmetric_quasigroup difference_table \<and>
   damm_walk difference_table 0 ''05'' = damm_walk difference_table 0 ''50'' \<and>
   (\<forall>i a b. i < 10 \<longrightarrow> a < 10 \<longrightarrow> b < 10 \<longrightarrow> a \<noteq> b \<longrightarrow>
      cell DAMM_TABLE (cell DAMM_TABLE i a) b \<noteq> cell DAMM_TABLE (cell DAMM_TABLE i b) a)"
proof (intro conjI)
  show "is_anti_symmetric_quasigroup difference_table" by code_simp
  show "damm_walk difference_table 0 ''05'' = damm_walk difference_table 0 ''50''" by code_simp
  show "\<forall>i a b. i < 10 \<longrightarrow> a < 10 \<longrightarrow> b < 10 \<longrightarrow> a \<noteq> b \<longrightarrow>
      cell DAMM_TABLE (cell DAMM_TABLE i a) b \<noteq> cell DAMM_TABLE (cell DAMM_TABLE i b) a"
    using damm_anti by blast
qed

theorem structural_check_misses_transpositions_witness:
  "is_anti_symmetric_quasigroup difference_table \<and>
   cell DAMM_TABLE (cell DAMM_TABLE 0 1) 2 \<noteq> cell DAMM_TABLE (cell DAMM_TABLE 0 2) 1"
  using structural_check_misses_transpositions by simp

end
