(* ===== verification/Relevance_Walk.thy ===== *)
theory Relevance_Walk
  imports KF_Prelude "HOL-Library.AList"
begin

text \<open>
  The two walks a projection takes over the relation graph: the structural neighbourhood of a record
  (\<open>packages/projections/src/neighbourhood.ts\<close>) and the relevance closure of a person
  (\<open>packages/projections/src/closure.ts\<close>). Both call \<open>tick\<close> once per node, which may throw; here
  \<open>late n\<close> says whether the \<open>n\<close>-th call throws, and the walks thread the number of calls made.
  Sets and maps are lists in insertion order.

  The lemmas show that the neighbourhood holds exactly the records within the given number of hops,
  and that the closure ends on every graph and holds exactly the records that the declared
  propagation classes relate to the person.
\<close>

record relevance_edge =
  e_source :: jstr
  e_target :: jstr
  e_type :: jstr

datatype propagation_class =
  Composition_down | Version_both | Provenance_backward | Lateral_none | Authority_one_hop_up

record relation_policy =
  rp_type :: jstr
  rp_anchor :: bool
  rp_class :: propagation_class
  rp_depth :: int

datatype walk_error = Out_of_time | Missing_policy jstr

definition NUL :: "16 word" where
  "NUL = 0"

definition add_new :: "'a \<Rightarrow> 'a list \<Rightarrow> 'a list" where
  "add_new x xs = (if x \<in> set xs then xs else xs @ [x])"

lemma set_add_new [simp]: "set (add_new x xs) = insert x (set xs)"
  by (auto simp: add_new_def)

section \<open>The structural neighbourhood\<close>

definition edge_allowed :: "jstr list option \<Rightarrow> relevance_edge \<Rightarrow> bool" where
  "edge_allowed allowed e \<longleftrightarrow> (case allowed of None \<Rightarrow> True | Some types \<Rightarrow> e_type e \<in> set types)"

text \<open>\<open>touching.get(id) ?? []\<close>: an edge from a node to itself is listed twice.\<close>

definition touching :: "relevance_edge list \<Rightarrow> jstr list option \<Rightarrow> jstr \<Rightarrow> relevance_edge list" where
  "touching edges allowed i =
     concat (map (\<lambda>e. (if e_source e = i then [e] else []) @ (if e_target e = i then [e] else []))
       (filter (edge_allowed allowed) edges))"

definition edge_key :: "relevance_edge \<Rightarrow> jstr" where
  "edge_key e = e_type e @ [NUL] @ e_source e @ [NUL] @ e_target e"

definition other_end :: "jstr \<Rightarrow> relevance_edge \<Rightarrow> jstr" where
  "other_end i e = (if e_source e = i then e_target e else e_source e)"

record hood_state =
  hd_ids :: "jstr list"
  hd_crossed :: "(jstr \<times> relevance_edge) list"
  hd_next :: "jstr list"

definition cross_edge :: "jstr \<Rightarrow> relevance_edge \<Rightarrow> hood_state \<Rightarrow> hood_state" where
  "cross_edge i e st =
     (let other = other_end i e; crossed = AList.update (edge_key e) e (hd_crossed st) in
      if other \<in> set (hd_ids st) then st\<lparr>hd_crossed := crossed\<rparr>
      else st\<lparr>hd_crossed := crossed, hd_ids := hd_ids st @ [other], hd_next := hd_next st @ [other]\<rparr>)"

fun expand_frontier :: "(nat \<Rightarrow> bool) \<Rightarrow> (jstr \<Rightarrow> relevance_edge list) \<Rightarrow> jstr list \<Rightarrow> hood_state \<Rightarrow> nat \<Rightarrow>
    walk_error + hood_state \<times> nat" where
  "expand_frontier late near [] st n = Inr (st, n)"
| "expand_frontier late near (i # is) st n =
     (if late n then Inl Out_of_time
      else expand_frontier late near is (fold (cross_edge i) (near i) st) (Suc n))"

fun hood_levels :: "(nat \<Rightarrow> bool) \<Rightarrow> (jstr \<Rightarrow> relevance_edge list) \<Rightarrow> nat \<Rightarrow> jstr list \<Rightarrow> hood_state \<Rightarrow> nat \<Rightarrow>
    walk_error + hood_state \<times> nat" where
  "hood_levels late near 0 frontier st n = Inr (st, n)"
| "hood_levels late near (Suc d) frontier st n =
     (if frontier = [] then Inr (st, n)
      else bindE (expand_frontier late near frontier (st\<lparr>hd_next := []\<rparr>) n)
             (\<lambda>(st', n'). hood_levels late near d (hd_next st') st' n'))"

text \<open>The ids, the edges crossed and the ticks used.\<close>

definition neighbourhood :: "(nat \<Rightarrow> bool) \<Rightarrow> nat \<Rightarrow> jstr \<Rightarrow> relevance_edge list \<Rightarrow> nat \<Rightarrow> jstr list option \<Rightarrow>
    walk_error + (jstr list \<times> relevance_edge list) \<times> nat" where
  "neighbourhood late n anchor edges max_depth allowed =
     bindE (hood_levels late (touching edges allowed) max_depth [anchor]
              \<lparr>hd_ids = [anchor], hd_crossed = [], hd_next = []\<rparr> n)
       (\<lambda>(st, n'). Inr ((hd_ids st, map snd (hd_crossed st)), n'))"

section \<open>The relevance closure\<close>

definition policy_of :: "relation_policy list \<Rightarrow> jstr \<Rightarrow> relation_policy option" where
  "policy_of policies t = find (\<lambda>p. rp_type p = t) (rev policies)"

record queue_node =
  nd_id :: jstr
  nd_depth :: nat
  nd_hops :: nat
  nd_anchor :: "jstr option"

definition state_key :: "queue_node \<Rightarrow> jstr" where
  "state_key node =
     (case nd_anchor node of None \<Rightarrow> [] | Some t \<Rightarrow> t) @ [NUL] @ nd_id node @ [NUL] @ units (dec (nd_hops node))"

definition candidates_of :: "relevance_edge list \<Rightarrow> jstr \<Rightarrow> relevance_edge list" where
  "candidates_of edges i = filter (\<lambda>e. e_source e = i) edges @ filter (\<lambda>e. e_target e = i) edges"

definition next_node :: "jstr \<Rightarrow> relation_policy \<Rightarrow> queue_node \<Rightarrow> relevance_edge \<Rightarrow> queue_node option" where
  "next_node person p current e =
     (let anchor_hop = (nd_id current = person \<and> nd_anchor current = None);
          incoming = (e_target e = nd_id current);
          follows = (rp_class p = Version_both \<or>
                     (rp_class p = Composition_down \<and> \<not> incoming) \<or>
                     (rp_class p = Provenance_backward \<and> (anchor_hop \<or> \<not> incoming)) \<or>
                     (rp_class p = Authority_one_hop_up \<and> incoming \<and> nd_hops current = 0));
          next_id = (if incoming then e_source e else e_target e);
          next_depth = Suc (nd_depth current) in
      if rp_class p = Lateral_none then None
      else if anchor_hop \<and> \<not> rp_anchor p then None
      else if \<not> follows then None
      else if anchor_hop \<and> int next_depth > rp_depth p then None
      else if next_id = person \<and> nd_anchor current \<noteq> None then None
      else Some \<lparr>nd_id = next_id, nd_depth = next_depth,
                 nd_hops = nd_hops current + (if rp_class p = Authority_one_hop_up \<and> incoming then 1 else 0),
                 nd_anchor = (if anchor_hop then Some (rp_type p) else nd_anchor current)\<rparr>)"

record closure_state =
  cl_relevant :: "jstr list"
  cl_by_anchor :: "(jstr \<times> jstr list) list"
  cl_by_class :: "(propagation_class \<times> jstr list) list"
  cl_visited :: "jstr list"
  cl_queue :: "queue_node list"

definition add_reached :: "'k \<Rightarrow> jstr \<Rightarrow> ('k \<times> jstr list) list \<Rightarrow> ('k \<times> jstr list) list" where
  "add_reached k i m = AList.update k (add_new i (case map_of m k of None \<Rightarrow> [] | Some ids \<Rightarrow> ids)) m"

definition count_reached :: "relation_policy \<Rightarrow> queue_node \<Rightarrow> closure_state \<Rightarrow> closure_state" where
  "count_reached p node st =
     st\<lparr>cl_by_anchor := (case nd_anchor node of
            None \<Rightarrow> cl_by_anchor st
          | Some t \<Rightarrow> add_reached t (nd_id node) (cl_by_anchor st)),
        cl_by_class := add_reached (rp_class p) (nd_id node) (cl_by_class st)\<rparr>"

definition enqueue :: "queue_node \<Rightarrow> closure_state \<Rightarrow> closure_state" where
  "enqueue node st =
     (if state_key node \<in> set (cl_visited st) then st
      else st\<lparr>cl_visited := cl_visited st @ [state_key node],
              cl_relevant := add_new (nd_id node) (cl_relevant st),
              cl_queue := cl_queue st @ [node]\<rparr>)"

fun visit_edges :: "jstr \<Rightarrow> relation_policy list \<Rightarrow> queue_node \<Rightarrow> relevance_edge list \<Rightarrow> closure_state \<Rightarrow>
    walk_error + closure_state" where
  "visit_edges person policies current [] st = Inr st"
| "visit_edges person policies current (e # es) st =
     (case policy_of policies (e_type e) of
        None \<Rightarrow> Inl (Missing_policy (e_type e))
      | Some p \<Rightarrow>
          visit_edges person policies current es
            (case next_node person p current e of
               None \<Rightarrow> st
             | Some node \<Rightarrow> enqueue node (count_reached p node st)))"

subsection \<open>Termination: every node pushed has a state not visited before\<close>

definition successors :: "jstr \<Rightarrow> relation_policy list \<Rightarrow> relevance_edge list \<Rightarrow> queue_node \<Rightarrow> queue_node set" where
  "successors person policies es current =
     {node. \<exists>e p. e \<in> set es \<and> policy_of policies (e_type e) = Some p \<and> next_node person p current e = Some node}"

lemma successors_mono: "set es \<subseteq> set es' \<Longrightarrow> successors person policies es current \<subseteq> successors person policies es' current"
  by (auto simp: successors_def)

lemma enqueue_extends:
  "\<exists>ps. cl_queue (enqueue node (count_reached p node st)) = cl_queue st @ ps \<and>
     cl_visited (enqueue node (count_reached p node st)) = cl_visited st @ map state_key ps \<and>
     set ps \<subseteq> {node} \<and> (\<forall>q\<in>set ps. state_key q \<notin> set (cl_visited st))"
  by (simp add: enqueue_def count_reached_def)

lemma visit_edges_extends:
  assumes "visit_edges person policies current es st = Inr st'"
  shows "\<exists>ps. cl_queue st' = cl_queue st @ ps \<and> cl_visited st' = cl_visited st @ map state_key ps \<and>
    set ps \<subseteq> successors person policies es current \<and> (\<forall>q\<in>set ps. state_key q \<notin> set (cl_visited st))"
  using assms
proof (induction es arbitrary: st)
  case (Cons e es)
  then obtain p where p: "policy_of policies (e_type e) = Some p" by (auto split: option.splits)
  define st1 where "st1 = (case next_node person p current e of
      None \<Rightarrow> st | Some node \<Rightarrow> enqueue node (count_reached p node st))"
  have rest: "visit_edges person policies current es st1 = Inr st'" using Cons.prems p by (simp add: st1_def)
  from Cons.IH [OF rest] obtain ps where ps: "cl_queue st' = cl_queue st1 @ ps"
      "cl_visited st' = cl_visited st1 @ map state_key ps" "set ps \<subseteq> successors person policies es current"
      "\<forall>q\<in>set ps. state_key q \<notin> set (cl_visited st1)" by blast
  have "\<exists>qs. cl_queue st1 = cl_queue st @ qs \<and> cl_visited st1 = cl_visited st @ map state_key qs \<and>
      set qs \<subseteq> successors person policies (e # es) current \<and> (\<forall>q\<in>set qs. state_key q \<notin> set (cl_visited st))"
  proof (cases "next_node person p current e")
    case None
    then show ?thesis by (simp add: st1_def)
  next
    case (Some node)
    then have "node \<in> successors person policies (e # es) current" using p by (auto simp: successors_def)
    with enqueue_extends [of node p st] Some show ?thesis by (fastforce simp: st1_def)
  qed
  then obtain qs where qs: "cl_queue st1 = cl_queue st @ qs" "cl_visited st1 = cl_visited st @ map state_key qs"
      "set qs \<subseteq> successors person policies (e # es) current" "\<forall>q\<in>set qs. state_key q \<notin> set (cl_visited st)"
    by blast
  have "set ps \<subseteq> successors person policies (e # es) current"
    using ps(3) successors_mono [of es "e # es"] by fastforce
  with ps qs show ?case by (intro exI [of _ "qs @ ps"]) auto
qed simp

text \<open>The states the queue can still lead to.\<close>

definition universe :: "relevance_edge list \<Rightarrow> relation_policy list \<Rightarrow> queue_node list \<Rightarrow> jstr set" where
  "universe edges policies queue =
     (\<lambda>(a, i, h). state_key \<lparr>nd_id = i, nd_depth = 0, nd_hops = h, nd_anchor = a\<rparr>) `
       ((nd_anchor ` set queue \<union> (\<lambda>p. Some (rp_type p)) ` set policies) \<times>
        (e_source ` set edges \<union> e_target ` set edges) \<times> (insert 1 (nd_hops ` set queue)))"

lemma finite_universe: "finite (universe edges policies queue)"
  by (simp add: universe_def)

lemma policy_of_set: "policy_of policies t = Some p \<Longrightarrow> p \<in> set policies \<and> rp_type p = t"
proof -
  assume "policy_of policies t = Some p"
  then obtain i where "i < length (rev policies)" "rev policies ! i = p" "rp_type p = t"
    by (auto simp: policy_of_def find_Some_iff)
  then show ?thesis using nth_mem [of i "rev policies"] by simp
qed

lemma successor_parts:
  assumes "node \<in> successors person policies es current"
  shows "nd_anchor node = nd_anchor current \<or> (\<exists>p\<in>set policies. nd_anchor node = Some (rp_type p))"
    and "nd_id node \<in> e_source ` set es \<union> e_target ` set es"
    and "nd_hops node = nd_hops current \<or> nd_hops node = 1"
proof -
  obtain e p where ep: "e \<in> set es" "policy_of policies (e_type e) = Some p" "next_node person p current e = Some node"
    using assms by (auto simp: successors_def)
  note ep(2) [THEN policy_of_set]
  with ep(3) show "nd_anchor node = nd_anchor current \<or> (\<exists>p\<in>set policies. nd_anchor node = Some (rp_type p))"
    by (auto simp: next_node_def Let_def split: if_splits)
  show "nd_id node \<in> e_source ` set es \<union> e_target ` set es"
    using ep(1,3) by (auto simp: next_node_def Let_def split: if_splits)
  show "nd_hops node = nd_hops current \<or> nd_hops node = 1"
    using ep(3) by (auto simp: next_node_def Let_def split: if_splits)
qed

lemma state_key_cong:
  "nd_anchor a = nd_anchor b \<Longrightarrow> nd_id a = nd_id b \<Longrightarrow> nd_hops a = nd_hops b \<Longrightarrow> state_key a = state_key b"
  by (simp add: state_key_def)

lemma set_candidates: "set (candidates_of edges i) = {e \<in> set edges. e_source e = i \<or> e_target e = i}"
  by (auto simp: candidates_of_def)

lemma successor_in_universe:
  assumes "node \<in> successors person policies (candidates_of edges (nd_id current)) current"
  shows "state_key node \<in> universe edges policies (current # queue)"
proof -
  note parts = successor_parts [OF assms]
  have "nd_id node \<in> e_source ` set edges \<union> e_target ` set edges"
    using parts(2) by (auto simp: set_candidates)
  moreover have "nd_anchor node \<in> nd_anchor ` set (current # queue) \<union> (\<lambda>p. Some (rp_type p)) ` set policies"
    using parts(1) by auto
  moreover have "nd_hops node \<in> insert 1 (nd_hops ` set (current # queue))" using parts(3) by auto
  moreover have "state_key node =
      state_key \<lparr>nd_id = nd_id node, nd_depth = 0, nd_hops = nd_hops node, nd_anchor = nd_anchor node\<rparr>"
    by (rule state_key_cong) simp_all
  ultimately show ?thesis unfolding universe_def by (intro image_eqI [of _ _ "(nd_anchor node, nd_id node, nd_hops node)"]) auto
qed

lemma universe_shrinks:
  assumes "set ps \<subseteq> successors person policies (candidates_of edges (nd_id current)) current"
  shows "universe edges policies (queue @ ps) \<subseteq> universe edges policies (current # queue)"
proof -
  have "nd_anchor ` set (queue @ ps) \<subseteq> nd_anchor ` set (current # queue) \<union> (\<lambda>p. Some (rp_type p)) ` set policies"
    using assms successor_parts(1) by fastforce
  moreover have "nd_hops ` set (queue @ ps) \<subseteq> insert 1 (nd_hops ` set (current # queue))"
    using assms successor_parts(3) by fastforce
  ultimately show ?thesis unfolding universe_def by (intro image_mono Sigma_mono) auto
qed

lemma visit_measure:
  assumes "visit_edges person policies current (candidates_of edges (nd_id current)) (st\<lparr>cl_queue := queue\<rparr>) = Inr st'"
  defines "unseen \<equiv> \<lambda>q v. card (universe edges policies q - set v)"
  shows "unseen (cl_queue st') (cl_visited st') < unseen (current # queue) (cl_visited st) \<or>
    unseen (cl_queue st') (cl_visited st') \<le> unseen (current # queue) (cl_visited st) \<and> cl_queue st' = queue"
proof -
  from visit_edges_extends [OF assms(1)] obtain ps where ps: "cl_queue st' = queue @ ps"
      "cl_visited st' = cl_visited st @ map state_key ps"
      "set ps \<subseteq> successors person policies (candidates_of edges (nd_id current)) current"
      "\<forall>q\<in>set ps. state_key q \<notin> set (cl_visited st)" by auto
  have sub: "universe edges policies (queue @ ps) - set (cl_visited st') \<subseteq>
      universe edges policies (current # queue) - set (cl_visited st)"
    using universe_shrinks [OF ps(3), of queue] ps(2) by auto
  show ?thesis
  proof (cases ps)
    case Nil
    with ps sub show ?thesis by (auto simp: unseen_def finite_universe intro: card_mono)
  next
    case (Cons q qs)
    then have q: "state_key q \<in> universe edges policies (current # queue)" "state_key q \<notin> set (cl_visited st)"
        "state_key q \<in> set (cl_visited st')"
      using ps successor_in_universe [of q person policies edges current queue] by auto
    with sub have "universe edges policies (queue @ ps) - set (cl_visited st') \<subset>
        universe edges policies (current # queue) - set (cl_visited st)" by blast
    then show ?thesis using ps(1) by (simp add: unseen_def finite_universe psubset_card_mono)
  qed
qed

function closure_loop :: "(nat \<Rightarrow> bool) \<Rightarrow> jstr \<Rightarrow> relevance_edge list \<Rightarrow> relation_policy list \<Rightarrow>
    closure_state \<Rightarrow> nat \<Rightarrow> walk_error + closure_state \<times> nat" where
  "closure_loop late person edges policies st n =
     (case cl_queue st of
        [] \<Rightarrow> Inr (st, n)
      | current # rest \<Rightarrow>
          if late n then Inl Out_of_time
          else (case visit_edges person policies current (candidates_of edges (nd_id current))
                       (st\<lparr>cl_queue := rest\<rparr>) of
                  Inl e \<Rightarrow> Inl e
                | Inr st' \<Rightarrow> closure_loop late person edges policies st' (Suc n)))"
  by pat_completeness auto

termination closure_loop
proof (relation "measures [\<lambda>(late, person, edges, policies, st, n). card (universe edges policies (cl_queue st) - set (cl_visited st)),
    \<lambda>(late, person, edges, policies, st, n). length (cl_queue st)]")
  fix late :: "nat \<Rightarrow> bool" and person edges policies st n current rest st'
  assume queue: "cl_queue st = current # rest"
    and visit: "visit_edges person policies current (candidates_of edges (nd_id current)) (st\<lparr>cl_queue := rest\<rparr>) = Inr st'"
  from visit_measure [OF visit] queue show "((late, person, edges, policies, st', Suc n), late, person, edges, policies, st, n) \<in>
      measures [\<lambda>(late, person, edges, policies, st, n). card (universe edges policies (cl_queue st) - set (cl_visited st)),
        \<lambda>(late, person, edges, policies, st, n). length (cl_queue st)]"
    by (auto simp: less_Suc_eq_le le_less)
qed simp

declare closure_loop.simps [simp del]

definition closure_start :: "jstr \<Rightarrow> closure_state" where
  "closure_start person =
     (let start = \<lparr>nd_id = person, nd_depth = 0, nd_hops = 0, nd_anchor = None\<rparr> in
      \<lparr>cl_relevant = [person], cl_by_anchor = [], cl_by_class = [], cl_visited = [state_key start],
       cl_queue = [start]\<rparr>)"

record closure_result =
  cr_ids :: "jstr list"
  cr_by_anchor :: "(jstr \<times> nat) list"
  cr_by_class :: "(jstr \<times> nat) list"

fun class_name :: "propagation_class \<Rightarrow> jstr" where
  "class_name Composition_down = units ''composition_down''"
| "class_name Version_both = units ''version_both''"
| "class_name Provenance_backward = units ''provenance_backward''"
| "class_name Lateral_none = units ''lateral_none''"
| "class_name Authority_one_hop_up = units ''authority_one_hop_up''"

text \<open>\<open>locale_le\<close> is \<open>localeCompare(\<dots>, 'en', { sensitivity: 'variant' }) <= 0\<close> of the host.\<close>

definition fan_out :: "(jstr \<Rightarrow> jstr \<Rightarrow> bool) \<Rightarrow> (jstr \<times> jstr list) list \<Rightarrow> (jstr \<times> nat) list" where
  "fan_out locale_le m =
     map (\<lambda>(k, ids). (k, length ids)) (sort_by (\<lambda>a b. locale_le (fst a) (fst b)) m)"

definition relevance_closure_with_metrics :: "(jstr \<Rightarrow> jstr \<Rightarrow> bool) \<Rightarrow> (nat \<Rightarrow> bool) \<Rightarrow> nat \<Rightarrow> jstr \<Rightarrow>
    relevance_edge list \<Rightarrow> relation_policy list \<Rightarrow> walk_error + closure_result \<times> nat" where
  "relevance_closure_with_metrics locale_le late n person edges policies =
     bindE (closure_loop late person edges policies (closure_start person) n)
       (\<lambda>(st, n'). Inr (\<lparr>cr_ids = cl_relevant st, cr_by_anchor = fan_out locale_le (cl_by_anchor st),
           cr_by_class = fan_out locale_le (map (apfst class_name) (cl_by_class st))\<rparr>, n'))"

definition relevance_closure :: "(jstr \<Rightarrow> jstr \<Rightarrow> bool) \<Rightarrow> jstr \<Rightarrow> relevance_edge list \<Rightarrow> relation_policy list \<Rightarrow>
    walk_error + jstr list" where
  "relevance_closure locale_le person edges policies =
     bindE (relevance_closure_with_metrics locale_le (\<lambda>_. False) 0 person edges policies)
       (\<lambda>(r, _). Inr (cr_ids r))"

section \<open>The neighbourhood holds what is within reach\<close>

definition adjacent :: "relevance_edge list \<Rightarrow> jstr list option \<Rightarrow> jstr \<Rightarrow> jstr \<Rightarrow> bool" where
  "adjacent edges allowed x y \<longleftrightarrow>
     (\<exists>e\<in>set edges. edge_allowed allowed e \<and>
        ((e_source e = x \<and> e_target e = y) \<or> (e_target e = x \<and> e_source e = y)))"

primrec within :: "relevance_edge list \<Rightarrow> jstr list option \<Rightarrow> jstr \<Rightarrow> nat \<Rightarrow> jstr set" where
  "within edges allowed a 0 = {a}"
| "within edges allowed a (Suc d) =
     within edges allowed a d \<union> {y. \<exists>x\<in>within edges allowed a d. adjacent edges allowed x y}"

text \<open>The allowed edges with an end in a set of records.\<close>

definition edges_at :: "relevance_edge list \<Rightarrow> jstr list option \<Rightarrow> jstr set \<Rightarrow> relevance_edge set" where
  "edges_at edges allowed X = {e \<in> set edges. edge_allowed allowed e \<and> (e_source e \<in> X \<or> e_target e \<in> X)}"

lemma set_touching: "set (touching edges allowed i) = edges_at edges allowed {i}"
  by (auto simp: touching_def edges_at_def)

lemma other_ends: "other_end i ` set (touching edges allowed i) = {y. adjacent edges allowed i y}"
  by (auto simp: set_touching edges_at_def adjacent_def other_end_def image_iff split: if_splits)

lemma edges_at_Un: "edges_at edges allowed (X \<union> Y) = edges_at edges allowed X \<union> edges_at edges allowed Y"
  by (auto simp: edges_at_def)

lemma edges_at_Union: "edges_at edges allowed (set xs) = (\<Union>i\<in>set xs. edges_at edges allowed {i})"
  by (auto simp: edges_at_def)

lemma set_update_subset: "set (AList.update k v m) \<subseteq> insert (k, v) (set m)"
  by (induction m) auto

text \<open>What is kept of the edges crossed: one edge under each key, filed under its own key.\<close>

definition filed :: "relevance_edge set \<Rightarrow> (jstr \<times> relevance_edge) list \<Rightarrow> bool" where
  "filed E m \<longleftrightarrow> fst ` set m = edge_key ` E \<and> (\<forall>(k, e)\<in>set m. k = edge_key e \<and> e \<in> E) \<and> distinct (map fst m)"

lemma filed_update: "filed E m \<Longrightarrow> filed (insert e E) (AList.update (edge_key e) e m)"
  using set_update_subset [of "edge_key e" e m] by (fastforce simp: filed_def dom_update distinct_update)

lemma fold_cross_edge:
  "filed E (hd_crossed st) \<Longrightarrow> distinct (hd_ids st) \<Longrightarrow> (let st' = fold (cross_edge i) es st in
     set (hd_ids st') = set (hd_ids st) \<union> other_end i ` set es \<and>
     set (hd_next st') = set (hd_next st) \<union> (other_end i ` set es - set (hd_ids st)) \<and>
     filed (E \<union> set es) (hd_crossed st') \<and> distinct (hd_ids st'))"
proof (induction es arbitrary: st E)
  case (Cons e es)
  let ?st1 = "cross_edge i e st"
  have f: "filed (insert e E) (hd_crossed ?st1)"
    using filed_update [OF Cons.prems(1)] by (simp add: cross_edge_def Let_def)
  have d: "distinct (hd_ids ?st1)" using Cons.prems(2) by (simp add: cross_edge_def Let_def)
  have ids: "set (hd_ids ?st1) = insert (other_end i e) (set (hd_ids st))"
    by (auto simp: cross_edge_def Let_def)
  have nxt: "set (hd_next ?st1) = set (hd_next st) \<union> ({other_end i e} - set (hd_ids st))"
    by (auto simp: cross_edge_def Let_def)
  from Cons.IH [OF f d] show ?case by (auto simp: Let_def ids nxt)
qed (simp add: Let_def)

lemma expand_frontier_ok:
  "expand_frontier late (touching edges allowed) xs st n = Inr (st', n') \<Longrightarrow> filed E (hd_crossed st) \<Longrightarrow> distinct (hd_ids st) \<Longrightarrow>
   set (hd_ids st') = set (hd_ids st) \<union> {y. \<exists>x\<in>set xs. adjacent edges allowed x y} \<and>
   set (hd_next st') = set (hd_next st) \<union> ({y. \<exists>x\<in>set xs. adjacent edges allowed x y} - set (hd_ids st)) \<and>
   filed (E \<union> edges_at edges allowed (set xs)) (hd_crossed st') \<and> distinct (hd_ids st')"
proof (induction xs arbitrary: st n E)
  case Nil
  then show ?case by (simp add: edges_at_def)
next
  case (Cons x xs)
  let ?st1 = "fold (cross_edge x) (touching edges allowed x) st"
  have rest: "expand_frontier late (touching edges allowed) xs ?st1 (Suc n) = Inr (st', n')"
    using Cons.prems(1) by (simp split: if_splits)
  have one: "set (hd_ids ?st1) = set (hd_ids st) \<union> {y. adjacent edges allowed x y}"
      "set (hd_next ?st1) = set (hd_next st) \<union> ({y. adjacent edges allowed x y} - set (hd_ids st))"
      "filed (E \<union> edges_at edges allowed {x}) (hd_crossed ?st1)" "distinct (hd_ids ?st1)"
    using fold_cross_edge [OF Cons.prems(2,3), of x "touching edges allowed x"]
    by (simp_all add: Let_def set_touching other_ends [unfolded set_touching])
  have "edges_at edges allowed (set (x # xs)) = edges_at edges allowed {x} \<union> edges_at edges allowed (set xs)"
    by (auto simp: edges_at_def)
  with Cons.IH [OF rest one(3,4)] show ?case by (auto simp: one Un_assoc)
qed

definition hood_inv :: "relevance_edge list \<Rightarrow> jstr list option \<Rightarrow> jstr \<Rightarrow> nat \<Rightarrow> jstr list \<Rightarrow> hood_state \<Rightarrow> bool" where
  "hood_inv edges allowed a k frontier st \<longleftrightarrow>
     set (hd_ids st) = within edges allowed a k \<and> distinct (hd_ids st) \<and> set frontier \<subseteq> within edges allowed a k \<and>
     (\<forall>x\<in>within edges allowed a k - set frontier. \<forall>y. adjacent edges allowed x y \<longrightarrow> y \<in> within edges allowed a k) \<and>
     filed (edges_at edges allowed (within edges allowed a k - set frontier)) (hd_crossed st)"

lemma hood_step:
  assumes inv: "hood_inv edges allowed a k frontier st"
    and run: "expand_frontier late (touching edges allowed) frontier (st\<lparr>hd_next := []\<rparr>) n = Inr (st', n')"
  shows "hood_inv edges allowed a (Suc k) (hd_next st') st'" and "within edges allowed a (Suc k) - set (hd_next st') = within edges allowed a k"
proof -
  let ?W = "within edges allowed a k"
  have base: "set (hd_ids st) = ?W" "set frontier \<subseteq> ?W"
      "\<And>x y. x \<in> ?W - set frontier \<Longrightarrow> adjacent edges allowed x y \<Longrightarrow> y \<in> ?W"
    using inv unfolding hood_inv_def by blast+
  have "filed (edges_at edges allowed (?W - set frontier)) (hd_crossed (st\<lparr>hd_next := []\<rparr>))" "distinct (hd_ids (st\<lparr>hd_next := []\<rparr>))"
    using inv unfolding hood_inv_def by simp_all
  from expand_frontier_ok [OF run this] have step:
      "set (hd_ids st') = ?W \<union> {y. \<exists>x\<in>set frontier. adjacent edges allowed x y}"
      "set (hd_next st') = {y. \<exists>x\<in>set frontier. adjacent edges allowed x y} - ?W" "distinct (hd_ids st')"
      "filed (edges_at edges allowed (?W - set frontier) \<union> edges_at edges allowed (set frontier)) (hd_crossed st')"
    using base(1) by simp_all
  have "{y. \<exists>x\<in>?W. adjacent edges allowed x y} \<subseteq> ?W \<union> {y. \<exists>x\<in>set frontier. adjacent edges allowed x y}"
    using base(3) by blast
  then have W: "set (hd_ids st') = within edges allowed a (Suc k)" using base(2) step(1) by auto
  moreover show rest: "within edges allowed a (Suc k) - set (hd_next st') = ?W"
    using W step(1,2) by auto
  moreover have "edges_at edges allowed (?W - set frontier) \<union> edges_at edges allowed (set frontier) = edges_at edges allowed ?W"
    using base(2) by (auto simp: edges_at_def)
  ultimately show "hood_inv edges allowed a (Suc k) (hd_next st') st'"
    using step unfolding hood_inv_def by (simp only: rest) auto
qed

lemma within_closed:
  "(\<And>x y. x \<in> within edges allowed a k \<Longrightarrow> adjacent edges allowed x y \<Longrightarrow> y \<in> within edges allowed a k) \<Longrightarrow>
   within edges allowed a (k + d) = within edges allowed a k"
  by (induction d) auto

lemma hood_levels_ok:
  assumes "hood_levels late (touching edges allowed) d frontier st n = Inr (st', n')"
    and "hood_inv edges allowed a k frontier st"
  shows "set (hd_ids st') = within edges allowed a (k + d) \<and> distinct (hd_ids st') \<and>
    (d = 0 \<and> hd_crossed st' = hd_crossed st \<or>
     0 < d \<and> filed (edges_at edges allowed (within edges allowed a (k + d - 1))) (hd_crossed st'))"
  using assms
proof (induction d arbitrary: frontier st n k)
  case 0
  then show ?case by (auto simp: hood_inv_def)
next
  case (Suc d)
  show ?case
  proof (cases "frontier = []")
    case True
    then have st': "st' = st" using Suc.prems(1) by simp
    have "within edges allowed a (k + e) = within edges allowed a k" for e
      by (rule within_closed) (use Suc.prems(2) True in \<open>auto simp: hood_inv_def\<close>)
    from this [of "Suc d"] this [of d] show ?thesis
      using Suc.prems(2) True by (simp add: hood_inv_def st')
  next
    case False
    then obtain st1 n1 where one: "expand_frontier late (touching edges allowed) frontier (st\<lparr>hd_next := []\<rparr>) n = Inr (st1, n1)"
        and rest: "hood_levels late (touching edges allowed) d (hd_next st1) st1 n1 = Inr (st', n')"
      using Suc.prems(1) by (auto simp: bindE_eq_Inr)
    note inv1 = hood_step [OF Suc.prems(2) one]
    from Suc.IH [OF rest inv1(1)] inv1 show ?thesis by (auto simp: hood_inv_def)
  qed
qed

lemma hood_start: "hood_inv edges allowed a 0 [a] \<lparr>hd_ids = [a], hd_crossed = [], hd_next = []\<rparr>"
  by (simp add: hood_inv_def filed_def edges_at_def)

lemma neighbourhood_within:
  assumes "neighbourhood late n a edges d allowed = Inr ((ids, crossed), n')"
  shows "set ids = within edges allowed a d \<and> a \<in> set ids"
proof -
  obtain st where run: "hood_levels late (touching edges allowed) d [a] \<lparr>hd_ids = [a], hd_crossed = [], hd_next = []\<rparr> n = Inr (st, n')"
      and ids: "ids = hd_ids st"
    using assms by (auto simp: neighbourhood_def bindE_eq_Inr)
  have "a \<in> within edges allowed a d" by (induction d) auto
  with hood_levels_ok [OF run hood_start] ids show ?thesis by simp
qed

text \<open>C27: The neighbourhood of a record is exact. Whatever the depth and the list of relations, a walk
  that is not stopped by the clock returns each record within that many hops, in either direction,
  once, and only those; the edges it returns have an end less than that many hops away and no two
  of them share a key, and for a positive depth every such edge is there under its key.\<close>

theorem neighbourhood_exact:
  assumes "neighbourhood late n anchor edges max_depth allowed = Inr ((ids, crossed), n')"
  shows "set ids = within edges allowed anchor max_depth \<and> distinct ids \<and>
    set crossed \<subseteq> edges_at edges allowed (within edges allowed anchor (max_depth - 1)) \<and>
    distinct (map edge_key crossed) \<and>
    (0 < max_depth \<longrightarrow>
      edge_key ` set crossed = edge_key ` edges_at edges allowed (within edges allowed anchor (max_depth - 1)))"
proof -
  let ?start = "\<lparr>hd_ids = [anchor], hd_crossed = [], hd_next = []\<rparr>"
  obtain st where run: "hood_levels late (touching edges allowed) max_depth [anchor] ?start n = Inr (st, n')"
      and res: "ids = hd_ids st" "crossed = map snd (hd_crossed st)"
    using assms by (auto simp: neighbourhood_def bindE_eq_Inr)
  note levels = hood_levels_ok [OF run hood_start]
  show ?thesis
  proof (cases "max_depth = 0")
    case True
    with levels run res show ?thesis by simp
  next
    case False
    let ?E = "edges_at edges allowed (within edges allowed anchor (max_depth - 1))"
    from levels False have "filed ?E (hd_crossed st)" by simp
    then have keys: "fst ` set (hd_crossed st) = edge_key ` ?E"
      and each: "\<And>k e. (k, e) \<in> set (hd_crossed st) \<Longrightarrow> k = edge_key e \<and> e \<in> ?E"
      unfolding filed_def by blast+
    have "edge_key ` set crossed = fst ` set (hd_crossed st)"
      unfolding res using each by (force simp: image_image intro!: image_cong)
    moreover have "set crossed \<subseteq> ?E" unfolding res using each by auto
    moreover have "map edge_key crossed = map fst (hd_crossed st)" unfolding res using each by auto
    then have "distinct (map edge_key crossed)" using \<open>filed ?E (hd_crossed st)\<close> by (simp add: filed_def)
    ultimately show ?thesis using levels res keys by simp
  qed
qed

text \<open>A chain of three records, walked one hop from its middle.\<close>

theorem neighbourhood_exact_witness:
  "let a = units ''a''; b = units ''b''; c = units ''c''; t = units ''t'';
       edges = [\<lparr>e_source = a, e_target = b, e_type = t\<rparr>, \<lparr>e_source = c, e_target = b, e_type = t\<rparr>] in
   set (fst (fst (projr (neighbourhood (\<lambda>_. False) 0 a edges 1 None)))) = {a, b}"
proof -
  let ?a = "units ''a''" and ?b = "units ''b''" and ?c = "units ''c''" and ?t = "units ''t''"
  let ?edges = "[\<lparr>e_source = ?a, e_target = ?b, e_type = ?t\<rparr>, \<lparr>e_source = ?c, e_target = ?b, e_type = ?t\<rparr>]"
  obtain ids crossed n' where run: "neighbourhood (\<lambda>_. False) 0 ?a ?edges 1 None = Inr ((ids, crossed), n')"
    by (simp add: neighbourhood_def)
  have "within ?edges None ?a 1 = {?a, ?b}" by (auto simp: adjacent_def edge_allowed_def)
  with neighbourhood_exact [OF run] run show ?thesis by (simp add: Let_def)
qed

section \<open>The closure holds what the propagation classes relate\<close>

text \<open>
  The specification, without queue or depth: an edge crossed from \<open>x\<close>, where \<open>h\<close> counts the
  authority hops so far. \<open>first\<close> marks the hop from the person.
\<close>

definition crosses :: "bool \<Rightarrow> relation_policy \<Rightarrow> relevance_edge \<Rightarrow> jstr \<Rightarrow> nat \<Rightarrow> jstr \<Rightarrow> nat \<Rightarrow> bool" where
  "crosses first p e x h y h' \<longleftrightarrow>
     (e_target e = x \<and> y = e_source e \<and> h' = h \<and>
        (rp_class p = Version_both \<or> rp_class p = Provenance_backward \<and> first)) \<or>
     (e_target e = x \<and> y = e_source e \<and> rp_class p = Authority_one_hop_up \<and> h = 0 \<and> h' = 1) \<or>
     (e_target e \<noteq> x \<and> e_source e = x \<and> y = e_target e \<and> h' = h \<and>
        rp_class p \<in> {Version_both, Composition_down, Provenance_backward})"

text \<open>\<open>related \<dots> t x h\<close>: the anchor relation \<open>t\<close> makes \<open>x\<close> relevant.\<close>

inductive related :: "jstr \<Rightarrow> relevance_edge list \<Rightarrow> relation_policy list \<Rightarrow> jstr \<Rightarrow> jstr \<Rightarrow> nat \<Rightarrow> bool"
  for person edges policies
where
  anchor: "e \<in> set edges \<Longrightarrow> policy_of policies (e_type e) = Some p \<Longrightarrow> rp_anchor p \<Longrightarrow> 1 \<le> rp_depth p \<Longrightarrow>
    crosses True p e person 0 y h \<Longrightarrow> related person edges policies (rp_type p) y h"
| descend: "related person edges policies t x h \<Longrightarrow> e \<in> set edges \<Longrightarrow> policy_of policies (e_type e) = Some p \<Longrightarrow>
    crosses False p e x h y h' \<Longrightarrow> y \<noteq> person \<Longrightarrow> related person edges policies t y h'"

lemma next_node_first:
  assumes "nd_id current = person" "nd_anchor current = None" "nd_depth current = 0" "nd_hops current = 0"
    and "e_source e = person \<or> e_target e = person"
  shows "next_node person p current e = Some node \<longleftrightarrow>
    rp_anchor p \<and> 1 \<le> rp_depth p \<and> crosses True p e person 0 (nd_id node) (nd_hops node) \<and>
    nd_anchor node = Some (rp_type p) \<and> nd_depth node = 1"
  using assms by (cases node, cases "rp_class p") (auto simp: next_node_def Let_def crosses_def)

lemma next_node_later:
  assumes "nd_anchor current = Some t" and "e_source e = nd_id current \<or> e_target e = nd_id current"
  shows "next_node person p current e = Some node \<longleftrightarrow>
    crosses False p e (nd_id current) (nd_hops current) (nd_id node) (nd_hops node) \<and>
    nd_id node \<noteq> person \<and> nd_anchor node = Some t \<and> nd_depth node = Suc (nd_depth current)"
  using assms by (cases node, cases "rp_class p") (auto simp: next_node_def Let_def crosses_def)

definition node_ok :: "jstr \<Rightarrow> relevance_edge list \<Rightarrow> relation_policy list \<Rightarrow> queue_node \<Rightarrow> bool" where
  "node_ok person edges policies node \<longleftrightarrow>
     (case nd_anchor node of
        None \<Rightarrow> nd_id node = person \<and> nd_depth node = 0 \<and> nd_hops node = 0
      | Some t \<Rightarrow> related person edges policies t (nd_id node) (nd_hops node))"

lemma successor_ok:
  assumes "node_ok person edges policies current"
    and "node \<in> successors person policies (candidates_of edges (nd_id current)) current"
  shows "node_ok person edges policies node \<and> nd_anchor node \<noteq> None"
proof -
  obtain e p where e: "e \<in> set edges" "e_source e = nd_id current \<or> e_target e = nd_id current"
      and p: "policy_of policies (e_type e) = Some p" and node: "next_node person p current e = Some node"
    using assms(2) by (auto simp: successors_def set_candidates)
  show ?thesis
  proof (cases "nd_anchor current")
    case None
    with assms(1) have "nd_id current = person" "nd_depth current = 0" "nd_hops current = 0"
      by (simp_all add: node_ok_def)
    with None e node have "rp_anchor p \<and> 1 \<le> rp_depth p \<and> crosses True p e person 0 (nd_id node) (nd_hops node) \<and>
        nd_anchor node = Some (rp_type p)"
      using next_node_first [of current person e p node] by simp
    with e(1) p show ?thesis by (auto simp: node_ok_def intro: related.anchor)
  next
    case (Some t)
    with assms(1) have "related person edges policies t (nd_id current) (nd_hops current)" by (simp add: node_ok_def)
    with Some e p node next_node_later [OF Some e(2), of person p node] show ?thesis
      by (auto simp: node_ok_def intro: related.descend)
  qed
qed

text \<open>
  The queue is first-in first-out and every node pushed is visited, so the visited keys are those of
  the nodes taken off (\<open>taken\<close>) and of the nodes still queued, in order.
\<close>

definition closed_under :: "jstr \<Rightarrow> relevance_edge list \<Rightarrow> relation_policy list \<Rightarrow> queue_node list \<Rightarrow> jstr list \<Rightarrow> bool" where
  "closed_under person edges policies taken visited \<longleftrightarrow>
     (\<forall>x\<in>set taken. \<forall>y\<in>successors person policies (candidates_of edges (nd_id x)) x. state_key y \<in> set visited)"

definition closure_inv :: "jstr \<Rightarrow> relevance_edge list \<Rightarrow> relation_policy list \<Rightarrow> queue_node list \<Rightarrow> closure_state \<Rightarrow> bool" where
  "closure_inv person edges policies taken st \<longleftrightarrow>
     cl_visited st = map state_key (taken @ cl_queue st) \<and>
     (\<forall>x\<in>set (taken @ cl_queue st). node_ok person edges policies x) \<and>
     closed_under person edges policies taken (cl_visited st) \<and>
     set (cl_relevant st) = nd_id ` set (taken @ cl_queue st) \<and> distinct (cl_relevant st)"

lemma distinct_add_new: "distinct xs \<Longrightarrow> distinct (add_new x xs)"
  by (simp add: add_new_def)

lemma enqueue_relevant:
  assumes "set (cl_relevant st) = nd_id ` X" "distinct (cl_relevant st)"
  shows "\<exists>ps. cl_queue (enqueue node (count_reached p node st)) = cl_queue st @ ps \<and>
    set (cl_relevant (enqueue node (count_reached p node st))) = nd_id ` (X \<union> set ps) \<and>
    distinct (cl_relevant (enqueue node (count_reached p node st))) \<and>
    state_key node \<in> set (cl_visited (enqueue node (count_reached p node st)))"
  using assms by (auto simp: enqueue_def count_reached_def distinct_add_new)

lemma successors_Cons:
  "policy_of policies (e_type e) = Some p \<Longrightarrow> successors person policies (e # es) current =
    {node. next_node person p current e = Some node} \<union> successors person policies es current"
  by (auto simp: successors_def)

lemma visit_edges_relevant:
  assumes "visit_edges person policies current es st = Inr st'"
    and "set (cl_relevant st) = nd_id ` X" "distinct (cl_relevant st)"
  shows "\<exists>ps. cl_queue st' = cl_queue st @ ps \<and> set (cl_relevant st') = nd_id ` (X \<union> set ps) \<and> distinct (cl_relevant st') \<and>
    (\<forall>y\<in>successors person policies es current. state_key y \<in> set (cl_visited st'))"
  using assms
proof (induction es arbitrary: st X)
  case Nil
  then show ?case by (auto simp: successors_def)
next
  case (Cons e es)
  then obtain p where p: "policy_of policies (e_type e) = Some p" by (auto split: option.splits)
  define st1 where "st1 = (case next_node person p current e of
      None \<Rightarrow> st | Some node \<Rightarrow> enqueue node (count_reached p node st))"
  have rest: "visit_edges person policies current es st1 = Inr st'" using Cons.prems p by (simp add: st1_def)
  obtain qs where qs: "cl_queue st1 = cl_queue st @ qs" "set (cl_relevant st1) = nd_id ` (X \<union> set qs)" "distinct (cl_relevant st1)"
      "\<And>node. next_node person p current e = Some node \<Longrightarrow> state_key node \<in> set (cl_visited st1)"
  proof (cases "next_node person p current e")
    case None
    then show ?thesis using that [of "[]"] Cons.prems by (simp add: st1_def)
  next
    case (Some node)
    then show ?thesis using that enqueue_relevant [OF Cons.prems(2,3), of node p] by (auto simp: st1_def)
  qed
  from Cons.IH [OF rest qs(2,3)] obtain ps where ps: "cl_queue st' = cl_queue st1 @ ps"
      "set (cl_relevant st') = nd_id ` (X \<union> set qs \<union> set ps)" "distinct (cl_relevant st')"
      "\<forall>y\<in>successors person policies es current. state_key y \<in> set (cl_visited st')" by blast
  have mono: "set (cl_visited st1) \<subseteq> set (cl_visited st')" using visit_edges_extends [OF rest] by auto
  have "state_key y \<in> set (cl_visited st')" if "y \<in> successors person policies (e # es) current" for y
    using that qs(4) mono ps(4) by (auto simp: successors_Cons [OF p])
  with ps qs show ?case by (intro exI [of _ "qs @ ps"]) (auto simp: Un_assoc)
qed

lemma closure_step:
  assumes inv: "closure_inv person edges policies taken st" and queue: "cl_queue st = current # rest"
    and visit: "visit_edges person policies current (candidates_of edges (nd_id current)) (st\<lparr>cl_queue := rest\<rparr>) = Inr st'"
  shows "closure_inv person edges policies (taken @ [current]) st'"
proof -
  let ?es = "candidates_of edges (nd_id current)"
  have ok: "node_ok person edges policies current" using inv queue by (simp add: closure_inv_def)
  from visit_edges_extends [OF visit] obtain ps where ps: "cl_queue st' = rest @ ps"
      "cl_visited st' = cl_visited st @ map state_key ps" "set ps \<subseteq> successors person policies ?es current" by auto
  have old: "set (cl_relevant (st\<lparr>cl_queue := rest\<rparr>)) = nd_id ` set (taken @ cl_queue st)" "distinct (cl_relevant (st\<lparr>cl_queue := rest\<rparr>))"
    using inv by (simp_all add: closure_inv_def)
  from visit_edges_relevant [OF visit old] ps(1) have new: "set (cl_relevant st') = nd_id ` (set (taken @ cl_queue st) \<union> set ps)"
      "distinct (cl_relevant st')" "\<forall>y\<in>successors person policies ?es current. state_key y \<in> set (cl_visited st')"
    by auto
  have "\<forall>x\<in>set ps. node_ok person edges policies x" using successor_ok [OF ok] ps(3) by blast
  moreover have "closed_under person edges policies (taken @ [current]) (cl_visited st')"
  proof -
    have "closed_under person edges policies taken (cl_visited st)" using inv unfolding closure_inv_def by blast
    moreover have "set (cl_visited st) \<subseteq> set (cl_visited st')" using ps(2) by simp
    ultimately show ?thesis using new(3) by (simp add: closed_under_def) blast
  qed
  ultimately show ?thesis
    using inv ps(1,2) new(1,2) queue unfolding closure_inv_def by auto
qed

lemma closure_loop_inv:
  "closure_loop late person edges policies st n = Inr (st', n') \<Longrightarrow> closure_inv person edges policies taken st \<Longrightarrow>
   \<exists>taken'. closure_inv person edges policies taken' st' \<and> cl_queue st' = [] \<and>
     (\<exists>more. taken' @ cl_queue st' = taken @ cl_queue st @ more)"
proof (induction late person edges policies st n arbitrary: taken rule: closure_loop.induct)
  case (1 late person edges policies st n)
  show ?case
  proof (cases "cl_queue st")
    case Nil
    with 1 show ?thesis by (subst (asm) closure_loop.simps) auto
  next
    case (Cons current rest)
    with 1(2) obtain st1 where go: "\<not> late n"
        and visit: "visit_edges person policies current (candidates_of edges (nd_id current)) (st\<lparr>cl_queue := rest\<rparr>) = Inr st1"
        and run: "closure_loop late person edges policies st1 (Suc n) = Inr (st', n')"
      by (subst (asm) closure_loop.simps) (auto split: if_splits sum.splits)
    from visit_edges_extends [OF visit] obtain ps where ps: "cl_queue st1 = rest @ ps" by auto
    from 1(1) [OF Cons go visit run closure_step [OF 1(3) Cons visit]] ps Cons show ?thesis by fastforce
  qed
qed

text \<open>Names as the database has them: no NUL in an identifier, and no relation without a name.\<close>

definition clean :: "jstr \<Rightarrow> bool" where
  "clean s \<longleftrightarrow> s \<noteq> [] \<and> NUL \<notin> set s"

lemma state_key_inject:
  assumes "NUL \<notin> set (nd_id a)" "NUL \<notin> set (nd_id b)"
    and "\<And>t. nd_anchor a = Some t \<Longrightarrow> clean t" "\<And>t. nd_anchor b = Some t \<Longrightarrow> clean t"
    and "state_key a = state_key b"
  shows "nd_anchor a = nd_anchor b \<and> nd_id a = nd_id b \<and> nd_hops a = nd_hops b"
proof -
  let ?n = "\<lambda>x. case nd_anchor x of None \<Rightarrow> [] | Some t \<Rightarrow> t"
  have plain: "NUL \<notin> set (?n a)" "NUL \<notin> set (?n b)"
    using assms(3,4) by (auto simp: clean_def split: option.splits)
  from split_at_unique [OF plain] assms(5)
  have name: "?n a = ?n b" and rest: "nd_id a @ [NUL] @ units (dec (nd_hops a)) = nd_id b @ [NUL] @ units (dec (nd_hops b))"
    by (simp_all add: state_key_def)
  from split_at_unique [OF assms(1,2) rest [unfolded append_Cons append_Nil]] have "nd_id a = nd_id b" "nd_hops a = nd_hops b"
    by (simp_all add: units_inject dec_inject)
  moreover have "nd_anchor a = nd_anchor b"
    using name assms(3,4) by (auto simp: clean_def split: option.splits)
  ultimately show ?thesis by simp
qed

lemma closure_complete:
  assumes inv: "closure_inv person edges policies taken st" and drained: "cl_queue st = []"
    and start: "\<exists>more. taken = \<lparr>nd_id = person, nd_depth = 0, nd_hops = 0, nd_anchor = None\<rparr> # more"
    and names: "clean person" "\<forall>e\<in>set edges. clean (e_source e) \<and> clean (e_target e) \<and> clean (e_type e)"
    and rel: "related person edges policies t x h"
  shows "\<exists>node\<in>set taken. nd_anchor node = Some t \<and> nd_id node = x \<and> nd_hops node = h"
proof -
  have named: "clean (nd_id node) \<and> (\<forall>t. nd_anchor node = Some t \<longrightarrow> clean t)"
    if "node \<in> set taken \<or> node \<in> successors person policies (candidates_of edges (nd_id current)) current \<and> current \<in> set taken"
    for node current
  proof -
    have "related person edges policies t x h \<Longrightarrow> clean x \<and> clean t" for t x h
      by (induction rule: related.induct) (use names policy_of_set in \<open>fastforce simp: crosses_def\<close>)+
    moreover have "\<forall>x\<in>set taken. node_ok person edges policies x" using inv by (simp add: closure_inv_def)
    then have "node_ok person edges policies node"
      using that successor_ok [of person edges policies current node] by blast
    ultimately show ?thesis using names(1) by (auto simp: node_ok_def split: option.splits)
  qed
  have step: "\<exists>node'\<in>set taken. nd_anchor node' = nd_anchor node \<and> nd_id node' = nd_id node \<and> nd_hops node' = nd_hops node"
    if "current \<in> set taken" "node \<in> successors person policies (candidates_of edges (nd_id current)) current" for node current
  proof -
    have "closed_under person edges policies taken (cl_visited st)" using inv unfolding closure_inv_def by blast
    moreover have "cl_visited st = map state_key taken" using inv drained unfolding closure_inv_def by simp
    ultimately have "state_key node \<in> state_key ` set taken" using that by (auto simp: closed_under_def)
    then obtain node' where n: "node' \<in> set taken" "state_key node' = state_key node" by auto
    with named [of node'] named [of node current] that state_key_inject [of node' node] show ?thesis
      by (auto simp: clean_def)
  qed
  from rel show ?thesis
  proof (induction rule: related.induct)
    case (anchor e p y h)
    let ?first = "\<lparr>nd_id = person, nd_depth = 0, nd_hops = 0, nd_anchor = None\<rparr>"
    let ?node = "\<lparr>nd_id = y, nd_depth = 1, nd_hops = h, nd_anchor = Some (rp_type p)\<rparr>"
    have ends: "e_source e = person \<or> e_target e = person" using anchor by (auto simp: crosses_def)
    have "next_node person p ?first e = Some ?node"
      using next_node_first [of ?first person e p ?node] anchor ends by simp
    then have "?node \<in> successors person policies (candidates_of edges (nd_id ?first)) ?first"
      using anchor ends by (auto simp: successors_def set_candidates)
    with step [of ?first ?node] start show ?case by auto
  next
    case (descend t x h e p y h')
    then obtain cur where cur: "cur \<in> set taken" "nd_anchor cur = Some t" "nd_id cur = x" "nd_hops cur = h" by blast
    let ?node = "\<lparr>nd_id = y, nd_depth = Suc (nd_depth cur), nd_hops = h', nd_anchor = Some t\<rparr>"
    have ends: "e_source e = nd_id cur \<or> e_target e = nd_id cur" using descend cur by (auto simp: crosses_def)
    have "next_node person p cur e = Some ?node"
      using next_node_later [OF cur(2) ends, of person p ?node] descend cur by simp
    then have "?node \<in> successors person policies (candidates_of edges (nd_id cur)) cur"
      using descend ends by (auto simp: successors_def set_candidates)
    from step [OF cur(1) this] show ?case by simp
  qed
qed

lemma visit_edges_total:
  "\<forall>e\<in>set es. policy_of policies (e_type e) \<noteq> None \<Longrightarrow> \<exists>st'. visit_edges person policies current es st = Inr st'"
  by (induction es arbitrary: st) auto

lemma closure_loop_total:
  assumes "\<forall>e\<in>set edges. policy_of policies (e_type e) \<noteq> None" and "\<And>n. \<not> late n"
  shows "\<exists>r. closure_loop late person edges policies st n = Inr r"
  using assms
proof (induction late person edges policies st n rule: closure_loop.induct)
  case (1 late person edges policies st n)
  show ?case
  proof (cases "cl_queue st")
    case Nil
    then show ?thesis by (subst closure_loop.simps) simp
  next
    case (Cons current rest)
    obtain st1 where visit: "visit_edges person policies current (candidates_of edges (nd_id current)) (st\<lparr>cl_queue := rest\<rparr>) = Inr st1"
      using visit_edges_total [of "candidates_of edges (nd_id current)" policies person current] 1(2)
      by (metis (no_types, lifting) mem_Collect_eq set_candidates)
    have "\<exists>r. closure_loop late person edges policies st1 (Suc n) = Inr r"
      by (rule 1(1) [OF Cons 1(3) visit 1(2,3)])
    moreover have "closure_loop late person edges policies st n = closure_loop late person edges policies st1 (Suc n)"
      by (subst closure_loop.simps) (simp only: Cons 1(3) visit list.case if_False sum.case)
    ultimately show ?thesis by simp
  qed
qed

text \<open>C26: The relevance walk ends on every graph, cyclic or not, and is exact. When every relation type in
  the graph has a policy, and names hold no NUL, the closure of a person returns, each once, the person
  and exactly the records the specification relates to them: reached by one hop over an anchoring
  relation with a positive depth, then by composition downwards, versions both ways, provenance
  backwards and at most one authority hop, never restarting at the person.\<close>

theorem relevance_closure_exact:
  assumes "\<forall>e\<in>set edges. policy_of policies (e_type e) \<noteq> None"
    and "clean person" "\<forall>e\<in>set edges. clean (e_source e) \<and> clean (e_target e) \<and> clean (e_type e)"
  shows "\<exists>ids. relevance_closure locale_le person edges policies = Inr ids \<and> distinct ids \<and>
    set ids = insert person {x. \<exists>t h. related person edges policies t x h}"
proof -
  let ?first = "\<lparr>nd_id = person, nd_depth = 0, nd_hops = 0, nd_anchor = None\<rparr>"
  obtain st n' where run: "closure_loop (\<lambda>_. False) person edges policies (closure_start person) 0 = Inr (st, n')"
    using closure_loop_total [OF assms(1), of "\<lambda>_. False"] by fastforce
  have "closure_inv person edges policies [] (closure_start person)"
    by (simp add: closure_inv_def closure_start_def node_ok_def closed_under_def Let_def)
  from closure_loop_inv [OF run this] obtain taken where inv: "closure_inv person edges policies taken st"
      and drained: "cl_queue st = []" and start: "\<exists>more. taken = ?first # more"
    by (auto simp: closure_start_def Let_def)
  have "nd_id ` set taken = insert person {x. \<exists>t h. related person edges policies t x h}"
  proof
    show "nd_id ` set taken \<subseteq> insert person {x. \<exists>t h. related person edges policies t x h}"
      using inv by (fastforce simp: closure_inv_def node_ok_def drained split: option.splits)
    show "insert person {x. \<exists>t h. related person edges policies t x h} \<subseteq> nd_id ` set taken"
      using closure_complete [OF inv drained start assms(2,3)] start by force
  qed
  with inv drained run show ?thesis
    by (simp add: relevance_closure_def relevance_closure_with_metrics_def closure_inv_def)
qed

text \<open>A decision authored by the person and derived from a note, in a graph with a cycle.\<close>

definition sample_policies :: "relation_policy list" where
  "sample_policies =
     [\<lparr>rp_type = units ''authored_by'', rp_anchor = True, rp_class = Provenance_backward, rp_depth = 1\<rparr>,
      \<lparr>rp_type = units ''derived_from'', rp_anchor = False, rp_class = Provenance_backward, rp_depth = 0\<rparr>]"

definition sample_edges :: "relevance_edge list" where
  "sample_edges =
     [\<lparr>e_source = units ''decision'', e_target = units ''person'', e_type = units ''authored_by''\<rparr>,
      \<lparr>e_source = units ''decision'', e_target = units ''note'', e_type = units ''derived_from''\<rparr>,
      \<lparr>e_source = units ''note'', e_target = units ''decision'', e_type = units ''derived_from''\<rparr>]"

theorem relevance_closure_exact_witness:
  "\<exists>ids. relevance_closure (\<lambda>_ _. True) (units ''person'') sample_edges sample_policies = Inr ids \<and>
     {units ''person'', units ''decision'', units ''note''} \<subseteq> set ids"
proof -
  let ?person = "units ''person''"
  have known: "policy_of sample_policies (units ''authored_by'') = Some (sample_policies ! 0)"
      "policy_of sample_policies (units ''derived_from'') = Some (sample_policies ! 1)"
    by (simp_all add: policy_of_def sample_policies_def units_inject)
  have plain: "clean ?person \<and> (\<forall>e\<in>set sample_edges. clean (e_source e) \<and> clean (e_target e) \<and> clean (e_type e))"
    by (simp add: clean_def sample_edges_def NUL_def units_def)
  have policies: "\<forall>e\<in>set sample_edges. policy_of sample_policies (e_type e) \<noteq> None"
    using known by (simp add: sample_edges_def)
  obtain ids where ids: "relevance_closure (\<lambda>_ _. True) ?person sample_edges sample_policies = Inr ids"
      "set ids = insert ?person {x. \<exists>t h. related ?person sample_edges sample_policies t x h}"
    using relevance_closure_exact [OF policies, of ?person "\<lambda>_ _. True"] plain by blast
  have "related ?person sample_edges sample_policies (rp_type (sample_policies ! 0)) (units ''decision'') 0"
    by (rule related.anchor [of "sample_edges ! 0"])
       (simp_all add: sample_edges_def known crosses_def, simp_all add: sample_policies_def)
  moreover from this have "related ?person sample_edges sample_policies (rp_type (sample_policies ! 0)) (units ''note'') 0"
    by (rule related.descend [of _ _ _ _ _ _ "sample_edges ! 1"])
       (simp_all add: sample_edges_def known crosses_def units_inject, simp_all add: sample_policies_def)
  ultimately show ?thesis using ids by auto
qed

end
