(* ===== verification/Record_Verification.thy ===== *)
theory Record_Verification
  imports Canonical_Json
begin

text \<open>
  What a reading says about the verification of a record
  (\<open>packages/domain/src/verification.ts\<close>): building it from a row or its absence, and recognizing
  one that was received. Labels are code unit lists, since they hold characters above U+00FF.
\<close>

definition VERIFICATION_BASES :: "jstr list" where
  "VERIFICATION_BASES =
     [units ''reviewed_individually'', units ''promoted_in_bulk'', units ''verified_by_policy'']"

definition UNVERIFIED_LABEL :: jstr where
  "UNVERIFIED_LABEL = units ''UNVERIFIED '' @ [0x2014] @ units '' nobody has checked this record''"

definition VERIFICATION_NOT_VISIBLE_LABEL :: jstr where
  "VERIFICATION_NOT_VISIBLE_LABEL =
     units ''UNVERIFIED '' @ [0x2014] @ units '' no verification is visible to this reader''"

record verified_facts =
  vf_basis :: jstr
  vf_at :: jstr
  vf_by :: jstr
  vf_policy :: "jstr option"
  vf_label :: jstr

datatype record_verification = Unverified jstr | Verified verified_facts

text \<open>A row: the policy column is absent, null or a text.\<close>

record verification_row =
  vr_basis :: jstr
  vr_at :: jstr
  vr_by :: jstr
  vr_policy :: "jstr option"

definition is_basis :: "jval option \<Rightarrow> bool" where
  "is_basis value = (case value of Some (JStr s) \<Rightarrow> s \<in> set VERIFICATION_BASES | _ \<Rightarrow> False)"

definition verified_label :: "jstr \<Rightarrow> jstr \<Rightarrow> jstr \<Rightarrow> jstr option \<Rightarrow> jstr" where
  "verified_label basis by_person at policy =
     (if basis = units ''verified_by_policy''
      then units ''verified by policy '' @ (case policy of None \<Rightarrow> units ''(unnamed)'' | Some p \<Rightarrow> p) @
           units '' set by '' @ by_person @ units '', at '' @ at
      else units ''verified '' @
           (if basis = units ''reviewed_individually'' then units ''reviewed individually'' else units ''promoted in bulk'') @
           units '' by '' @ by_person @ units '' at '' @ at)"

definition build_verification :: "verification_row option \<Rightarrow> bool option \<Rightarrow> string + record_verification" where
  "build_verification facts visible =
     (if visible = Some False then Inr (Unverified VERIFICATION_NOT_VISIBLE_LABEL)
      else case facts of
             None \<Rightarrow> Inr (Unverified UNVERIFIED_LABEL)
           | Some row \<Rightarrow>
               if \<not> is_basis (Some (JStr (vr_basis row))) then Inl ''unknown verification basis''
               else
                 (let policy = (if vr_basis row = units ''verified_by_policy'' then vr_policy row else None) in
                  Inr (Verified
                    \<lparr>vf_basis = vr_basis row, vf_at = vr_at row, vf_by = vr_by row, vf_policy = policy,
                     vf_label = verified_label (vr_basis row) (vr_by row) (vr_at row) policy\<rparr>)))"

text \<open>The object a surface receives.\<close>

definition verification_value :: "record_verification \<Rightarrow> jval" where
  "verification_value v =
     (case v of
        Unverified label \<Rightarrow> JObj [(units ''verified'', JBool False), (units ''label'', JStr label)]
      | Verified f \<Rightarrow> JObj
          ([(units ''verified'', JBool True), (units ''basis'', JStr (vf_basis f)),
            (units ''verifiedAt'', JStr (vf_at f)), (units ''verifiedBy'', JStr (vf_by f))] @
           (case vf_policy f of None \<Rightarrow> [] | Some p \<Rightarrow> [(units ''policyId'', JStr p)]) @
           [(units ''label'', JStr (vf_label f))]))"

definition property_of :: "jval \<Rightarrow> string \<Rightarrow> jval option" where
  "property_of v k = (case v of JObj ps \<Rightarrow> map_of ps (units k) | _ \<Rightarrow> None)"

definition absent :: "jval option \<Rightarrow> bool" where
  "absent x \<longleftrightarrow> x = None \<or> x = Some JUndefined"

text \<open>\<open>typeof x === 'string'\<close>.\<close>

definition text_of :: "jval option \<Rightarrow> jstr option" where
  "text_of x = (case x of Some (JStr s) \<Rightarrow> Some s | _ \<Rightarrow> None)"

lemma text_of_Some [simp]: "text_of x = Some s \<longleftrightarrow> x = Some (JStr s)"
  by (auto simp: text_of_def split: option.splits jval.splits)

definition policy_misplaced :: "jval \<Rightarrow> bool" where
  "policy_misplaced v \<longleftrightarrow>
     \<not> absent (property_of v ''policyId'') \<and>
     (text_of (property_of v ''policyId'') = None \<or>
      property_of v ''basis'' \<noteq> Some (JStr (units ''verified_by_policy'')))"

definition label_honest :: "jval \<Rightarrow> bool" where
  "label_honest v \<longleftrightarrow>
     (case (text_of (property_of v ''basis''), text_of (property_of v ''verifiedAt''),
            text_of (property_of v ''verifiedBy'')) of
        (Some basis, Some at, Some by_person) \<Rightarrow>
          property_of v ''label'' =
            Some (JStr (verified_label basis by_person at (text_of (property_of v ''policyId''))))
      | _ \<Rightarrow> False)"

definition is_record_verification :: "jval \<Rightarrow> bool" where
  "is_record_verification v =
     (if property_of v ''verified'' = Some (JBool False)
      then property_of v ''label'' = Some (JStr UNVERIFIED_LABEL) \<or>
           property_of v ''label'' = Some (JStr VERIFICATION_NOT_VISIBLE_LABEL)
      else if property_of v ''verified'' \<noteq> Some (JBool True) then False
      else if policy_misplaced v then False
      else is_basis (property_of v ''basis'') \<and> label_honest v)"

section \<open>Properties\<close>

text \<open>What \<open>recordVerification\<close> says, \<open>isRecordVerification\<close> accepts: every reading built from
  a row or its absence is recognized, whatever the row's texts.\<close>

theorem built_verification_recognized:
  assumes "build_verification facts visible = Inr v"
  shows "is_record_verification (verification_value v)"
proof (cases v)
  case (Unverified label)
  then have "label = UNVERIFIED_LABEL \<or> label = VERIFICATION_NOT_VISIBLE_LABEL"
    using assms by (auto simp: build_verification_def Let_def split: if_splits option.splits)
  then show ?thesis
    by (auto simp: Unverified verification_value_def is_record_verification_def property_of_def)
next
  case (Verified f)
  then obtain row where facts: "facts = Some row"
    using assms by (cases facts) (auto simp: build_verification_def split: if_splits)
  have row: "is_basis (Some (JStr (vr_basis row)))"
    and f: "f = \<lparr>vf_basis = vr_basis row, vf_at = vr_at row, vf_by = vr_by row,
       vf_policy = (if vr_basis row = units ''verified_by_policy'' then vr_policy row else None),
       vf_label = verified_label (vr_basis row) (vr_by row) (vr_at row)
         (if vr_basis row = units ''verified_by_policy'' then vr_policy row else None)\<rparr>"
    using assms by (auto simp: build_verification_def Let_def facts Verified split: if_splits)
  show ?thesis
    using row by (auto simp: Verified f verification_value_def is_record_verification_def property_of_def
        absent_def policy_misplaced_def text_of_def label_honest_def split: option.splits)
qed

theorem built_verification_recognized_witness:
  "is_record_verification (verification_value (Unverified UNVERIFIED_LABEL))"
  by (rule built_verification_recognized [of None None]) (simp add: build_verification_def)



text \<open>A record the reader cannot see discloses nothing: with \<open>visible: false\<close> the reading is the
  same whether or not somebody verified the record, and whoever did.\<close>

theorem invisible_verification_undisclosed:
  "build_verification facts (Some False) = build_verification facts' (Some False) \<and>
   build_verification facts (Some False) = Inr (Unverified VERIFICATION_NOT_VISIBLE_LABEL)"
  by (simp add: build_verification_def)

end
