(* ===== verification/Agent_Acts.thy ===== *)
theory Agent_Acts
  imports Canonical_Json
begin

text \<open>
  The closed list of acts an agent may write, and the draft a person is shown
  (\<open>packages/domain/src/agent-acts.ts\<close>). Proposed values are arbitrary JavaScript values (\<open>jval\<close>);
  the field labels are code unit lists, since one of them holds a typographic apostrophe.
\<close>

datatype disposition = Submit | Propose
datatype field_kind = Text_field | Uuid | Uuid_list | Text_list | Instant_field | Classification_field
datatype act_route = Capture | Action_route
datatype target_count = No_target | One_target

record agent_field =
  fd_name :: string
  fd_kind :: field_kind
  fd_required :: bool
  fd_label :: jstr
  fd_max :: "nat option"

record agent_act =
  aa_act :: string
  aa_disposition :: disposition
  aa_route :: act_route
  aa_title :: string
  aa_description :: string
  aa_targets :: target_count
  aa_target_kind :: "string option"
  aa_creates :: "string option"
  aa_reason_required :: bool
  aa_fields :: "agent_field list"

definition plain_field :: "string \<Rightarrow> field_kind \<Rightarrow> bool \<Rightarrow> string \<Rightarrow> nat option \<Rightarrow> agent_field" where
  "plain_field name kind required label limit =
     \<lparr>fd_name = name, fd_kind = kind, fd_required = required, fd_label = units label, fd_max = limit\<rparr>"

definition CLASSIFICATION :: agent_field where
  "CLASSIFICATION =
     \<lparr>fd_name = ''classification'', fd_kind = Classification_field, fd_required = False,
      fd_label = units ''Classification (public, internal, confidential, restricted); defaults to the record kind'' @
        [0x2019] @ units ''s'',
      fd_max = None\<rparr>"

definition AGENT_ACTS :: "agent_act list" where
  "AGENT_ACTS =
    [\<lparr>aa_act = ''record_observation'', aa_disposition = Submit, aa_route = Capture,
      aa_title = ''Record an observation'',
      aa_description = ''Capture something that happened, in one gesture (ADR 0034). Lands captured and unverified.'',
      aa_targets = No_target, aa_target_kind = None, aa_creates = Some ''observation'', aa_reason_required = False,
      aa_fields =
        [plain_field ''body'' Text_field True ''What was observed'' (Some 65536),
         plain_field ''subjects'' Uuid_list False ''Records it concerns (ids you can read)'' None,
         plain_field ''tags'' Text_list False ''Tags'' None,
         plain_field ''observed_at'' Instant_field False ''When it was observed (RFC 3339); defaults to now'' None]\<rparr>,
     \<lparr>aa_act = ''propose_decision'', aa_disposition = Submit, aa_route = Action_route,
      aa_title = ''Draft a decision record'',
      aa_description = ''Open a decision record in draft. Accepting it is institutional and separate.'',
      aa_targets = No_target, aa_target_kind = None, aa_creates = Some ''decision_record'', aa_reason_required = False,
      aa_fields = [plain_field ''title'' Text_field True ''Decision title'' (Some 240), CLASSIFICATION]\<rparr>,
     \<lparr>aa_act = ''create_initiative'', aa_disposition = Submit, aa_route = Action_route,
      aa_title = ''Propose an initiative'',
      aa_description = ''Open an initiative in its first state. Authorizing it is institutional.'',
      aa_targets = No_target, aa_target_kind = None, aa_creates = Some ''initiative_project'', aa_reason_required = False,
      aa_fields =
        [plain_field ''title'' Text_field True ''Initiative title'' (Some 240),
         plain_field ''objective'' Text_field True ''What it is for'' (Some 4000),
         plain_field ''sponsor_id'' Uuid True ''Sponsor (a person id)'' None,
         plain_field ''project_code'' Text_field False ''Project code'' (Some 64), CLASSIFICATION]\<rparr>,
     \<lparr>aa_act = ''withdraw_observation'', aa_disposition = Submit, aa_route = Action_route,
      aa_title = ''Withdraw an observation'',
      aa_description = ''Retire an observation nobody should rely on. The withdrawal is itself recorded.'',
      aa_targets = One_target, aa_target_kind = Some ''observation'', aa_creates = None, aa_reason_required = True,
      aa_fields = []\<rparr>,
     \<lparr>aa_act = ''submit_qualification_evidence'', aa_disposition = Submit, aa_route = Action_route,
      aa_title = ''Submit evidence for your Start Here'',
      aa_description = ''Name a record as evidence for one of your own qualification requirements. It credits nothing: it waits in Needs you for a reviewer holding the authority the requirement names.'',
      aa_targets = One_target, aa_target_kind = Some ''qualification_record'', aa_creates = None, aa_reason_required = False,
      aa_fields =
        [plain_field ''requirement_key'' Text_field True ''The requirement it is evidence for (its key on your Start Here)'' (Some 160),
         plain_field ''evidence_object_id'' Uuid True ''The record that is the evidence (an id you can read)'' None,
         plain_field ''note'' Text_field False ''A note for the reviewer'' (Some 2000)]\<rparr>,
     \<lparr>aa_act = ''promote_observation'', aa_disposition = Propose, aa_route = Action_route,
      aa_title = ''Promote an observation (proposed; your person confirms)'',
      aa_description = ''Institutional: the agent proposes it, and it waits in Needs you for the person to perform.'',
      aa_targets = One_target, aa_target_kind = Some ''observation'', aa_creates = None, aa_reason_required = True,
      aa_fields = [plain_field ''promoted_to'' Uuid_list False ''Records it became (each will be derived_from it)'' None]\<rparr>,
     \<lparr>aa_act = ''accept_decision'', aa_disposition = Propose, aa_route = Action_route,
      aa_title = ''Accept a decision (proposed; your person confirms)'',
      aa_description = ''Institutional: proposed by the agent, performed by the person from Needs you.'',
      aa_targets = One_target, aa_target_kind = Some ''decision_record'', aa_creates = None, aa_reason_required = True,
      aa_fields = []\<rparr>,
     \<lparr>aa_act = ''reject_decision'', aa_disposition = Propose, aa_route = Action_route,
      aa_title = ''Reject a decision (proposed; your person confirms)'',
      aa_description = ''Institutional: proposed by the agent, performed by the person from Needs you.'',
      aa_targets = One_target, aa_target_kind = Some ''decision_record'', aa_creates = None, aa_reason_required = True,
      aa_fields = []\<rparr>]"

definition AGENT_ACT_NAMES :: "string list" where
  "AGENT_ACT_NAMES = map aa_act AGENT_ACTS"

definition agent_act :: "string \<Rightarrow> agent_act option" where
  "agent_act act = find (\<lambda>entry. aa_act entry = act) AGENT_ACTS"

section \<open>Texts a field accepts\<close>

text \<open>A shape of fixed length: \<open>d\<close> a digit, \<open>h\<close> a lowercase hexadecimal digit, else itself.\<close>

definition unit_between :: "16 word \<Rightarrow> char \<Rightarrow> char \<Rightarrow> bool" where
  "unit_between u lo hi \<longleftrightarrow> of_char lo \<le> unat u \<and> unat u \<le> of_char hi"

definition shape_unit :: "char \<Rightarrow> 16 word \<Rightarrow> bool" where
  "shape_unit p u \<longleftrightarrow>
     (if p = CHR ''d'' then unit_between u CHR ''0'' CHR ''9''
      else if p = CHR ''h'' then unit_between u CHR ''0'' CHR ''9'' \<or> unit_between u CHR ''a'' CHR ''f''
      else unat u = of_char p)"

definition has_shape :: "string \<Rightarrow> jstr \<Rightarrow> bool" where
  "has_shape shape s \<longleftrightarrow> list_all2 shape_unit shape s"

definition is_uuid :: "jstr \<Rightarrow> bool" where
  "is_uuid s \<longleftrightarrow> has_shape ''hhhhhhhh-hhhh-hhhh-hhhh-hhhhhhhhhhhh'' s"

text \<open>\<open>/^\d{4}-\d{2}-\d{2}T\d{2}:\d{2}:\d{2}(\.\d{1,9})?(Z|[+-]\d{2}:\d{2})$/\<close>.\<close>

definition is_instant :: "jstr \<Rightarrow> bool" where
  "is_instant s \<longleftrightarrow>
     (let rest = drop 19 s;
          digits = takeWhile (shape_unit CHR ''d'') (drop 1 rest);
          zone = (if take 1 rest = units ''.'' \<and> 1 \<le> length digits \<and> length digits \<le> 9
                  then drop (length digits) (drop 1 rest) else rest) in
      has_shape ''dddd-dd-ddTdd:dd:dd'' (take 19 s) \<and>
      (zone = units ''Z'' \<or> has_shape ''+dd:dd'' zone \<or> has_shape ''-dd:dd'' zone))"

definition CLASSIFICATIONS :: "jstr list" where
  "CLASSIFICATIONS = [units ''public'', units ''internal'', units ''confidential'', units ''restricted'']"

text \<open>\<open>String.prototype.trim\<close>.\<close>

definition is_unit_space :: "16 word \<Rightarrow> bool" where
  "is_unit_space u \<longleftrightarrow>
     u \<in> {9, 10, 11, 12, 13, 32, 160, 0x1680, 0x2028, 0x2029, 0x202F, 0x205F, 0x3000, 0xFEFF} \<or>
     0x2000 \<le> u \<and> u \<le> 0x200A"

definition trim_units :: "jstr \<Rightarrow> jstr" where
  "trim_units s = rev (dropWhile is_unit_space (rev (dropWhile is_unit_space s)))"

fun is_text :: "jval \<Rightarrow> bool" where
  "is_text (JStr s) = True"
| "is_text _ = False"

fun text_units :: "jval \<Rightarrow> jstr" where
  "text_units (JStr s) = s"
| "text_units _ = []"

text \<open>\<open>Array.isArray(value) && value.every(p)\<close>; \<open>every\<close> does not visit holes.\<close>

definition every_item :: "(jval \<Rightarrow> bool) \<Rightarrow> jval \<Rightarrow> bool" where
  "every_item p value =
     (case value of JArr items \<Rightarrow> list_all (\<lambda>x. case x of None \<Rightarrow> True | Some v \<Rightarrow> p v) items | _ \<Rightarrow> False)"

definition missing :: "jval option \<Rightarrow> bool" where
  "missing value \<longleftrightarrow> value = None \<or> value = Some JUndefined \<or> value = Some JNull"

definition field_problem :: "agent_field \<Rightarrow> jval option \<Rightarrow> string option" where
  "field_problem field value =
     (if missing value \<or> value = Some (JStr []) then (if fd_required field then Some ''required'' else None)
      else let v = the value; s = text_units v in
        case fd_kind field of
          Text_field \<Rightarrow>
            if \<not> is_text v \<or> trim_units s = [] then Some ''must be text''
            else (case fd_max field of
                    Some n \<Rightarrow> if n < length s then Some (''at most '' @ dec n @ '' characters'') else None
                  | None \<Rightarrow> None)
        | Uuid \<Rightarrow> if is_text v \<and> is_uuid s then None else Some ''must be a record id''
        | Uuid_list \<Rightarrow>
            if every_item (\<lambda>x. is_text x \<and> is_uuid (text_units x)) v then None
            else Some ''must be a list of record ids''
        | Text_list \<Rightarrow>
            if every_item (\<lambda>x. is_text x \<and> trim_units (text_units x) \<noteq> []) v then None
            else Some ''must be a list of text''
        | Instant_field \<Rightarrow> if is_text v \<and> is_instant s then None else Some ''must be RFC 3339''
        | Classification_field \<Rightarrow>
            if is_text v \<and> s \<in> set CLASSIFICATIONS then None
            else Some ''must be one of public, internal, confidential, restricted'')"

section \<open>The draft\<close>

record draft_field =
  df_name :: string
  df_label :: jstr
  df_required :: bool
  df_value :: jval
  df_problem :: "string option"

record agent_draft =
  dr_act :: string
  dr_disposition :: disposition
  dr_title :: string
  dr_targets :: "jstr list"
  dr_reason :: "jstr option"
  dr_fields :: "draft_field list"
  dr_unknown :: "jstr list"
  dr_problems :: "jstr list"
  dr_ready :: bool
  dr_payload :: "(string \<times> jval) list"

definition value_of :: "(jstr \<times> jval) list \<Rightarrow> agent_field \<Rightarrow> jval option" where
  "value_of given field = map_of given (units (fd_name field))"

definition draft_field_of :: "(jstr \<times> jval) list \<Rightarrow> agent_field \<Rightarrow> draft_field" where
  "draft_field_of given field =
     \<lparr>df_name = fd_name field, df_label = fd_label field, df_required = fd_required field,
      df_value = (if missing (value_of given field) then JNull else the (value_of given field)),
      df_problem = field_problem field (value_of given field)\<rparr>"

definition unknown_fields :: "agent_act \<Rightarrow> (jstr \<times> jval) list \<Rightarrow> jstr list" where
  "unknown_fields act given =
     filter (\<lambda>name. \<not> list_ex (\<lambda>field. units (fd_name field) = name) (aa_fields act)) (map fst given)"

definition target_problems :: "agent_act \<Rightarrow> jstr list \<Rightarrow> jstr list" where
  "target_problems act ids =
     (if aa_targets act = No_target \<and> ids \<noteq> []
      then [units (aa_act act @ '' creates its record and names no target'')] else []) @
     (if aa_targets act = One_target \<and> (length ids \<noteq> 1 \<or> \<not> is_uuid (hd ids))
      then [units (aa_act act @ '' acts on exactly one '' @
              (case aa_target_kind act of None \<Rightarrow> ''record'' | Some k \<Rightarrow> k) @ '': name its id'')] else [])"

definition reason_problems :: "agent_act \<Rightarrow> jstr \<Rightarrow> jstr list" where
  "reason_problems act reason =
     (if aa_reason_required act \<and> length reason < 8
      then [units (aa_act act @ '' needs a reason of at least 8 characters that says why'')] else [])"

definition draft_payload :: "agent_act \<Rightarrow> (jstr \<times> jval) list \<Rightarrow> (string \<times> jval) list" where
  "draft_payload act given =
     map (\<lambda>field. (fd_name field, the (value_of given field)))
       (filter (\<lambda>field. \<not> missing (value_of given field)) (aa_fields act))"

definition draft_agent_act :: "agent_act \<Rightarrow> jstr list option \<Rightarrow> (jstr \<times> jval) list option \<Rightarrow> jstr option \<Rightarrow>
    agent_draft" where
  "draft_agent_act act target_ids given reason =
     (let given = (case given of None \<Rightarrow> [] | Some vs \<Rightarrow> vs);
          parts = map (draft_field_of given) (aa_fields act);
          unknown = unknown_fields act given;
          ids = (case target_ids of None \<Rightarrow> [] | Some xs \<Rightarrow> xs);
          why = (case reason of None \<Rightarrow> [] | Some r \<Rightarrow> trim_units r);
          problems = target_problems act ids @ reason_problems act why @
            concat (map (\<lambda>f. case df_problem f of None \<Rightarrow> [] | Some p \<Rightarrow> [units (df_name f @ '': '' @ p)]) parts) @
            map (\<lambda>name. name @ units ('': not a field of '' @ aa_act act)) unknown in
      \<lparr>dr_act = aa_act act, dr_disposition = aa_disposition act, dr_title = aa_title act, dr_targets = ids,
       dr_reason = (if why = [] then None else Some why), dr_fields = parts, dr_unknown = unknown,
       dr_problems = problems, dr_ready = (problems = []), dr_payload = draft_payload act given\<rparr>)"

section \<open>Properties\<close>

text \<open>The values a person's form would accept for a field.\<close>

fun acceptable :: "agent_field \<Rightarrow> jval \<Rightarrow> bool" where
  "acceptable field v =
     (case fd_kind field of
        Text_field \<Rightarrow> (\<exists>s. v = JStr s \<and> trim_units s \<noteq> [] \<and> (\<forall>n. fd_max field = Some n \<longrightarrow> length s \<le> n))
      | Uuid \<Rightarrow> (\<exists>s. v = JStr s \<and> is_uuid s)
      | Uuid_list \<Rightarrow> (\<exists>items. v = JArr items \<and> (\<forall>x. Some x \<in> set items \<longrightarrow> (\<exists>s. x = JStr s \<and> is_uuid s)))
      | Text_list \<Rightarrow> (\<exists>items. v = JArr items \<and> (\<forall>x. Some x \<in> set items \<longrightarrow> (\<exists>s. x = JStr s \<and> trim_units s \<noteq> [])))
      | Instant_field \<Rightarrow> (\<exists>s. v = JStr s \<and> is_instant s)
      | Classification_field \<Rightarrow> (\<exists>s. v = JStr s \<and> s \<in> set CLASSIFICATIONS))"

lemma is_text_iff: "is_text v \<longleftrightarrow> (\<exists>s. v = JStr s)"
  by (cases v) auto

lemma every_item_iff: "every_item p v \<longleftrightarrow> (\<exists>items. v = JArr items \<and> (\<forall>x. Some x \<in> set items \<longrightarrow> p x))"
  by (cases v) (auto simp: every_item_def list_all_iff split: option.splits)

lemma text_and: "is_text v \<and> P (text_units v) \<longleftrightarrow> (\<exists>s. v = JStr s \<and> P s)"
  by (cases v) auto

lemma text_accepted:
  "\<not> (\<not> is_text v \<or> trim_units (text_units v) = []) \<and> (\<forall>n. limit = Some n \<longrightarrow> \<not> n < length (text_units v)) \<longleftrightarrow>
     (\<exists>s. v = JStr s \<and> trim_units s \<noteq> [] \<and> (\<forall>n. limit = Some n \<longrightarrow> length s \<le> n))"
  using text_and [of v "\<lambda>s. trim_units s \<noteq> [] \<and> (\<forall>n. limit = Some n \<longrightarrow> length s \<le> n)"] by (auto simp: not_less)

lemma if_none: "(if b then None else Some x) = None \<longleftrightarrow> b" "(if b then Some x else None) = None \<longleftrightarrow> \<not> b"
  by simp_all

lemma field_problem_none:
  assumes "\<not> missing value" and "value \<noteq> Some (JStr [])"
  shows "field_problem field value = None \<longleftrightarrow> acceptable field (the value)"
proof -
  let ?v = "the value"
  have start: "field_problem field value =
      (case fd_kind field of
          Text_field \<Rightarrow>
            if \<not> is_text ?v \<or> trim_units (text_units ?v) = [] then Some ''must be text''
            else (case fd_max field of
                    Some n \<Rightarrow> if n < length (text_units ?v) then Some (''at most '' @ dec n @ '' characters'') else None
                  | None \<Rightarrow> None)
        | Uuid \<Rightarrow> if is_text ?v \<and> is_uuid (text_units ?v) then None else Some ''must be a record id''
        | Uuid_list \<Rightarrow>
            if every_item (\<lambda>x. is_text x \<and> is_uuid (text_units x)) ?v then None
            else Some ''must be a list of record ids''
        | Text_list \<Rightarrow>
            if every_item (\<lambda>x. is_text x \<and> trim_units (text_units x) \<noteq> []) ?v then None
            else Some ''must be a list of text''
        | Instant_field \<Rightarrow> if is_text ?v \<and> is_instant (text_units ?v) then None else Some ''must be RFC 3339''
        | Classification_field \<Rightarrow>
            if is_text ?v \<and> text_units ?v \<in> set CLASSIFICATIONS then None
            else Some ''must be one of public, internal, confidential, restricted'')"
    using assms by (simp add: field_problem_def Let_def)
  show ?thesis
  proof (cases "fd_kind field")
    case Text_field
    have "field_problem field value = None \<longleftrightarrow>
        \<not> (\<not> is_text ?v \<or> trim_units (text_units ?v) = []) \<and> (\<forall>n. fd_max field = Some n \<longrightarrow> \<not> n < length (text_units ?v))"
      unfolding start by (cases "fd_max field") (simp_all add: Text_field)
    then show ?thesis unfolding text_accepted by (simp add: Text_field)
  next
    case Uuid
    then show ?thesis unfolding start by (simp only: field_kind.case if_none text_and acceptable.simps)
  next
    case Uuid_list
    then show ?thesis
      unfolding start by (simp only: field_kind.case if_none every_item_iff text_and acceptable.simps)
  next
    case Text_list
    then show ?thesis
      unfolding start
      by (simp only: field_kind.case if_none every_item_iff text_and [where P = "\<lambda>s. trim_units s \<noteq> []"] acceptable.simps)
  next
    case Instant_field
    then show ?thesis unfolding start by (simp only: field_kind.case if_none text_and acceptable.simps)
  next
    case Classification_field
    then show ?thesis
      unfolding start
      by (simp only: field_kind.case if_none text_and [where P = "\<lambda>s. s \<in> set CLASSIFICATIONS"] acceptable.simps)
  qed
qed

definition given_values :: "(jstr \<times> jval) list option \<Rightarrow> (jstr \<times> jval) list" where
  "given_values given = (case given of None \<Rightarrow> [] | Some vs \<Rightarrow> vs)"

lemma field_problems_none:
  "concat (map (\<lambda>f. case df_problem f of None \<Rightarrow> [] | Some p \<Rightarrow> [units (df_name f @ '': '' @ p)])
     (map (draft_field_of given) fs)) = [] \<longleftrightarrow> (\<forall>field\<in>set fs. field_problem field (value_of given field) = None)"
  by (induction fs) (auto simp: draft_field_of_def split: option.splits)

lemma ready_iff:
  "dr_ready (draft_agent_act act ids given reason) \<longleftrightarrow>
     target_problems act (case ids of None \<Rightarrow> [] | Some xs \<Rightarrow> xs) = [] \<and>
     reason_problems act (case reason of None \<Rightarrow> [] | Some r \<Rightarrow> trim_units r) = [] \<and>
     (\<forall>field\<in>set (aa_fields act). field_problem field (value_of (given_values given) field) = None) \<and>
     unknown_fields act (given_values given) = []"
  unfolding draft_agent_act_def Let_def given_values_def [symmetric] agent_draft.select_convs
    append_is_Nil_conv map_is_Nil_conv field_problems_none
  by (rule refl)

lemma payload_of_draft: "dr_payload (draft_agent_act act ids given reason) = draft_payload act (given_values given)"
  by (simp add: draft_agent_act_def Let_def given_values_def)

text \<open>C31: A ready draft is a form a person could submit. When a draft reports no problem, every
  required field is in the payload; every value in the payload is one its field accepts (or the
  empty text of an optional field); every proposed value that is not null is in the payload, so
  none is dropped silently; and the act names no target or exactly one record id as it must.\<close>

theorem ready_draft_submittable:
  assumes "dr_ready (draft_agent_act act ids given reason)" and "distinct (map fd_name (aa_fields act))"
  shows "(\<forall>f\<in>set (aa_fields act).
       (fd_required f \<longrightarrow> (\<exists>v. (fd_name f, v) \<in> set (dr_payload (draft_agent_act act ids given reason)))) \<and>
       (\<forall>v. (fd_name f, v) \<in> set (dr_payload (draft_agent_act act ids given reason)) \<longrightarrow>
          acceptable f v \<or> (v = JStr [] \<and> \<not> fd_required f))) \<and>
     (\<forall>k v. map_of (given_values given) k = Some v \<and> v \<noteq> JNull \<and> v \<noteq> JUndefined \<longrightarrow>
        (\<exists>f\<in>set (aa_fields act). k = units (fd_name f) \<and>
           (fd_name f, v) \<in> set (dr_payload (draft_agent_act act ids given reason)))) \<and>
     (aa_targets act = One_target \<longrightarrow> (\<exists>i. ids = Some [i] \<and> is_uuid i)) \<and>
     (aa_targets act = No_target \<longrightarrow> ids = None \<or> ids = Some [])"
proof (intro conjI ballI allI impI)
  note ready = assms(1) [unfolded ready_iff]
  let ?given = "given_values given"
  fix f
  assume f: "f \<in> set (aa_fields act)"
  have none: "field_problem f (value_of ?given f) = None" using ready f by blast
  {
    assume "fd_required f"
    with none have "\<not> missing (value_of ?given f)" by (auto simp: field_problem_def)
    with f show "\<exists>v. (fd_name f, v) \<in> set (dr_payload (draft_agent_act act ids given reason))"
      unfolding payload_of_draft draft_payload_def by fastforce
  }
  fix v
  assume "(fd_name f, v) \<in> set (dr_payload (draft_agent_act act ids given reason))"
  then obtain g where g: "g \<in> set (aa_fields act)" "fd_name g = fd_name f" "v = the (value_of ?given g)"
    "\<not> missing (value_of ?given g)"
    unfolding payload_of_draft draft_payload_def by auto
  then have "g = f" using assms(2) f by (metis distinct_map inj_onD)
  with g have v: "value_of ?given f = Some v" "\<not> missing (value_of ?given f)"
    by (auto simp: missing_def)
  show "acceptable f v \<or> (v = JStr [] \<and> \<not> fd_required f)"
  proof (cases "v = JStr []")
    case True
    with none v show ?thesis by (auto simp: field_problem_def)
  next
    case False
    then have "value_of ?given f \<noteq> Some (JStr [])" using v by simp
    from field_problem_none [OF v(2) this] none v(1) show ?thesis by simp
  qed
next
  note ready = assms(1) [unfolded ready_iff]
  fix k v
  assume kv: "map_of (given_values given) k = Some v \<and> v \<noteq> JNull \<and> v \<noteq> JUndefined"
  then have "k \<in> set (map fst (given_values given))" by (force dest: map_of_SomeD)
  moreover have "unknown_fields act (given_values given) = []" using ready by blast
  ultimately obtain f where f: "f \<in> set (aa_fields act)" "units (fd_name f) = k"
    by (auto simp: unknown_fields_def filter_empty_conv list_ex_iff)
  with kv have "\<not> missing (value_of (given_values given) f)" "the (value_of (given_values given) f) = v"
    by (auto simp: missing_def value_of_def)
  with f show "\<exists>f\<in>set (aa_fields act). k = units (fd_name f) \<and>
      (fd_name f, v) \<in> set (dr_payload (draft_agent_act act ids given reason))"
    unfolding payload_of_draft draft_payload_def by (intro bexI [of _ f]) force+
next
  note ready = assms(1) [unfolded ready_iff]
  show "\<exists>i. ids = Some [i] \<and> is_uuid i" if "aa_targets act = One_target"
    using ready that by (cases ids) (auto simp: target_problems_def length_Suc_conv split: if_splits)
  show "ids = None \<or> ids = Some []" if "aa_targets act = No_target"
    using ready that by (cases ids) (auto simp: target_problems_def split: if_splits)
qed

theorem ready_draft_submittable_witness:
  "\<exists>act v. agent_act ''propose_decision'' = Some act \<and>
     (''title'', v) \<in> set (dr_payload (draft_agent_act act None (Some [(units ''title'', JStr (units ''A''))]) None))"
proof -
  define act where "act = the (agent_act ''propose_decision'')"
  have act: "agent_act ''propose_decision'' = Some act" "aa_targets act = No_target" "\<not> aa_reason_required act"
    "aa_fields act = [plain_field ''title'' Text_field True ''Decision title'' (Some 240), CLASSIFICATION]"
    by (simp_all add: act_def agent_act_def AGENT_ACTS_def)
  have "\<not> is_unit_space (word_of_nat (of_char CHR ''A''))"
    unfolding is_unit_space_def unat_unit by simp
  then have trim: "trim_units (units ''A'') \<noteq> []"
    by (simp add: trim_units_def units_Cons del: of_char_Char)
  have ready: "dr_ready (draft_agent_act act None (Some [(units ''title'', JStr (units ''A''))]) None)"
    using trim unfolding ready_iff
    by (simp add: target_problems_def reason_problems_def given_values_def unknown_fields_def act value_of_def
        field_problem_def plain_field_def CLASSIFICATION_def missing_def) (simp add: units_def)
  have "distinct (map fd_name (aa_fields act))" by (simp add: act plain_field_def CLASSIFICATION_def)
  note ok = ready_draft_submittable [OF ready this]
  have "\<exists>f\<in>set (aa_fields act). fd_required f \<and> fd_name f = ''title''" by (simp add: act plain_field_def)
  with ok act(1) show ?thesis by metis
qed

text \<open>The list is closed and cautious: no two entries share a name; every act on the list that
  is only proposed (the institutional ones) names exactly one existing record and requires a
  reason; and only the capture seam's act avoids the dispatcher.\<close>

theorem agent_acts_closed:
  "distinct AGENT_ACT_NAMES \<and>
   (\<forall>a\<in>set AGENT_ACTS. aa_disposition a = Propose \<longrightarrow>
      aa_targets a = One_target \<and> aa_reason_required a \<and> aa_creates a = None) \<and>
   (\<forall>a\<in>set AGENT_ACTS. aa_route a = Capture \<longleftrightarrow> aa_act a = ''record_observation'') \<and>
   (\<forall>a\<in>set AGENT_ACTS. agent_act (aa_act a) = Some a)"
proof (intro conjI)
  show d: "distinct AGENT_ACT_NAMES" by (simp add: AGENT_ACT_NAMES_def AGENT_ACTS_def)
  have "list_all (\<lambda>a. aa_disposition a = Propose \<longrightarrow>
      aa_targets a = One_target \<and> aa_reason_required a \<and> aa_creates a = None) AGENT_ACTS"
    by (simp add: AGENT_ACTS_def)
  then show "\<forall>a\<in>set AGENT_ACTS. aa_disposition a = Propose \<longrightarrow>
      aa_targets a = One_target \<and> aa_reason_required a \<and> aa_creates a = None"
    by (simp add: list_all_iff)
  have "list_all (\<lambda>a. aa_route a = Capture \<longleftrightarrow> aa_act a = ''record_observation'') AGENT_ACTS"
    by (simp add: AGENT_ACTS_def)
  then show "\<forall>a\<in>set AGENT_ACTS. aa_route a = Capture \<longleftrightarrow> aa_act a = ''record_observation''"
    by (simp add: list_all_iff)
  have "find (\<lambda>x. aa_act x = aa_act a) xs = Some a" if "distinct (map aa_act xs)" "a \<in> set xs" for a and xs :: "agent_act list"
    using that by (induction xs) auto
  with d show "\<forall>a\<in>set AGENT_ACTS. agent_act (aa_act a) = Some a"
    by (simp add: agent_act_def AGENT_ACT_NAMES_def)
qed

theorem agent_acts_closed_witness:
  "agent_act ''accept_decision'' = Some (AGENT_ACTS ! 6) \<and> aa_disposition (AGENT_ACTS ! 6) = Propose \<and>
   aa_targets (AGENT_ACTS ! 6) = One_target"
proof -
  have seventh: "AGENT_ACTS ! 6 \<in> set AGENT_ACTS" by (rule nth_mem) (simp add: AGENT_ACTS_def)
  have facts: "aa_act (AGENT_ACTS ! 6) = ''accept_decision''" "aa_disposition (AGENT_ACTS ! 6) = Propose"
    by (simp_all add: AGENT_ACTS_def)
  with seventh agent_acts_closed show ?thesis by metis
qed

end
