(* ===== verification/Projection_Engine.thy ===== *)
theory Projection_Engine
  imports Complex_Main Relevance_Walk Record_Verification Agent_Acts Action_Requests
begin

text \<open>
  The projection engine (\<open>packages/projections/src/engine.ts\<close>, \<open>types.ts\<close>): binding of
  parameters, the static bounds, the filters, the evaluation of one projection over one corpus, the
  two narrowed evaluations and the digest of a result.

  A reading of the clock is \<open>now k\<close>; the first one sets the deadline and each \<open>tick\<close> takes
  the next. \<open>localeCompare\<close> and SHA-256 are parameters. A refusal keeps its reason; its message,
  which is text for people, is left out. What the engine checks at run time because it does not trust
  its source (budgets, depth, parameter values, verifications) is an arbitrary value (\<open>jval\<close>).
\<close>

section \<open>Types\<close>

record projection_member =
  pm_id :: jstr
  pm_type :: jstr
  pm_organization :: jstr
  pm_classification :: jstr
  pm_digest :: jstr
  pm_state :: "jstr option"
  pm_item :: jstr
  pm_title :: "jstr option"
  pm_content :: "jval option"
  pm_withdrawn_at :: "jstr option"
  pm_withdrawal_reason :: "jstr option"
  pm_verification :: jval

record projection_corpus =
  pc_person :: jstr
  pc_organization :: jstr
  pc_digest :: jstr
  pc_members :: "projection_member list"

record projection_graph =
  pg_edges :: "relevance_edge list"
  pg_policies :: "relation_policy list"

datatype reachability = Reached | Unreached

datatype projection_select = Select_anchor | Select_reached | Select_unreached | Select_withdrawn | Select_all

record projection_filter =
  pf_types :: "jstr list option"
  pf_states :: "jstr list option"
  pf_class_max :: "jstr option"
  pf_items :: "jstr list option"
  pf_reach :: "reachability option"

record projection_section =
  ps_id :: jstr
  ps_title :: jstr
  ps_select :: projection_select
  ps_filter :: "projection_filter option"

datatype parameter_type = Uuid_param | Integer_param | String_param | Enum_param | Boolean_param

record projection_parameter =
  pp_name :: jstr
  pp_type :: parameter_type
  pp_required :: bool
  pp_values :: "jstr list option"
  pp_minimum :: "rat option"
  pp_maximum :: "rat option"

datatype traverse_relations = Person_anchors | All_relations | Relations "jstr list"

record projection_traverse =
  tv_relations :: traverse_relations
  tv_depth :: jval

datatype projection_anchor = Anchor_person | Anchor_object

record projection_definition =
  pd_id :: jstr
  pd_version :: jnum
  pd_anchor :: projection_anchor
  pd_parameters :: "projection_parameter list"
  pd_filter :: "projection_filter option"
  pd_traverse :: "projection_traverse option"
  pd_sections :: "projection_section list"
  pd_remainder_id :: jstr
  pd_remainder_title :: jstr
  pd_sort :: "jstr list"
  pd_max_members :: "jval option"
  pd_max_runtime :: "jval option"

datatype refusal_reason =
    Unknown_parameter
  | Missing_parameter
  | Bad_parameter_type
  | Budget_exceeded
  | Unbounded_definition
  | Coverage
  | Foreign_member
  | Unlabelled_member

datatype projection_error =
    Refused refusal_reason
  | Missing_relevance_policy jstr
  | Not_canonicalizable canon_error

definition refuse_unless :: "bool \<Rightarrow> refusal_reason \<Rightarrow> projection_error + unit" where
  "refuse_unless ok why = (if ok then Inr () else Inl (Refused why))"

section \<open>Numbers\<close>

text \<open>
  The integer a number is, if it is one: a finite number has as many integer digits as the position
  of its point says, and its shortest digits do not end in 0.
\<close>

fun integer_value :: "jnum \<Rightarrow> int option" where
  "integer_value NaN = None"
| "integer_value (Infinity _) = None"
| "integer_value (Zero _) = Some 0"
| "integer_value (Finite neg s n) =
     (if int (length (dec s)) \<le> n
      then Some ((if neg then - 1 else 1) * int s * 10 ^ nat (n - int (length (dec s)))) else None)"

definition safe_integer :: "jnum \<Rightarrow> int option" where
  "safe_integer v =
     (case integer_value v of None \<Rightarrow> None | Some i \<Rightarrow> if \<bar>i\<bar> \<le> 2 ^ 53 - 1 then Some i else None)"

section \<open>Parameters\<close>

definition lower_hex :: "16 word \<Rightarrow> 16 word" where
  "lower_hex u = (if unit_between u CHR ''A'' CHR ''F'' then u + 32 else u)"

definition parameter_fits :: "projection_parameter \<Rightarrow> jval \<Rightarrow> bool" where
  "parameter_fits p v =
     (case pp_type p of
        Integer_param \<Rightarrow>
          (case v of
             JNum k \<Rightarrow>
               (case safe_integer k of
                  None \<Rightarrow> False
                | Some i \<Rightarrow>
                    (case pp_minimum p of None \<Rightarrow> True | Some m \<Rightarrow> m \<le> of_int i) \<and>
                    (case pp_maximum p of None \<Rightarrow> True | Some m \<Rightarrow> of_int i \<le> m))
           | _ \<Rightarrow> False)
      | Boolean_param \<Rightarrow> (case v of JBool _ \<Rightarrow> True | _ \<Rightarrow> False)
      | Uuid_param \<Rightarrow> (case v of JStr s \<Rightarrow> is_uuid (map lower_hex s) | _ \<Rightarrow> False)
      | Enum_param \<Rightarrow>
          (case v of JStr s \<Rightarrow> s \<in> set (case pp_values p of None \<Rightarrow> [] | Some vs \<Rightarrow> vs) | _ \<Rightarrow> False)
      | String_param \<Rightarrow> (case v of JStr _ \<Rightarrow> True | _ \<Rightarrow> False))"

fun bind_from :: "projection_parameter list \<Rightarrow> (jstr \<times> jval) list \<Rightarrow> (jstr \<times> jval) list \<Rightarrow>
    projection_error + (jstr \<times> jval) list" where
  "bind_from [] supplied bound = Inr bound"
| "bind_from (p # ps) supplied bound =
     (case map_of supplied (pp_name p) of
        Some v \<Rightarrow>
          if v = JUndefined
          then (if pp_required p then Inl (Refused Missing_parameter) else bind_from ps supplied bound)
          else if parameter_fits p v then bind_from ps supplied (AList.update (pp_name p) v bound)
          else Inl (Refused Bad_parameter_type)
      | None \<Rightarrow> if pp_required p then Inl (Refused Missing_parameter) else bind_from ps supplied bound)"

definition bind_parameters :: "projection_definition \<Rightarrow> (jstr \<times> jval) list \<Rightarrow>
    projection_error + (jstr \<times> jval) list" where
  "bind_parameters d supplied =
     (if list_all (\<lambda>(name, _). name \<in> pp_name ` set (pd_parameters d)) supplied
      then bind_from (pd_parameters d) supplied []
      else Inl (Refused Unknown_parameter))"

section \<open>Filters and order\<close>

definition class_rank :: "jstr \<Rightarrow> nat option" where
  "class_rank c =
     map_of [(units ''public'', 0), (units ''internal'', 1), (units ''confidential'', 2),
             (units ''restricted'', 3)] c"

text \<open>\<open>RANK[a] > RANK[b]\<close>, false where a class is not in the table.\<close>

definition rank_above :: "jstr \<Rightarrow> jstr \<Rightarrow> bool" where
  "rank_above a b =
     (case (class_rank a, class_rank b) of (Some m, Some n) \<Rightarrow> n < m | _ \<Rightarrow> False)"

definition listed :: "jstr list option \<Rightarrow> jstr \<Rightarrow> bool" where
  "listed xs x = (case xs of None \<Rightarrow> True | Some ys \<Rightarrow> x \<in> set ys)"

definition admits :: "projection_filter option \<Rightarrow> projection_member \<Rightarrow> jstr list \<Rightarrow> bool" where
  "admits filt m reached =
     (case filt of
        None \<Rightarrow> True
      | Some f \<Rightarrow>
          (case pf_reach f of
             None \<Rightarrow> True
           | Some Reached \<Rightarrow> pm_id m \<in> set reached
           | Some Unreached \<Rightarrow> pm_id m \<notin> set reached) \<and>
          listed (pf_types f) (pm_type m) \<and>
          (case pf_states f of
             None \<Rightarrow> True
           | Some states \<Rightarrow> (case pm_state m of None \<Rightarrow> False | Some s \<Rightarrow> s \<in> set states)) \<and>
          (case pf_class_max f of None \<Rightarrow> True | Some c \<Rightarrow> \<not> rank_above (pm_classification m) c) \<and>
          listed (pf_items f) (pm_item m))"

definition or_empty :: "jstr option \<Rightarrow> jstr" where
  "or_empty s = (case s of None \<Rightarrow> [] | Some t \<Rightarrow> t)"

definition sort_field :: "projection_member \<Rightarrow> jstr \<Rightarrow> jstr" where
  "sort_field m field =
     (if field = units ''object_id'' then pm_id m
      else if field = units ''object_type'' then pm_type m
      else if field = units ''title'' then or_empty (pm_title m)
      else if field = units ''classification'' then pm_classification m
      else if field = units ''lifecycle_state'' then or_empty (pm_state m)
      else [])"

definition member_key :: "jstr list \<Rightarrow> projection_member \<Rightarrow> jstr" where
  "member_key names m = join_with (units '' '') (map (sort_field m) names @ [pm_id m])"

section \<open>Static bounds\<close>

definition MAX_DEPTH :: int where
  "MAX_DEPTH = 8"

definition MAX_RUNTIME_MS :: int where
  "MAX_RUNTIME_MS = 30000"

definition MAX_MEMBERS :: int where
  "MAX_MEMBERS = 100000"

definition integer_of :: "jval option \<Rightarrow> int option" where
  "integer_of v = (case v of Some (JNum k) \<Rightarrow> integer_value k | _ \<Rightarrow> None)"

definition budget_within :: "jval option \<Rightarrow> int \<Rightarrow> bool" where
  "budget_within v limit = (case integer_of v of None \<Rightarrow> False | Some i \<Rightarrow> 1 \<le> i \<and> i \<le> limit)"

definition depth_within :: "jval \<Rightarrow> bool" where
  "depth_within v = (case integer_of (Some v) of None \<Rightarrow> False | Some i \<Rightarrow> 0 \<le> i \<and> i \<le> MAX_DEPTH)"

definition assert_bounded :: "projection_definition \<Rightarrow> projection_error + unit" where
  "assert_bounded d =
     bindE (refuse_unless (budget_within (pd_max_members d) MAX_MEMBERS) Unbounded_definition) (\<lambda>_.
     bindE (refuse_unless (budget_within (pd_max_runtime d) MAX_RUNTIME_MS) Unbounded_definition) (\<lambda>_.
     refuse_unless (case pd_traverse d of None \<Rightarrow> True | Some t \<Rightarrow> depth_within (tv_depth t)) Unbounded_definition))"

text \<open>What \<open>assertBounded\<close> let through, read as the integer it is.\<close>

definition budget_value :: "jval option \<Rightarrow> int" where
  "budget_value v = (case integer_of v of None \<Rightarrow> 0 | Some i \<Rightarrow> i)"

definition depth_value :: "projection_traverse \<Rightarrow> int" where
  "depth_value t = budget_value (Some (tv_depth t))"

definition assert_member_budget :: "projection_definition \<Rightarrow> nat \<Rightarrow> projection_error + unit" where
  "assert_member_budget d n =
     bindE (assert_bounded d) (\<lambda>_. refuse_unless (int n \<le> budget_value (pd_max_members d)) Budget_exceeded)"

section \<open>Walks\<close>

definition walk_result :: "walk_error + 'a \<Rightarrow> projection_error + 'a" where
  "walk_result r =
     (case r of
        Inl Out_of_time \<Rightarrow> Inl (Refused Budget_exceeded)
      | Inl (Missing_policy t) \<Rightarrow> Inl (Missing_relevance_policy t)
      | Inr x \<Rightarrow> Inr x)"

definition walk_from_object :: "(nat \<Rightarrow> bool) \<Rightarrow> projection_traverse \<Rightarrow> jstr \<Rightarrow> relevance_edge list \<Rightarrow>
    projection_error + (jstr list \<times> relevance_edge list) \<times> nat" where
  "walk_from_object late t anchor edges =
     walk_result (neighbourhood late 0 anchor edges (nat (depth_value t))
       (case tv_relations t of Relations types \<Rightarrow> Some types | _ \<Rightarrow> None))"

definition person_policies :: "projection_traverse \<Rightarrow> relation_policy list \<Rightarrow> relation_policy list" where
  "person_policies t policies =
     (let allowed = (case tv_relations t of
                       Relations types \<Rightarrow> types
                     | _ \<Rightarrow> map rp_type (filter rp_anchor policies)) in
      map (\<lambda>p. if rp_type p \<in> set allowed then p\<lparr>rp_depth := min (rp_depth p) (depth_value t)\<rparr>
               else if tv_relations t = Person_anchors then p
               else p\<lparr>rp_anchor := False\<rparr>) policies)"

text \<open>What a walk found: the ids, the edges of an object reading, the fan-outs, the ticks used.\<close>

record reach_found =
  rf_ids :: "jstr list"
  rf_edges :: "relevance_edge list option"
  rf_by_anchor :: "(jstr \<times> nat) list"
  rf_by_class :: "(jstr \<times> nat) list"
  rf_ticks :: nat

definition walk_projection :: "(jstr \<Rightarrow> jstr \<Rightarrow> bool) \<Rightarrow> (nat \<Rightarrow> bool) \<Rightarrow> projection_definition \<Rightarrow> jstr \<Rightarrow>
    projection_corpus \<Rightarrow> projection_graph \<Rightarrow> bool \<Rightarrow> projection_error + reach_found" where
  "walk_projection locale_le late d anchor corpus graph scoped =
     (case pd_traverse d of
        None \<Rightarrow> Inr \<lparr>rf_ids = [], rf_edges = None, rf_by_anchor = [], rf_by_class = [], rf_ticks = 0\<rparr>
      | Some t \<Rightarrow>
          if pd_anchor d = Anchor_object
          then bindE (walk_from_object late t anchor (pg_edges graph)) (\<lambda>((ids, edges), n).
                 bindE (refuse_unless (scoped \<longrightarrow> list_all (\<lambda>m. pm_id m \<in> set ids) (pc_members corpus)) Coverage) (\<lambda>_.
                 Inr \<lparr>rf_ids = ids, rf_edges = Some edges, rf_by_anchor = [], rf_by_class = [], rf_ticks = n\<rparr>))
          else bindE (walk_result (relevance_closure_with_metrics locale_le late 0 (pc_person corpus)
                        (pg_edges graph) (person_policies t (pg_policies graph)))) (\<lambda>(c, n).
                 Inr \<lparr>rf_ids = cr_ids c, rf_edges = None, rf_by_anchor = cr_by_anchor c,
                      rf_by_class = cr_by_class c, rf_ticks = n\<rparr>))"

section \<open>Placing members\<close>

definition selects :: "projection_select \<Rightarrow> jstr \<Rightarrow> jstr list \<Rightarrow> projection_member \<Rightarrow> bool" where
  "selects sel anchor reached m =
     (case sel of
        Select_anchor \<Rightarrow> pm_id m = anchor
      | Select_all \<Rightarrow> True
      | Select_withdrawn \<Rightarrow> pm_item m = units ''withdrawn''
      | Select_reached \<Rightarrow> pm_item m = units ''included'' \<and> pm_id m \<in> set reached
      | Select_unreached \<Rightarrow> pm_item m = units ''included'' \<and> pm_id m \<notin> set reached)"

definition home_of :: "projection_definition \<Rightarrow> jstr \<Rightarrow> jstr list \<Rightarrow> projection_member \<Rightarrow> jstr" where
  "home_of d anchor reached m =
     (case find (\<lambda>s. selects (ps_select s) anchor reached m \<and> admits (ps_filter s) m reached) (pd_sections d) of
        None \<Rightarrow> pd_remainder_id d
      | Some s \<Rightarrow> ps_id s)"

text \<open>The loop over the candidates; a bucket exists for every section id and for the remainder.\<close>

fun place_members :: "(nat \<Rightarrow> bool) \<Rightarrow> (projection_member \<Rightarrow> jstr) \<Rightarrow> projection_member list \<Rightarrow>
    (jstr \<Rightarrow> projection_member list) \<Rightarrow> nat \<Rightarrow> projection_error + (jstr \<Rightarrow> projection_member list) \<times> nat" where
  "place_members late home [] buckets n = Inr (buckets, n)"
| "place_members late home (m # ms) buckets n =
     (if late n then Inl (Refused Budget_exceeded)
      else place_members late home ms (buckets(home m := buckets (home m) @ [m])) (Suc n))"

record result_section =
  sr_id :: jstr
  sr_title :: jstr
  sr_members :: "projection_member list"

definition result_sections :: "projection_definition \<Rightarrow> (jstr \<Rightarrow> projection_member list) \<Rightarrow> result_section list" where
  "result_sections d buckets =
     map (\<lambda>(i, title). \<lparr>sr_id = i, sr_title = title, sr_members = sort_key (member_key (pd_sort d)) (buckets i)\<rparr>)
       (map (\<lambda>s. (ps_id s, ps_title s)) (pd_sections d) @ [(pd_remainder_id d, pd_remainder_title d)])"

section \<open>The result and its digest\<close>

record measurements =
  ms_members :: int
  ms_corpus :: int
  ms_excluded :: int
  ms_unverified :: int
  ms_sections :: "(jstr \<times> nat) list"
  ms_reached :: int
  ms_by_anchor :: "(jstr \<times> nat) list"
  ms_by_class :: "(jstr \<times> nat) list"

record projection_result =
  pr_definition :: jstr
  pr_version :: jnum
  pr_parameters :: "(jstr \<times> jval) list"
  pr_person :: jstr
  pr_organization :: jstr
  pr_corpus :: jstr
  pr_sections :: "result_section list"
  pr_edges :: "relevance_edge list option"
  pr_measures :: measurements
  pr_digest :: string

definition RESULT_FORMAT :: string where
  "RESULT_FORMAT = ''kf-projection-result-v2''"

definition list_value :: "jval list \<Rightarrow> jval" where
  "list_value vs = JArr (map Some vs)"

definition verified :: "projection_member \<Rightarrow> bool" where
  "verified m \<longleftrightarrow> property_of (pm_verification m) ''verified'' = Some (JBool True)"

text \<open>A property read of an object: undefined where it has none.\<close>

definition read_property :: "jval \<Rightarrow> string \<Rightarrow> jval" where
  "read_property v k = (case property_of v k of None \<Rightarrow> JUndefined | Some x \<Rightarrow> x)"

definition verification_tuple :: "projection_member \<Rightarrow> jval" where
  "verification_tuple m =
     (let v = pm_verification m in
      if verified m
      then list_value [JStr (units ''verified''), read_property v ''basis'', read_property v ''verifiedAt'',
                       read_property v ''verifiedBy'']
      else list_value [JStr (units ''unverified''), read_property v ''label''])"

definition member_tuple :: "projection_member \<Rightarrow> jval" where
  "member_tuple m = list_value [JStr (pm_id m), JStr (pm_digest m), JStr (pm_item m), verification_tuple m]"

definition section_tuple :: "result_section \<Rightarrow> jval" where
  "section_tuple s =
     JObj [(units ''id'', JStr (sr_id s)), (units ''members'', list_value (map member_tuple (sr_members s)))]"

definition definition_value :: "projection_result \<Rightarrow> jval" where
  "definition_value r =
     JObj [(units ''id'', JStr (pr_definition r)), (units ''version'', JNum (pr_version r))]"

definition source_value :: "projection_result \<Rightarrow> jval" where
  "source_value r =
     JObj [(units ''personId'', JStr (pr_person r)), (units ''organizationId'', JStr (pr_organization r)),
           (units ''corpusDigest'', JStr (pr_corpus r))]"

definition edge_tuple :: "relevance_edge \<Rightarrow> jval" where
  "edge_tuple e = list_value [JStr (e_type e), JStr (e_source e), JStr (e_target e)]"

definition digest_members :: "projection_result \<Rightarrow> (jstr \<times> jval) list" where
  "digest_members r =
     [(units ''definition'', definition_value r), (units ''parameters'', JObj (pr_parameters r)),
      (units ''source'', source_value r),
      (units ''sections'', list_value (map section_tuple (pr_sections r)))] @
     (case pr_edges r of None \<Rightarrow> [] | Some es \<Rightarrow> [(units ''edges'', list_value (map edge_tuple es))])"

definition projection_result_digest :: "sha256 \<Rightarrow> projection_result \<Rightarrow> projection_error + string" where
  "projection_result_digest H r =
     (case tagged_digest H RESULT_FORMAT (JObj (digest_members r)) of
        Inl e \<Rightarrow> Inl (Not_canonicalizable e)
      | Inr digest \<Rightarrow> Inr digest)"

subsection \<open>The whole result, as the final \<open>canonicalize(result)\<close> reads it\<close>

definition optional :: "string \<Rightarrow> jval option \<Rightarrow> (jstr \<times> jval) list" where
  "optional k v = (case v of None \<Rightarrow> [] | Some x \<Rightarrow> [(units k, x)])"

definition int_value :: "int \<Rightarrow> jval" where
  "int_value i = JNum (integer_number i)"

definition counts_value :: "(jstr \<times> nat) list \<Rightarrow> jval" where
  "counts_value m = JObj (map (apsnd (\<lambda>n. int_value (int n))) m)"

definition member_value :: "projection_member \<Rightarrow> jval" where
  "member_value m = JObj
     ([(units ''objectId'', JStr (pm_id m)), (units ''objectType'', JStr (pm_type m)),
       (units ''organizationId'', JStr (pm_organization m)), (units ''classification'', JStr (pm_classification m)),
       (units ''contentDigest'', JStr (pm_digest m))] @ optional ''lifecycleState'' (map_option JStr (pm_state m)) @
      [(units ''itemState'', JStr (pm_item m))] @ optional ''title'' (map_option JStr (pm_title m)) @
      optional ''content'' (pm_content m) @ optional ''withdrawnAt'' (map_option JStr (pm_withdrawn_at m)) @
      optional ''withdrawalReason'' (map_option JStr (pm_withdrawal_reason m)) @
      [(units ''verification'', pm_verification m)])"

definition edge_value :: "relevance_edge \<Rightarrow> jval" where
  "edge_value e =
     JObj [(units ''sourceId'', JStr (e_source e)), (units ''targetId'', JStr (e_target e)),
           (units ''relationType'', JStr (e_type e))]"

definition measures_value :: "measurements \<Rightarrow> jval" where
  "measures_value ms = JObj
     [(units ''memberCount'', int_value (ms_members ms)), (units ''corpusMemberCount'', int_value (ms_corpus ms)),
      (units ''excludedByFilter'', int_value (ms_excluded ms)), (units ''unverifiedCount'', int_value (ms_unverified ms)),
      (units ''sectionCounts'', counts_value (ms_sections ms)), (units ''reachedCount'', int_value (ms_reached ms)),
      (units ''relevanceFanoutByAnchorType'', counts_value (ms_by_anchor ms)),
      (units ''relevanceFanoutByPropagationClass'', counts_value (ms_by_class ms))]"

definition result_value :: "projection_result \<Rightarrow> jval" where
  "result_value r = JObj
     ([(units ''format'', JStr (units RESULT_FORMAT)), (units ''definition'', definition_value r),
       (units ''parameters'', JObj (pr_parameters r)), (units ''source'', source_value r),
       (units ''sections'', list_value (map (\<lambda>s. JObj [(units ''id'', JStr (sr_id s)), (units ''title'', JStr (sr_title s)),
          (units ''members'', list_value (map member_value (sr_members s)))]) (pr_sections r)))] @
      optional ''edges'' (map_option (\<lambda>es. list_value (map edge_value es)) (pr_edges r)) @
      [(units ''measurements'', measures_value (pr_measures r)), (units ''projectionDigest'', JStr (units (pr_digest r)))])"

section \<open>Evaluation\<close>

definition check_member :: "projection_corpus \<Rightarrow> projection_member \<Rightarrow> projection_error + unit" where
  "check_member corpus m =
     (if pm_organization m \<noteq> pc_organization corpus then Inl (Refused Foreign_member)
      else refuse_unless (is_record_verification (pm_verification m)) Unlabelled_member)"

fun check_members :: "projection_corpus \<Rightarrow> projection_member list \<Rightarrow> projection_error + unit" where
  "check_members corpus [] = Inr ()"
| "check_members corpus (m # ms) = bindE (check_member corpus m) (\<lambda>_. check_members corpus ms)"

text \<open>\<open>String(value)\<close> of a bound parameter, absent ones included.\<close>

definition text_of_parameter :: "jval option \<Rightarrow> jstr" where
  "text_of_parameter v =
     (case v of
        Some (JStr s) \<Rightarrow> s
      | Some (JNum k) \<Rightarrow> units (num_text k)
      | Some (JBool b) \<Rightarrow> units (if b then ''true'' else ''false'')
      | _ \<Rightarrow> units ''undefined'')"

definition anchor_of :: "projection_definition \<Rightarrow> (jstr \<times> jval) list \<Rightarrow> projection_corpus \<Rightarrow> jstr" where
  "anchor_of d parameters corpus =
     (if pd_anchor d = Anchor_object then text_of_parameter (map_of parameters (units ''object_id''))
      else pc_person corpus)"

definition edge_order :: "relevance_edge \<Rightarrow> jstr" where
  "edge_order e = join_with (units '' '') [e_type e, e_source e, e_target e]"

definition placed_edges :: "result_section list \<Rightarrow> relevance_edge list \<Rightarrow> relevance_edge list" where
  "placed_edges sections es =
     (let ids = pm_id ` set (concat (map sr_members sections)) in
      sort_key edge_order (filter (\<lambda>e. e_source e \<in> ids \<and> e_target e \<in> ids) es))"

definition build_result :: "projection_definition \<Rightarrow> (jstr \<times> jval) list \<Rightarrow> projection_corpus \<Rightarrow> reach_found \<Rightarrow>
    int \<Rightarrow> nat \<Rightarrow> result_section list \<Rightarrow> projection_result" where
  "build_result d parameters corpus found corpus_count candidate_count sections =
     \<lparr>pr_definition = pd_id d, pr_version = pd_version d, pr_parameters = parameters,
      pr_person = pc_person corpus, pr_organization = pc_organization corpus, pr_corpus = pc_digest corpus,
      pr_sections = sections, pr_edges = map_option (placed_edges sections) (rf_edges found),
      pr_measures =
        \<lparr>ms_members = int candidate_count, ms_corpus = corpus_count,
         ms_excluded = corpus_count - int candidate_count,
         ms_unverified = int (length (filter (\<lambda>m. \<not> verified m) (concat (map sr_members sections)))),
         ms_sections = fold (\<lambda>s. AList.update (sr_id s) (length (sr_members s))) sections [],
         ms_reached = int (length (filter (\<lambda>i. i \<in> pm_id ` set (pc_members corpus)) (rf_ids found))),
         ms_by_anchor = rf_by_anchor found, ms_by_class = rf_by_class found\<rparr>,
      pr_digest = []\<rparr>"

definition seal_result :: "sha256 \<Rightarrow> projection_result \<Rightarrow> projection_error + projection_result" where
  "seal_result H body =
     bindE (projection_result_digest H body) (\<lambda>digest.
       (let r = body\<lparr>pr_digest := digest\<rparr> in
        case canonicalize (result_value r) of Inl e \<Rightarrow> Inl (Not_canonicalizable e) | Inr _ \<Rightarrow> Inr r))"

text \<open>The deadline is set by the first reading of the clock; the \<open>k\<close>-th tick takes the next.\<close>

definition past_deadline :: "(nat \<Rightarrow> rat) \<Rightarrow> projection_definition \<Rightarrow> nat \<Rightarrow> bool" where
  "past_deadline now d k \<longleftrightarrow> now 0 + of_int (budget_value (pd_max_runtime d)) < now (Suc k)"

text \<open>From the walk on: filter, place, check coverage, build and seal.\<close>

definition finish_projection :: "sha256 \<Rightarrow> (nat \<Rightarrow> bool) \<Rightarrow> projection_definition \<Rightarrow> (jstr \<times> jval) list \<Rightarrow>
    projection_corpus \<Rightarrow> jstr \<Rightarrow> int \<Rightarrow> reach_found \<Rightarrow> projection_error + projection_result" where
  "finish_projection H late d parameters corpus anchor corpus_count found =
     (let candidates = filter (\<lambda>m. admits (pd_filter d) m (rf_ids found)) (pc_members corpus) in
      bindE (place_members late (home_of d anchor (rf_ids found)) candidates (\<lambda>_. []) (rf_ticks found)) (\<lambda>(buckets, n).
      (let sections = result_sections d buckets; placed = concat (map sr_members sections) in
       bindE (refuse_unless (length placed = length candidates) Coverage) (\<lambda>_.
       bindE (refuse_unless (list_all (\<lambda>m. pm_id m \<in> pm_id ` set (pc_members corpus)) placed) Foreign_member) (\<lambda>_.
       bindE (refuse_unless (\<not> late n) Budget_exceeded) (\<lambda>_.
       seal_result H (build_result d parameters corpus found corpus_count (length candidates) sections)))))))"

definition evaluate :: "sha256 \<Rightarrow> (jstr \<Rightarrow> jstr \<Rightarrow> bool) \<Rightarrow> (nat \<Rightarrow> rat) \<Rightarrow> projection_definition \<Rightarrow>
    (jstr \<times> jval) list \<Rightarrow> projection_corpus \<Rightarrow> projection_graph \<Rightarrow> int option \<Rightarrow>
    projection_error + projection_result" where
  "evaluate H locale_le now d supplied corpus graph scope =
     bindE (assert_bounded d) (\<lambda>_.
     bindE (bind_parameters d supplied) (\<lambda>parameters.
     bindE (check_members corpus (pc_members corpus)) (\<lambda>_.
     bindE (assert_member_budget d (length (pc_members corpus))) (\<lambda>_.
     (let anchor = anchor_of d parameters corpus; late = past_deadline now d in
      bindE (refuse_unless (pd_anchor d = Anchor_object \<longrightarrow> anchor \<in> pm_id ` set (pc_members corpus)) Foreign_member) (\<lambda>_.
      bindE (walk_projection locale_le late d anchor corpus graph (scope \<noteq> None)) (\<lambda>found.
      finish_projection H late d parameters corpus anchor
        (case scope of None \<Rightarrow> int (length (pc_members corpus)) | Some n \<Rightarrow> n) found)))))))"

definition project :: "sha256 \<Rightarrow> (jstr \<Rightarrow> jstr \<Rightarrow> bool) \<Rightarrow> (nat \<Rightarrow> rat) \<Rightarrow> projection_definition \<Rightarrow>
    (jstr \<times> jval) list \<Rightarrow> projection_corpus \<Rightarrow> projection_graph \<Rightarrow> projection_error + projection_result" where
  "project H locale_le now d supplied corpus graph = evaluate H locale_le now d supplied corpus graph None"

section \<open>The narrowed evaluations\<close>

definition is_neighbourhood_reading :: "projection_definition \<Rightarrow> bool" where
  "is_neighbourhood_reading d \<longleftrightarrow>
     pd_anchor d = Anchor_object \<and> pd_traverse d \<noteq> None \<and>
     (case pd_filter d of None \<Rightarrow> False | Some f \<Rightarrow> pf_reach f = Some Reached)"

definition neighbourhood_scope :: "projection_definition \<Rightarrow> (jstr \<times> jval) list \<Rightarrow> projection_graph \<Rightarrow>
    projection_error + jstr list" where
  "neighbourhood_scope d supplied graph =
     bindE (assert_bounded d) (\<lambda>_.
     bindE (refuse_unless (is_neighbourhood_reading d) Coverage) (\<lambda>_.
     bindE (bind_parameters d supplied) (\<lambda>bound.
     bindE (walk_from_object (\<lambda>_. False) (the (pd_traverse d))
              (text_of_parameter (map_of bound (units ''object_id''))) (pg_edges graph)) (\<lambda>((ids, _), _). Inr ids))))"

text \<open>The size of the whole corpus, which the caller states.\<close>

definition stated_count :: "jnum \<Rightarrow> nat \<Rightarrow> projection_error + int" where
  "stated_count stated given =
     (case safe_integer stated of
        None \<Rightarrow> Inl (Refused Coverage)
      | Some n \<Rightarrow> if n < int given then Inl (Refused Coverage) else Inr n)"

definition project_neighbourhood :: "sha256 \<Rightarrow> (jstr \<Rightarrow> jstr \<Rightarrow> bool) \<Rightarrow> (nat \<Rightarrow> rat) \<Rightarrow> projection_definition \<Rightarrow>
    (jstr \<times> jval) list \<Rightarrow> projection_corpus \<Rightarrow> projection_graph \<Rightarrow> jnum \<Rightarrow> projection_error + projection_result" where
  "project_neighbourhood H locale_le now d supplied corpus graph stated =
     bindE (refuse_unless (is_neighbourhood_reading d) Coverage) (\<lambda>_.
     bindE (stated_count stated (length (pc_members corpus))) (\<lambda>n.
     evaluate H locale_le now d supplied corpus graph (Some n)))"

definition is_type_scoped_reading :: "projection_definition \<Rightarrow> bool" where
  "is_type_scoped_reading d \<longleftrightarrow>
     pd_anchor d = Anchor_person \<and> pd_traverse d = None \<and>
     (case pd_filter d of
        None \<Rightarrow> False
      | Some f \<Rightarrow> pf_reach f = None \<and> (case pf_types f of None \<Rightarrow> False | Some types \<Rightarrow> types \<noteq> []))"

definition type_scope :: "projection_definition \<Rightarrow> projection_error + jstr list" where
  "type_scope d =
     (if is_type_scoped_reading d then Inr (the (pf_types (the (pd_filter d)))) else Inl (Refused Coverage))"

definition project_type_scoped :: "sha256 \<Rightarrow> (jstr \<Rightarrow> jstr \<Rightarrow> bool) \<Rightarrow> (nat \<Rightarrow> rat) \<Rightarrow> projection_definition \<Rightarrow>
    (jstr \<times> jval) list \<Rightarrow> projection_corpus \<Rightarrow> projection_graph \<Rightarrow> jnum \<Rightarrow> projection_error + projection_result" where
  "project_type_scoped H locale_le now d supplied corpus graph stated =
     bindE (type_scope d) (\<lambda>types.
     bindE (stated_count stated (length (pc_members corpus))) (\<lambda>n.
     bindE (refuse_unless (list_all (\<lambda>m. pm_type m \<in> set types) (pc_members corpus)) Coverage) (\<lambda>_.
     evaluate H locale_le now d supplied corpus graph (Some n))))"

end
