(* ===== verification/Ontology_Model.thy ===== *)
theory Ontology_Model
  imports Projection_Engine
begin

text \<open>
  The ontology as the checks of \<open>packages/ontology-compiler\<close> read it (\<open>src/model.ts\<close>,
  \<open>src/check/types.ts\<close>, \<open>src/check/context.ts\<close>), and the findings they raise. Properties of a field
  or a type that no check reads are left out. A check appends to the findings of its context; here
  it returns the findings it appends, in order.
\<close>

record ontology_field =
  fd_name :: jstr
  fd_type :: jstr
  fd_values :: "jstr list option"

record object_type =
  ot_id :: jstr
  ot_domain :: jstr
  ot_machine :: "jstr option"
  ot_states :: "jstr list"
  ot_fields :: "ontology_field list"

record relation_type =
  rt_id :: jstr
  rt_inverse :: jstr
  rt_acyclic :: bool
  rt_symmetric :: bool
  rt_sources :: "jstr list option"
  rt_targets :: "jstr list option"
  rt_anchor :: "bool option"
  rt_class :: "jstr option"
  rt_depth :: "jnum option"

record action_type =
  at_id :: jstr
  at_audited :: bool
  at_drives :: "jstr list"

record transition =
  t_from :: jstr
  t_to :: jstr
  t_action :: jstr

record state_machine =
  m_id :: jstr
  m_initial :: jstr
  m_terminal :: "jstr list"
  m_transitions :: "transition list"

record ontology_rule =
  ru_id :: jstr
  ru_description :: jstr
  ru_implementation :: "jstr list"

record ontology =
  on_classifications :: "jstr list"
  on_domains :: "jstr list"
  on_envelope_required :: "jstr list"
  on_envelope_fields :: "ontology_field list"
  on_shared_types :: "jstr list"
  on_object_types :: "object_type list"
  on_relation_types :: "relation_type list"
  on_action_types :: "action_type list"
  on_machines :: "state_machine list"
  on_rules :: "ontology_rule list"
  on_projections :: "projection_definition list"

datatype severity = Error_severity | Warning_severity

record finding =
  f_rule :: string
  f_severity :: severity
  f_path :: jstr
  f_message :: jstr
  f_remediation :: jstr

text \<open>\<open>new Set(xs)\<close> in insertion order.\<close>

definition as_set :: "'a list \<Rightarrow> 'a list" where
  "as_set xs = rev (remdups (rev xs))"

lemma set_as_set [simp]: "set (as_set xs) = set xs"
  by (simp add: as_set_def)

record check_context =
  cc_ontology :: ontology
  cc_object_ids :: "jstr list"
  cc_relation_ids :: "jstr list"
  cc_action_ids :: "jstr list"
  cc_machine_ids :: "jstr list"
  cc_shared_names :: "jstr list"

definition create_check_context :: "ontology \<Rightarrow> check_context" where
  "create_check_context ont =
     \<lparr>cc_ontology = ont,
      cc_object_ids = as_set (map ot_id (on_object_types ont)),
      cc_relation_ids = as_set (map rt_id (on_relation_types ont)),
      cc_action_ids = as_set (map at_id (on_action_types ont)),
      cc_machine_ids = as_set (map m_id (on_machines ont)),
      cc_shared_names = as_set (on_shared_types ont)\<rparr>"

definition finding_of :: "string \<Rightarrow> jstr \<Rightarrow> jstr \<Rightarrow> string \<Rightarrow> finding" where
  "finding_of rule path message remediation =
     \<lparr>f_rule = rule, f_severity = Error_severity, f_path = path, f_message = message,
      f_remediation = units remediation\<rparr>"

definition warning_of :: "string \<Rightarrow> jstr \<Rightarrow> string \<Rightarrow> string \<Rightarrow> finding" where
  "warning_of rule path message remediation =
     \<lparr>f_rule = rule, f_severity = Warning_severity, f_path = path, f_message = units message,
      f_remediation = units remediation\<rparr>"

definition quoted :: "jstr \<Rightarrow> jstr" where
  "quoted s = units [CHR 0x27] @ s @ units [CHR 0x27]"

text \<open>\<open>xs.join(', ')\<close>.\<close>

definition comma_list :: "jstr list \<Rightarrow> jstr" where
  "comma_list xs = join_with (units '', '') xs"

definition finding_if :: "bool \<Rightarrow> finding \<Rightarrow> finding list" where
  "finding_if condition f = (if condition then [f] else [])"

lemma finding_if_Nil [simp]: "finding_if condition f = [] \<longleftrightarrow> \<not> condition"
  by (simp add: finding_if_def)

text \<open>The errors among findings: a build stops at one, and goes on past a warning.\<close>

definition errors :: "finding list \<Rightarrow> finding list" where
  "errors = filter (\<lambda>f. f_severity f = Error_severity)"

lemma errors_append [simp]: "errors (fs @ gs) = errors fs @ errors gs"
  by (simp add: errors_def)

lemma errors_concat_Nil: "errors (concat fss) = [] \<longleftrightarrow> (\<forall>fs\<in>set fss. errors fs = [])"
  by (auto simp: errors_def filter_empty_conv)

lemma errors_finding_of [simp]: "errors (finding_if condition (finding_of rule path message remediation)) = [] \<longleftrightarrow> \<not> condition"
  by (simp add: errors_def finding_if_def finding_of_def)

lemma errors_warning_of [simp]: "errors (finding_if condition (warning_of rule path message remediation)) = []"
  by (simp add: errors_def finding_if_def warning_of_def)

lemma errors_Nil [simp]: "errors [] = []"
  by (simp add: errors_def)

end
