(* ===== verification/State_Machine_Check.thy ===== *)
theory State_Machine_Check
  imports Ontology_Model
begin

text \<open>
  The ontology compiler's check of state machines
  (\<open>packages/ontology-compiler/src/check/state-machines.ts\<close>): the fixpoint of reachable states and
  the findings it leads to.
\<close>

section \<open>Reachable states\<close>

text \<open>One pass over the transitions: the states so far and whether the pass added one.\<close>

fun reach_pass :: "transition list \<Rightarrow> jstr list \<Rightarrow> bool \<Rightarrow> jstr list \<times> bool" where
  "reach_pass [] reachable grew = (reachable, grew)"
| "reach_pass (tr # trs) reachable grew =
     (if t_from tr \<in> set reachable \<and> t_to tr \<notin> set reachable
      then reach_pass trs (reachable @ [t_to tr]) True
      else reach_pass trs reachable grew)"

lemma reach_pass_extends:
  "reach_pass trs r g = (r', g') \<Longrightarrow>
     set r \<subseteq> set r' \<and> set r' \<subseteq> set r \<union> t_to ` set trs \<and> (g' \<and> \<not> g \<longrightarrow> set r \<subset> set r') \<and>
     (\<not> g' \<longrightarrow> r' = r \<and> \<not> g)"
proof (induction trs arbitrary: r g)
  case (Cons tr trs)
  show ?case
  proof (cases "t_from tr \<in> set r \<and> t_to tr \<notin> set r")
    case True
    with Cons.prems have "reach_pass trs (r @ [t_to tr]) True = (r', g')" by simp
    from Cons.IH [OF this] True show ?thesis by auto
  next
    case False
    with Cons.prems have "reach_pass trs r g = (r', g')" by auto
    from Cons.IH [OF this] show ?thesis by auto
  qed
qed auto

function reach_loop :: "transition list \<Rightarrow> jstr list \<Rightarrow> jstr list" where
  "reach_loop trs reachable =
     (case reach_pass trs reachable False of
        (reachable', grew) \<Rightarrow> if grew then reach_loop trs reachable' else reachable')"
  by pat_completeness auto

termination
proof (relation "measure (\<lambda>(trs, r). card (t_to ` set trs - set r))")
  show "wf (measure (\<lambda>(trs, r). card (t_to ` set trs - set r)))" by simp
  fix trs reachable reachable' grew
  assume "(reachable', grew) = reach_pass trs reachable False" "grew"
  then have pass: "reach_pass trs reachable False = (reachable', True)" by simp
  note ext = reach_pass_extends [OF pass]
  then have "t_to ` set trs - set reachable' \<subset> t_to ` set trs - set reachable" by blast
  then show "((trs, reachable'), (trs, reachable)) \<in> measure (\<lambda>(trs, r). card (t_to ` set trs - set r))"
    by (simp add: psubset_card_mono)
qed

declare reach_loop.simps [simp del]

definition reachable_states :: "state_machine \<Rightarrow> jstr list" where
  "reachable_states m = reach_loop (m_transitions m) [m_initial m]"

section \<open>The check\<close>

definition machine_path :: "state_machine \<Rightarrow> jstr" where
  "machine_path m = units ''state_machines.'' @ m_id m"

definition owner_of :: "check_context \<Rightarrow> state_machine \<Rightarrow> object_type option" where
  "owner_of ctx m = find (\<lambda>t. ot_machine t = Some (m_id m)) (on_object_types (cc_ontology ctx))"

definition declared_states :: "object_type option \<Rightarrow> jstr list" where
  "declared_states owner =
     (case owner of None \<Rightarrow> [] | Some t \<Rightarrow> as_set (ot_states t))"

definition owner_findings :: "state_machine \<Rightarrow> object_type option \<Rightarrow> finding list" where
  "owner_findings m owner =
     (case owner of
        None \<Rightarrow> [finding_of ''ONT-005'' (machine_path m) (units ''no object type uses this state machine'')
                   ''Attach it with state_machine: <id>, or remove it.'']
      | Some t \<Rightarrow>
          if m_initial m \<notin> set (declared_states owner)
          then [finding_of ''ONT-005'' (machine_path m @ units ''.initial'')
                  (units ''initial state '' @ quoted (m_initial m) @ units '' is not in '' @ ot_id t @ units ''.states'')
                  ''Add it to the object type, or correct the initial state.'']
          else [])"

definition terminal_findings :: "state_machine \<Rightarrow> object_type option \<Rightarrow> jstr list \<Rightarrow> jstr \<Rightarrow> finding list" where
  "terminal_findings m owner reachable t =
     (case owner of
        Some ow \<Rightarrow> if t \<notin> set (declared_states owner)
          then [finding_of ''ONT-005'' (machine_path m @ units ''.terminal'')
                  (units ''terminal state '' @ quoted t @ units '' is not in '' @ ot_id ow @ units ''.states'')
                  ''Add it to the object type, or correct the terminal list.'']
          else []
      | None \<Rightarrow> []) @
     (if t \<notin> set reachable
      then [finding_of ''ONT-005'' (machine_path m @ units ''.terminal'')
              (units ''terminal state '' @ quoted t @ units '' is unreachable from '' @ quoted (m_initial m))
              ''Add the missing transition. A record can never arrive at this state.'']
      else [])"

definition transition_findings :: "check_context \<Rightarrow> state_machine \<Rightarrow> object_type option \<Rightarrow> nat \<times> transition \<Rightarrow> finding list" where
  "transition_findings ctx m owner = (\<lambda>(i, tr).
     let here = machine_path m @ units ''.transitions['' @ units (dec i) @ units '']''; declared = set (declared_states owner) in
     (case owner of
        None \<Rightarrow> []
      | Some ow \<Rightarrow>
          (if t_from tr \<notin> declared
           then [finding_of ''ONT-005'' here (units ''from-state '' @ quoted (t_from tr) @ units '' is not in '' @ ot_id ow @ units ''.states'')
                   ''Declare it.''] else []) @
          (if t_to tr \<notin> declared
           then [finding_of ''ONT-005'' here (units ''to-state '' @ quoted (t_to tr) @ units '' is not in '' @ ot_id ow @ units ''.states'')
                   ''Declare it.''] else [])) @
     (if t_action tr \<notin> set (cc_action_ids ctx)
      then [finding_of ''ONT-005'' here (units ''driven by undefined action '' @ quoted (t_action tr))
              ''Define it in action-types.yaml. A transition nothing can trigger is dead.''] else []) @
     (if t_from tr \<in> set (m_terminal m)
      then [finding_of ''ONT-006'' here (units ''leaves terminal state '' @ quoted (t_from tr))
              ''Terminal means terminal. Remove the transition or the terminal designation.''] else []))"

definition reachability_findings :: "state_machine \<Rightarrow> object_type option \<Rightarrow> jstr list \<Rightarrow> finding list" where
  "reachability_findings m owner reachable =
     concat (map (\<lambda>s.
       if s \<in> set (m_terminal m) then []
       else if \<not> list_ex (\<lambda>tr. t_from tr = s) (m_transitions m)
       then [finding_of ''ONT-006'' (machine_path m)
               (units ''state '' @ quoted s @ units '' is neither terminal nor has any outgoing transition'')
               ''Add a transition out, or declare the state terminal deliberately.'']
       else []) reachable) @
     concat (map (\<lambda>s.
       if s \<notin> set reachable
       then [finding_of ''ONT-005''
               (units ''object_types.'' @ (case owner of None \<Rightarrow> (units ''?'') | Some t \<Rightarrow> ot_id t) @ units ''.states'')
               (units ''state '' @ quoted s @ units '' is declared but unreachable in machine '' @ quoted (m_id m))
               ''Add a transition that reaches it, or remove the state.'']
       else []) (declared_states owner))"

definition check_state_machine :: "check_context \<Rightarrow> state_machine \<Rightarrow> finding list" where
  "check_state_machine ctx m =
     (let owner = owner_of ctx m; reachable = reachable_states m in
      owner_findings m owner @
      concat (map (terminal_findings m owner reachable) (m_terminal m)) @
      concat (map (transition_findings ctx m owner) (enumerate 0 (m_transitions m))) @
      reachability_findings m owner reachable)"

definition check_state_machines :: "check_context \<Rightarrow> finding list" where
  "check_state_machines ctx = concat (map (check_state_machine ctx) (on_machines (cc_ontology ctx)))"

section \<open>The fixpoint is reachability\<close>

inductive reaches :: "state_machine \<Rightarrow> jstr \<Rightarrow> bool" for m where
  start: "reaches m (m_initial m)"
| step: "reaches m (t_from tr) \<Longrightarrow> tr \<in> set (m_transitions m) \<Longrightarrow> reaches m (t_to tr)"

lemma reach_pass_sound:
  "reach_pass trs r g = (r', g') \<Longrightarrow> set trs \<subseteq> set (m_transitions m) \<Longrightarrow>
     \<forall>s\<in>set r. reaches m s \<Longrightarrow> \<forall>s\<in>set r'. reaches m s"
proof (induction trs arbitrary: r g)
  case (Cons tr trs)
  show ?case
  proof (cases "t_from tr \<in> set r \<and> t_to tr \<notin> set r")
    case True
    have tr: "tr \<in> set (m_transitions m)" and trs: "set trs \<subseteq> set (m_transitions m)"
      using Cons.prems(2) by simp_all
    have "reaches m (t_to tr)" using True Cons.prems(3) by (intro reaches.step [OF _ tr]) blast
    then have "\<forall>s\<in>set (r @ [t_to tr]). reaches m s" using Cons.prems(3) by simp
    moreover have "reach_pass trs (r @ [t_to tr]) True = (r', g')" using Cons.prems(1) True by simp
    ultimately show ?thesis using Cons.IH trs by blast
  next
    case False
    then have "reach_pass trs r g = (r', g')" using Cons.prems(1) by auto
    with Cons.IH Cons.prems(2,3) show ?thesis by simp
  qed
qed simp

lemma reach_pass_closed:
  "reach_pass trs r False = (r', False) \<Longrightarrow> \<forall>tr\<in>set trs. t_from tr \<in> set r \<longrightarrow> t_to tr \<in> set r"
proof (induction trs)
  case (Cons tr trs)
  show ?case
  proof (cases "t_from tr \<in> set r \<and> t_to tr \<notin> set r")
    case True
    with Cons.prems have "reach_pass trs (r @ [t_to tr]) True = (r', False)" by simp
    from reach_pass_extends [OF this] show ?thesis by simp
  next
    case False
    with Cons show ?thesis by auto
  qed
qed simp

lemma reach_loop_correct:
  "\<forall>s\<in>set r. reaches m s \<Longrightarrow>
     (\<forall>s\<in>set (reach_loop (m_transitions m) r). reaches m s) \<and> set r \<subseteq> set (reach_loop (m_transitions m) r) \<and>
     (\<forall>tr\<in>set (m_transitions m). t_from tr \<in> set (reach_loop (m_transitions m) r) \<longrightarrow>
        t_to tr \<in> set (reach_loop (m_transitions m) r))"
proof (induction "m_transitions m" r rule: reach_loop.induct)
  case (1 r)
  obtain r' grew where pass: "reach_pass (m_transitions m) r False = (r', grew)" by fastforce
  have loop: "reach_loop (m_transitions m) r = (if grew then reach_loop (m_transitions m) r' else r')"
    by (subst reach_loop.simps) (simp add: pass)
  have sound: "\<forall>s\<in>set r'. reaches m s" by (rule reach_pass_sound [OF pass order.refl 1(2)])
  show ?case
  proof (cases grew)
    case True
    from 1(1) [OF pass [symmetric] True sound] reach_pass_extends [OF pass] show ?thesis
      unfolding loop using True by auto
  next
    case False
    then have "r' = r" using reach_pass_extends [OF pass] by blast
    moreover have "\<forall>tr\<in>set (m_transitions m). t_from tr \<in> set r \<longrightarrow> t_to tr \<in> set r"
      using pass False by (intro reach_pass_closed) auto
    ultimately show ?thesis unfolding loop using False 1(2) by simp
  qed
qed

lemma reachable_states_iff: "s \<in> set (reachable_states m) \<longleftrightarrow> reaches m s"
proof
  note correct = reach_loop_correct [of "[m_initial m]" m]
  show "s \<in> set (reachable_states m) \<Longrightarrow> reaches m s"
    using correct by (auto simp: reachable_states_def intro: reaches.start)
  have init: "m_initial m \<in> set (reachable_states m)"
    and closed: "\<forall>tr\<in>set (m_transitions m). t_from tr \<in> set (reachable_states m) \<longrightarrow> t_to tr \<in> set (reachable_states m)"
    using correct reaches.start [of m] unfolding reachable_states_def by simp_all
  show "reaches m s \<Longrightarrow> s \<in> set (reachable_states m)"
    by (induction rule: reaches.induct) (use init closed in blast)+
qed

text \<open>What an accepted machine is: declared, live and closed.\<close>

definition machine_sound :: "check_context \<Rightarrow> state_machine \<Rightarrow> bool" where
  "machine_sound ctx m \<longleftrightarrow>
     (\<exists>owner. owner_of ctx m = Some owner \<and> set (declared_states (Some owner)) = {s. reaches m s}) \<and>
     (\<forall>t\<in>set (m_terminal m). reaches m t) \<and>
     (\<forall>tr\<in>set (m_transitions m). reaches m (t_from tr) \<and> t_action tr \<in> set (cc_action_ids ctx) \<and>
        t_from tr \<notin> set (m_terminal m)) \<and>
     (\<forall>s. reaches m s \<longrightarrow> s \<in> set (m_terminal m) \<or> (\<exists>tr\<in>set (m_transitions m). t_from tr = s))"

lemma ball_enumerate: "(\<forall>x\<in>set (enumerate n xs). P (snd x)) \<longleftrightarrow> (\<forall>x\<in>set xs. P x)"
proof -
  have "set xs = snd ` set (enumerate n xs)" by (metis map_snd_enumerate set_map)
  then show ?thesis by simp
qed

lemma check_passes:
  "check_state_machine ctx m = [] \<longleftrightarrow>
     (\<exists>owner. owner_of ctx m = Some owner \<and> m_initial m \<in> set (declared_states (Some owner)) \<and>
        (\<forall>t\<in>set (m_terminal m). t \<in> set (declared_states (Some owner)) \<and> reaches m t) \<and>
        (\<forall>tr\<in>set (m_transitions m). t_from tr \<in> set (declared_states (Some owner)) \<and>
           t_to tr \<in> set (declared_states (Some owner)) \<and> t_action tr \<in> set (cc_action_ids ctx) \<and>
           t_from tr \<notin> set (m_terminal m)) \<and>
        (\<forall>s. reaches m s \<longrightarrow> s \<in> set (m_terminal m) \<or> (\<exists>tr\<in>set (m_transitions m). t_from tr = s)) \<and>
        (\<forall>s\<in>set (declared_states (Some owner)). reaches m s))"
proof (cases "owner_of ctx m")
  case None
  then show ?thesis by (simp add: check_state_machine_def owner_findings_def Let_def)
next
  case (Some owner)
  have "transition_findings ctx m (Some owner) x = [] \<longleftrightarrow>
      t_from (snd x) \<in> set (declared_states (Some owner)) \<and> t_to (snd x) \<in> set (declared_states (Some owner)) \<and>
      t_action (snd x) \<in> set (cc_action_ids ctx) \<and> t_from (snd x) \<notin> set (m_terminal m)" for x
    by (simp add: transition_findings_def Let_def case_prod_beta)
  then have trs: "(\<forall>x\<in>set (enumerate 0 (m_transitions m)). transition_findings ctx m (Some owner) x = []) \<longleftrightarrow>
      (\<forall>tr\<in>set (m_transitions m). t_from tr \<in> set (declared_states (Some owner)) \<and>
         t_to tr \<in> set (declared_states (Some owner)) \<and> t_action tr \<in> set (cc_action_ids ctx) \<and>
         t_from tr \<notin> set (m_terminal m))"
    by (simp only: ball_enumerate [where P = "\<lambda>tr. t_from tr \<in> set (declared_states (Some owner)) \<and>
         t_to tr \<in> set (declared_states (Some owner)) \<and> t_action tr \<in> set (cc_action_ids ctx) \<and>
         t_from tr \<notin> set (m_terminal m)"])
  have reach: "reachability_findings m (Some owner) (reachable_states m) = [] \<longleftrightarrow>
      (\<forall>s. reaches m s \<longrightarrow> s \<in> set (m_terminal m) \<or> (\<exists>tr\<in>set (m_transitions m). t_from tr = s)) \<and>
      (\<forall>s\<in>set (declared_states (Some owner)). reaches m s)"
  proof -
    have out: "(if s \<in> set (m_terminal m) then [] else if \<not> list_ex (\<lambda>tr. t_from tr = s) (m_transitions m)
        then [x] else []) = [] \<longleftrightarrow> s \<in> set (m_terminal m) \<or> (\<exists>tr\<in>set (m_transitions m). t_from tr = s)"
      for s and x :: finding
      by (simp add: list_ex_iff)
    have unused: "(if s \<notin> set (reachable_states m) then [x] else []) = [] \<longleftrightarrow> s \<in> set (reachable_states m)"
      for s and x :: finding
      by simp
    show ?thesis
      unfolding reachability_findings_def append_is_Nil_conv concat_eq_Nil_conv set_map ball_simps(9)
        out unused reachable_states_iff [symmetric] by blast
  qed
  have terms: "(\<forall>t\<in>set (m_terminal m). terminal_findings m (Some owner) (reachable_states m) t = []) \<longleftrightarrow>
      (\<forall>t\<in>set (m_terminal m). t \<in> set (declared_states (Some owner)) \<and> reaches m t)"
    by (simp add: terminal_findings_def reachable_states_iff) blast
  have own: "owner_findings m (Some owner) = [] \<longleftrightarrow> m_initial m \<in> set (declared_states (Some owner))"
    by (simp add: owner_findings_def)
  have "check_state_machine ctx m = [] \<longleftrightarrow>
      owner_findings m (Some owner) = [] \<and>
      (\<forall>t\<in>set (m_terminal m). terminal_findings m (Some owner) (reachable_states m) t = []) \<and>
      (\<forall>x\<in>set (enumerate 0 (m_transitions m)). transition_findings ctx m (Some owner) x = []) \<and>
      reachability_findings m (Some owner) (reachable_states m) = []"
    unfolding check_state_machine_def Some Let_def append_is_Nil_conv concat_eq_Nil_conv set_map ball_simps
    by simp
  then show ?thesis unfolding own terms trs reach Some by blast
qed

lemma check_passes_sound: "check_state_machine ctx m = [] \<longleftrightarrow> machine_sound ctx m"
proof
  assume "check_state_machine ctx m = []"
  then obtain owner where o: "owner_of ctx m = Some owner" "m_initial m \<in> set (declared_states (Some owner))"
    "\<forall>t\<in>set (m_terminal m). t \<in> set (declared_states (Some owner)) \<and> reaches m t"
    "\<forall>tr\<in>set (m_transitions m). t_from tr \<in> set (declared_states (Some owner)) \<and>
       t_to tr \<in> set (declared_states (Some owner)) \<and> t_action tr \<in> set (cc_action_ids ctx) \<and>
       t_from tr \<notin> set (m_terminal m)"
    "\<forall>s. reaches m s \<longrightarrow> s \<in> set (m_terminal m) \<or> (\<exists>tr\<in>set (m_transitions m). t_from tr = s)"
    "\<forall>s\<in>set (declared_states (Some owner)). reaches m s"
    unfolding check_passes by blast
  have "s \<in> set (declared_states (Some owner))" if "reaches m s" for s
    using that by cases (use o(2,4) in blast)+
  with o(6) have "set (declared_states (Some owner)) = {s. reaches m s}" by blast
  with o show "machine_sound ctx m" unfolding machine_sound_def by blast
next
  assume "machine_sound ctx m"
  then obtain owner where o: "owner_of ctx m = Some owner" "set (declared_states (Some owner)) = {s. reaches m s}"
    "\<forall>t\<in>set (m_terminal m). reaches m t"
    "\<forall>tr\<in>set (m_transitions m). reaches m (t_from tr) \<and> t_action tr \<in> set (cc_action_ids ctx) \<and>
       t_from tr \<notin> set (m_terminal m)"
    "\<forall>s. reaches m s \<longrightarrow> s \<in> set (m_terminal m) \<or> (\<exists>tr\<in>set (m_transitions m). t_from tr = s)"
    unfolding machine_sound_def by blast
  moreover have "reaches m (t_to tr)" if "tr \<in> set (m_transitions m)" for tr
    using that o(4) by (blast intro: reaches.step)
  ultimately show "check_state_machine ctx m = []"
    unfolding check_passes by (intro exI [of _ owner]) (auto intro: reaches.start)
qed

section \<open>Properties\<close>

text \<open>C34: The reachability fixpoint ends and is exact: \<open>reachableStates\<close> returns the states some
  sequence of the machine's transitions leads to from its initial state, those and no others.\<close>

theorem reachable_states_exact: "set (reachable_states m) = {s. reaches m s}"
  using reachable_states_iff by blast

text \<open>C25: The check accepts exactly the sound machines. No finding is raised for a machine if and only
  if an object type owns it and declares precisely the reachable states, every terminal state is
  reachable and has no way out, every transition starts at a reachable state and names a defined
  action, and every reachable state is terminal or can be left: so a record in an accepted machine
  never gets stuck and never enters an undeclared state.\<close>

theorem machine_check_exact:
  "check_state_machines ctx = [] \<longleftrightarrow> (\<forall>m\<in>set (on_machines (cc_ontology ctx)). machine_sound ctx m)"
  by (simp add: check_state_machines_def check_passes_sound)

definition sample_machine :: "jstr list \<Rightarrow> state_machine" where
  "sample_machine terminal =
     \<lparr>m_id = units ''invoicing'', m_initial = units ''draft'', m_terminal = terminal,
      m_transitions = [\<lparr>t_from = units ''draft'', t_to = units ''approved'', t_action = units ''approve''\<rparr>]\<rparr>"

definition sample_ontology :: "state_machine list \<Rightarrow> ontology" where
  "sample_ontology machines =
     \<lparr>on_classifications = [units ''internal''], on_domains = [units ''finance''], on_envelope_required = [],
      on_envelope_fields = [], on_shared_types = [],
      on_object_types = [\<lparr>ot_id = units ''invoice'', ot_domain = units ''finance'', ot_machine = Some (units ''invoicing''),
                          ot_states = [units ''draft'', units ''approved''], ot_fields = []\<rparr>],
      on_relation_types = [],
      on_action_types = [\<lparr>at_id = units ''approve'', at_audited = True, at_drives = [units ''invoicing'']\<rparr>],
      on_machines = machines, on_rules = [], on_projections = []\<rparr>"

theorem machine_check_exact_witness:
  "let live = sample_machine [units ''approved'']; stuck = sample_machine [] in
   machine_sound (create_check_context (sample_ontology [live])) live \<and>
   \<not> machine_sound (create_check_context (sample_ontology [stuck])) stuck"
proof -
  have "check_state_machines (create_check_context (sample_ontology [sample_machine [units ''approved'']])) = []"
    "check_state_machines (create_check_context (sample_ontology [sample_machine []])) \<noteq> []" by code_simp+
  then show ?thesis by (simp only: machine_check_exact) (simp add: sample_ontology_def create_check_context_def)
qed

end
