(* ===== verification/Model_Routing.thy ===== *)
theory Model_Routing
  imports KF_Prelude
begin

text \<open>
  Which model may answer, and what may leave the host: classification, router, egress guard,
  sealed labels and citation check of the in-app agent (\<open>packages/agent/src/classification.ts\<close>,
  \<open>router.ts\<close>, \<open>backends.ts\<close>, \<open>seal.ts\<close>, \<open>prompt.ts\<close>).

  A model is a function from the request to what it answers. A provider's transport is a function
  too, and completing a request through it yields the requests it was handed, so that \<open>nothing
  was sent\<close> can be stated. HMAC-SHA256 and base64url are \<open>node:crypto\<close> and \<open>Buffer\<close>, parameters.
\<close>

section \<open>Classification\<close>

definition CLASSIFICATIONS :: "string list" where
  "CLASSIFICATIONS = [''public'', ''internal'', ''confidential'', ''restricted'']"

definition PROVIDER_CEILINGS :: "string list" where
  "PROVIDER_CEILINGS = [''none'', ''public'', ''internal'']"

definition DEFAULT_PROVIDER_CEILING :: string where
  "DEFAULT_PROVIDER_CEILING = ''internal''"

definition ABSOLUTE_LIMIT :: string where
  "ABSOLUTE_LIMIT = ''internal''"

text \<open>\<open>None\<close> is \<open>Number.POSITIVE_INFINITY\<close>.\<close>

definition rank_of :: "string \<Rightarrow> nat option" where
  "rank_of c = map_of [(''public'', 0), (''internal'', 1), (''confidential'', 2), (''restricted'', 3)] c"

fun rank_le :: "nat option \<Rightarrow> nat option \<Rightarrow> bool" where
  "rank_le _ None = True"
| "rank_le None (Some _) = False"
| "rank_le (Some m) (Some n) = (m \<le> n)"

definition highest_step :: "string option \<Rightarrow> string \<Rightarrow> string option" where
  "highest_step highest c =
     (let known = (if c \<in> set CLASSIFICATIONS then c else ''restricted'') in
      case highest of
        None \<Rightarrow> Some known
      | Some h \<Rightarrow> if \<not> rank_le (rank_of known) (rank_of h) then Some known else highest)"

definition highest_of :: "string list \<Rightarrow> string option" where
  "highest_of cs = foldl highest_step None cs"

definition is_provider_ceiling :: "string \<Rightarrow> bool" where
  "is_provider_ceiling c \<longleftrightarrow> c \<in> set PROVIDER_CEILINGS"

definition may_leave_host :: "string \<Rightarrow> string \<Rightarrow> bool" where
  "may_leave_host c ceiling =
     (if ceiling = ''none'' \<or> \<not> is_provider_ceiling ceiling then False
      else rank_le (rank_of c) (rank_of ABSOLUTE_LIMIT) \<and> rank_le (rank_of c) (rank_of ceiling))"

section \<open>Requests and backends\<close>

record context_item =
  ci_n :: nat
  ci_record :: string
  ci_revision :: string
  ci_title :: string
  ci_classification :: string
  ci_text :: string

datatype turn_role = Person | Agent

record conversation_turn =
  cv_role :: turn_role
  cv_text :: string
  cv_classification :: "string option"

record model_request =
  mr_system :: string
  mr_history :: "conversation_turn list"
  mr_context :: "context_item list"
  mr_question :: string
  mr_max_tokens :: nat

datatype completion =
    Reply string
  | Egress_refused "string list" string
  | Backend_unavailable string string
  | Failed string

datatype backend_kind = On_host | Provider

record model_backend =
  bk_kind :: backend_kind
  bk_name :: string
  bk_complete :: "model_request \<Rightarrow> completion"

definition turn_label :: "conversation_turn \<Rightarrow> string" where
  "turn_label t = (case cv_classification t of None \<Rightarrow> ''restricted'' | Some c \<Rightarrow> c)"

definition agent_turns :: "conversation_turn list \<Rightarrow> conversation_turn list" where
  "agent_turns = filter (\<lambda>t. cv_role t = Agent)"

text \<open>Every label a request carries: its context and every earlier agent turn.\<close>

definition carried_labels :: "conversation_turn list \<Rightarrow> context_item list \<Rightarrow> string list" where
  "carried_labels history items = map ci_classification items @ map turn_label (agent_turns history)"

definition request_classification :: "model_request \<Rightarrow> string option" where
  "request_classification rq = highest_of (carried_labels (mr_history rq) (mr_context rq))"

type_synonym may_leave = "string \<Rightarrow> string \<Rightarrow> bool"

text \<open>
  \<open>ProviderBackend.complete\<close> under the ceiling at the moment of the call: what it answers, and
  the requests the transport was handed.
\<close>

definition provider_complete :: "may_leave \<Rightarrow> (model_request \<Rightarrow> completion) \<Rightarrow> string \<Rightarrow> model_request \<Rightarrow>
    completion \<times> model_request list" where
  "provider_complete may_leave transport ceiling rq =
     (if ceiling = ''none''
      then (Egress_refused (map ci_record (mr_context rq))
             (case request_classification rq of None \<Rightarrow> ''any'' | Some c \<Rightarrow> c), [])
      else
        (let held = filter (\<lambda>i. \<not> may_leave (ci_classification i) ceiling) (mr_context rq);
             held_history = filter (\<lambda>t. cv_role t = Agent \<and> \<not> may_leave (turn_label t) ceiling) (mr_history rq) in
         if held \<noteq> [] \<or> held_history \<noteq> []
         then (Egress_refused (map ci_record held)
                (case request_classification rq of None \<Rightarrow> ''restricted'' | Some c \<Rightarrow> c), [])
         else (transport rq, [rq])))"

section \<open>The router\<close>

record backends =
  be_on_host :: "model_backend option"
  be_provider :: "model_backend option"
  be_prefer_on_host :: bool

datatype route_rule = KF_ROUTE_004 | KF_ROUTE_005

datatype route_decision =
    Answered_by model_backend "string option" string
  | Route_refused route_rule "string option" string

definition choose_backend :: "string list \<Rightarrow> string \<Rightarrow> backends \<Rightarrow> may_leave \<Rightarrow> route_decision" where
  "choose_backend classifications ceiling bs may_leave =
     (let classification = highest_of classifications;
          leaves = may_leave (case classification of None \<Rightarrow> ''public'' | Some c \<Rightarrow> c) ceiling;
          host =
            (case be_on_host bs of
               Some b \<Rightarrow> Answered_by b classification
                 (if leaves then ''answered on the host, as this deployment prefers''
                  else (case classification of None \<Rightarrow> ''record'' | Some c \<Rightarrow> c) @ '' content is answered only on the host'')
             | None \<Rightarrow>
                 if \<not> leaves
                 then Route_refused KF_ROUTE_004 classification
                   (''KF-ROUTE-004: this turn carries '' @ (case classification of None \<Rightarrow> ''controlled'' | Some c \<Rightarrow> c) @
                    '' content, which is answered only by a model on this host, and none is running. It is not sent to a '' @
                    ''provider instead (KF-SAS-RQ-271). The records found are listed below.'')
                 else Route_refused KF_ROUTE_005 classification
                   (''KF-ROUTE-005: no model is configured to answer here (no on-host model and no provider). '' @
                    ''The records found are listed below.'')) in
      case be_provider bs of
        Some p \<Rightarrow>
          if leaves \<and> (\<not> be_prefer_on_host bs \<or> be_on_host bs = None)
          then Answered_by p classification
            ((case classification of None \<Rightarrow> ''no record'' | Some c \<Rightarrow> c) @
             '' content, within what this organization lets leave the host ('' @ ceiling @ '')'')
          else host
      | None \<Rightarrow> host)"

section \<open>Sealed labels\<close>

record carried_turn =
  ct_role :: turn_role
  ct_text :: string
  ct_classification :: "string option"
  ct_seal :: "string option"

type_synonym hmac = "string \<Rightarrow> string \<Rightarrow> string"

definition SEAL_FORMAT :: string where
  "SEAL_FORMAT = ''kf-agent-turn-seal-v1''"

definition seal_input :: "string \<Rightarrow> string \<Rightarrow> string" where
  "seal_input text classification = SEAL_FORMAT @ [CHR 0x0A] @ classification @ [CHR 0x0A] @ text"

definition seal_turn :: "hmac \<Rightarrow> (string \<Rightarrow> string) \<Rightarrow> string \<Rightarrow> string \<Rightarrow> string \<Rightarrow> string" where
  "seal_turn mac encode key text classification = encode (mac key (seal_input text classification))"

definition verified_classification :: "hmac \<Rightarrow> (string \<Rightarrow> string) \<Rightarrow> string \<Rightarrow> carried_turn \<Rightarrow> string" where
  "verified_classification mac decode key t =
     (case (ct_classification t, ct_seal t) of
        (Some c, Some s) \<Rightarrow> if decode s = mac key (seal_input (ct_text t) c) then c else ''restricted''
      | _ \<Rightarrow> ''restricted'')"

definition verified_history :: "hmac \<Rightarrow> (string \<Rightarrow> string) \<Rightarrow> string \<Rightarrow> carried_turn list \<Rightarrow> conversation_turn list" where
  "verified_history mac decode key turns =
     map (\<lambda>t. if ct_role t = Person
              then \<lparr>cv_role = Person, cv_text = ct_text t, cv_classification = None\<rparr>
              else \<lparr>cv_role = Agent, cv_text = ct_text t,
                    cv_classification = Some (verified_classification mac decode key t)\<rparr>) turns"

section \<open>The prompt and the citation check\<close>

fun fence :: "string \<Rightarrow> string" where
  "fence [] = []"
| "fence (c # cs) =
     (if take 9 (c # cs) = ''</source>'' then ''</ source>'' @ fence (drop 8 cs) else c # fence cs)"

definition render_title :: "string \<Rightarrow> string" where
  "render_title = map (\<lambda>c. if c = CHR 0x22 then CHR 0x27 else c)"

definition render_source :: "context_item \<Rightarrow> string" where
  "render_source i = ''<source n='' @ [CHR 0x22] @ dec (ci_n i) @ [CHR 0x22] @ '' title='' @ [CHR 0x22] @
     render_title (ci_title i) @ [CHR 0x22] @ ''>'' @ [CHR 0x0A] @ fence (ci_text i) @ [CHR 0x0A] @ ''</source>''"

fun join_lines :: "string list \<Rightarrow> string" where
  "join_lines [] = []"
| "join_lines [x] = x"
| "join_lines (x # y # ys) = x @ [CHR 0x0A] @ join_lines (y # ys)"

definition render_sources :: "context_item list \<Rightarrow> string" where
  "render_sources items =
     (if items = [] then ''<sources>none were found</sources>''
      else join_lines ([''<sources>''] @ map render_source items @ [''</sources>'']))"

text \<open>The numbers \<open>/\[(\d{1,4})\]/g\<close> finds, from left to right.\<close>

fun cited_numbers :: "string \<Rightarrow> nat list" where
  "cited_numbers [] = []"
| "cited_numbers (c # cs) =
     (let ds = takeWhile is_digit cs in
      if c = CHR ''['' \<and> ds \<noteq> [] \<and> length ds \<le> 4 \<and> take 1 (drop (length ds) cs) = '']''
      then undec ds # cited_numbers (drop (length ds + 1) cs)
      else cited_numbers cs)"

definition lower_ascii :: "char \<Rightarrow> char" where
  "lower_ascii c =
     (if (65::nat) \<le> of_char c \<and> of_char c \<le> (90::nat) then char_of (of_char c + 32 :: nat) else c)"

definition hex_letter :: "char \<Rightarrow> bool" where
  "hex_letter c \<longleftrightarrow> is_digit c \<or> lower_ascii c \<in> set ''abcdef''"

definition uuid_at :: "string \<Rightarrow> bool" where
  "uuid_at s \<longleftrightarrow> length s \<ge> 36 \<and>
     list_all2 (\<lambda>p c. if p = CHR ''h'' then hex_letter c else c = p)
       ''hhhhhhhh-hhhh-hhhh-hhhh-hhhhhhhhhhhh'' (take 36 s)"

text \<open>The identifiers \<open>/<uuid>/gi\<close> finds, in lower case.\<close>

fun mentioned_ids :: "string \<Rightarrow> string list" where
  "mentioned_ids [] = []"
| "mentioned_ids (c # cs) =
     (if uuid_at (c # cs) then map lower_ascii (take 36 (c # cs)) # mentioned_ids (drop 35 cs)
      else mentioned_ids cs)"

record citation_check =
  ck_cited :: "nat list"
  ck_unknown_numbers :: "nat list"
  ck_unknown_ids :: "string list"

text \<open>First occurrences, in order.\<close>

definition first_seen :: "'a list \<Rightarrow> 'a list" where
  "first_seen xs = rev (remdups (rev xs))"

definition check_citations :: "string \<Rightarrow> context_item list \<Rightarrow> citation_check" where
  "check_citations text items =
     \<lparr>ck_cited = first_seen (filter (\<lambda>n. n \<in> ci_n ` set items) (cited_numbers text)),
      ck_unknown_numbers = first_seen (filter (\<lambda>n. n \<notin> ci_n ` set items) (cited_numbers text)),
      ck_unknown_ids = first_seen (filter (\<lambda>i. i \<notin> (map lower_ascii \<circ> ci_record) ` set items) (mentioned_ids text))\<rparr>"

section \<open>Labels and ceilings\<close>

lemma may_leave_host_iff:
  "may_leave_host c ceiling \<longleftrightarrow>
     c = ''public'' \<and> ceiling \<in> {''public'', ''internal''} \<or> c = ''internal'' \<and> ceiling = ''internal''"
  by (auto simp: may_leave_host_def is_provider_ceiling_def PROVIDER_CEILINGS_def ABSOLUTE_LIMIT_def rank_of_def)

lemma rank_le_trans: "rank_le a b \<Longrightarrow> rank_le b c \<Longrightarrow> rank_le a c"
  by (cases a; cases b; cases c) auto

lemma rank_le_total: "rank_le a b \<or> rank_le b a"
  by (cases a; cases b) auto

interpretation labels: comparator_order "\<lambda>a b. rank_le (rank_of a) (rank_of b)"
  by unfold_locales (use rank_le_total rank_le_trans in blast)+

definition known_label :: "string \<Rightarrow> string" where
  "known_label c = (if c \<in> set CLASSIFICATIONS then c else ''restricted'')"

lemma highest_fold:
  "foldl highest_step (Some h) cs = Some m \<Longrightarrow>
     m \<in> insert h (known_label ` set cs) \<and> rank_le (rank_of h) (rank_of m) \<and>
     (\<forall>c\<in>set cs. rank_le (rank_of (known_label c)) (rank_of m))"
proof (induction cs arbitrary: h)
  case Nil
  then show ?case by (simp add: labels.refl)
next
  case (Cons c cs)
  define h' where "h' = (if rank_le (rank_of (known_label c)) (rank_of h) then h else known_label c)"
  have "highest_step (Some h) c = Some h'"
    by (simp add: highest_step_def h'_def known_label_def Let_def)
  with Cons.prems have "foldl highest_step (Some h') cs = Some m" by simp
  note IH = Cons.IH [OF this]
  have "rank_le (rank_of h) (rank_of h')" "rank_le (rank_of (known_label c)) (rank_of h')"
    using labels.total [of h "known_label c"] by (auto simp: h'_def labels.refl)
  moreover have "h' \<in> {h, known_label c}" by (simp add: h'_def)
  ultimately show ?case using IH labels.trans [of h h' m] labels.trans [of "known_label c" h' m] by auto
qed

lemma highest_of_None: "highest_of cs = None \<longleftrightarrow> cs = []"
proof -
  have "foldl highest_step (Some h) cs \<noteq> None" for h cs
    by (induction cs arbitrary: h) (auto simp: highest_step_def Let_def split: if_splits)
  then show ?thesis by (cases cs) (simp_all add: highest_of_def highest_step_def Let_def)
qed

lemma highest_of_Some:
  assumes "highest_of cs = Some m"
  shows "m \<in> known_label ` set cs \<and> (\<forall>c\<in>set cs. rank_le (rank_of (known_label c)) (rank_of m))"
proof (cases cs)
  case Nil
  with assms show ?thesis by (simp add: highest_of_def)
next
  case (Cons c cs')
  have "highest_step None c = Some (known_label c)" by (simp add: highest_step_def known_label_def Let_def)
  with assms Cons have "foldl highest_step (Some (known_label c)) cs' = Some m" by (simp add: highest_of_def)
  from highest_fold [OF this] show ?thesis by (auto simp: Cons)
qed

lemma known_label_leaves: "may_leave_host (known_label c) ceiling \<longleftrightarrow> may_leave_host c ceiling"
  by (auto simp: may_leave_host_iff known_label_def CLASSIFICATIONS_def)

lemma may_leave_down:
  assumes "rank_le (rank_of a) (rank_of b)" and "may_leave_host b ceiling" and "a \<in> set CLASSIFICATIONS"
  shows "may_leave_host a ceiling"
proof -
  have ranks: "rank_of ''public'' = Some 0" "rank_of ''internal'' = Some 1" "rank_of ''confidential'' = Some 2"
    "rank_of ''restricted'' = Some 3"
    by (simp_all add: rank_of_def)
  have b: "b = ''public'' \<or> b = ''internal'' \<and> ceiling = ''internal''"
    and c: "ceiling = ''public'' \<or> ceiling = ''internal''"
    using assms(2) unfolding may_leave_host_iff by blast+
  consider "a = ''public''" | "a = ''internal''" | "a = ''confidential''" | "a = ''restricted''"
    using assms(3) unfolding CLASSIFICATIONS_def by auto
  then show ?thesis
  proof cases
    case 1
    with c show ?thesis unfolding may_leave_host_iff by blast
  next
    case 2
    have "b \<noteq> ''public''" using assms(1) ranks 2 by auto
    with b 2 show ?thesis unfolding may_leave_host_iff by blast
  next
    case 3
    with assms(1) b ranks show ?thesis by auto
  next
    case 4
    with assms(1) b ranks show ?thesis by auto
  qed
qed

lemma known_label_known: "known_label c \<in> set CLASSIFICATIONS"
  by (simp add: known_label_def CLASSIFICATIONS_def)

text \<open>The label a turn is routed by may leave exactly when every label it carries may.\<close>

lemma highest_leaves:
  assumes "highest_of cs = Some m"
  shows "may_leave_host m ceiling \<longleftrightarrow> (\<forall>c\<in>set cs. may_leave_host c ceiling)"
proof
  assume m: "may_leave_host m ceiling"
  show "\<forall>c\<in>set cs. may_leave_host c ceiling"
  proof
    fix c
    assume "c \<in> set cs"
    with highest_of_Some [OF assms] have "rank_le (rank_of (known_label c)) (rank_of m)" by blast
    from may_leave_down [OF this m known_label_known] show "may_leave_host c ceiling"
      by (simp only: known_label_leaves)
  qed
next
  assume "\<forall>c\<in>set cs. may_leave_host c ceiling"
  moreover obtain c where "c \<in> set cs" "m = known_label c" using highest_of_Some [OF assms] by blast
  ultimately show "may_leave_host m ceiling" by (simp add: known_label_leaves)
qed

section \<open>Properties\<close>

text \<open>C22: Controlled content never leaves the host. The transport is handed the request exactly when
  the organization's ceiling is not \<open>none\<close> and every context record and every earlier answer in the
  request is labelled public or internal and within the ceiling. Otherwise (an unlabelled or unknown
  label, \<open>confidential\<close> or \<open>restricted\<close> anywhere, or the ceiling \<open>none\<close>, whatever the request
  carries) nothing is sent and the answer is a refusal that names the context records held back.\<close>

theorem egress_guard_sound:
  assumes "provider_complete may_leave_host transport ceiling rq = (answer, sent)"
  shows "if ceiling \<noteq> ''none'' \<and> (\<forall>c\<in>set (carried_labels (mr_history rq) (mr_context rq)).
            c = ''public'' \<and> ceiling \<in> {''public'', ''internal''} \<or> c = ''internal'' \<and> ceiling = ''internal'')
    then sent = [rq] \<and> answer = transport rq
    else sent = [] \<and> (\<exists>label. answer = Egress_refused
      (map ci_record (filter (\<lambda>i. \<not> may_leave_host (ci_classification i) ceiling) (mr_context rq))) label)"
proof (cases "ceiling = ''none''")
  case True
  with assms show ?thesis by (auto simp: provider_complete_def may_leave_host_def)
next
  case False
  let ?L = "carried_labels (mr_history rq) (mr_context rq)"
  have held: "filter (\<lambda>i. \<not> may_leave_host (ci_classification i) ceiling) (mr_context rq) \<noteq> [] \<or>
      filter (\<lambda>t. cv_role t = Agent \<and> \<not> may_leave_host (turn_label t) ceiling) (mr_history rq) \<noteq> [] \<longleftrightarrow>
      \<not> (\<forall>c\<in>set ?L. may_leave_host c ceiling)"
    by (auto simp: carried_labels_def agent_turns_def filter_empty_conv)
  have "if \<forall>c\<in>set ?L. may_leave_host c ceiling then sent = [rq] \<and> answer = transport rq
    else sent = [] \<and> (\<exists>label. answer = Egress_refused
      (map ci_record (filter (\<lambda>i. \<not> may_leave_host (ci_classification i) ceiling) (mr_context rq))) label)"
    using assms False held by (auto simp: provider_complete_def Let_def split: if_splits)
  then show ?thesis unfolding may_leave_host_iff using False by simp
qed

definition sample_item :: "string \<Rightarrow> context_item" where
  "sample_item c = \<lparr>ci_n = 1, ci_record = ''r1'', ci_revision = ''1'', ci_title = ''t'', ci_classification = c, ci_text = ''x''\<rparr>"

definition sample_model_request :: "string \<Rightarrow> model_request" where
  "sample_model_request c =
     \<lparr>mr_system = [], mr_history = [], mr_context = [sample_item c], mr_question = ''q'', mr_max_tokens = 10\<rparr>"

text \<open>A restricted record under the ceiling \<open>internal\<close>, and a question without any record under the
  ceiling \<open>none\<close>.\<close>

theorem egress_guard_sound_witness:
  "(\<exists>label. provider_complete may_leave_host (\<lambda>rq. Reply ''a'') ''internal'' (sample_model_request ''restricted'') =
     (Egress_refused [''r1''] label, [])) \<and>
   (\<exists>label. provider_complete may_leave_host (\<lambda>rq. Reply ''a'') ''none''
       (sample_model_request ''public'' \<lparr>mr_context := []\<rparr>) = (Egress_refused [] label, []))"
proof
  let ?rq = "sample_model_request ''restricted''"
  obtain answer sent where p: "provider_complete may_leave_host (\<lambda>rq. Reply ''a'') ''internal'' ?rq = (answer, sent)"
    by fastforce
  from egress_guard_sound [OF p] p
  show "\<exists>label. provider_complete may_leave_host (\<lambda>rq. Reply ''a'') ''internal'' ?rq = (Egress_refused [''r1''] label, [])"
    by (simp add: carried_labels_def sample_model_request_def sample_item_def agent_turns_def may_leave_host_iff)
next
  let ?rq = "sample_model_request ''public'' \<lparr>mr_context := []\<rparr>"
  obtain answer sent where p: "provider_complete may_leave_host (\<lambda>rq. Reply ''a'') ''none'' ?rq = (answer, sent)"
    by fastforce
  from egress_guard_sound [OF p] p
  show "\<exists>label. provider_complete may_leave_host (\<lambda>rq. Reply ''a'') ''none'' ?rq = (Egress_refused [] label, [])"
    by simp
qed

text \<open>The router and the guard agree. The router hands a turn to the provider exactly when every
  label the turn carries may leave and the deployment does not prefer an available model on the
  host; the guard then lets the same request through; and a turn with content that may not leave
  is answered on the host or refused as KF-ROUTE-004, never by the provider.\<close>

theorem router_agrees_with_guard:
  assumes p: "be_provider bs = Some p" "bk_kind p = Provider"
    and host: "\<forall>h. be_on_host bs = Some h \<longrightarrow> bk_kind h = On_host"
    and ceiling: "is_provider_ceiling ceiling" "ceiling \<noteq> ''none''"
    and labels: "labels = carried_labels (mr_history rq) (mr_context rq)"
  shows "((\<exists>l why. choose_backend labels ceiling bs may_leave_host = Answered_by p l why) \<longleftrightarrow>
        (\<forall>c\<in>set labels. may_leave_host c ceiling) \<and> (\<not> be_prefer_on_host bs \<or> be_on_host bs = None)) \<and>
    ((\<forall>c\<in>set labels. may_leave_host c ceiling) \<longrightarrow>
      provider_complete may_leave_host transport ceiling rq = (transport rq, [rq])) \<and>
    (\<not> (\<forall>c\<in>set labels. may_leave_host c ceiling) \<longrightarrow>
      (case be_on_host bs of
         Some h \<Rightarrow> \<exists>l why. choose_backend labels ceiling bs may_leave_host = Answered_by h l why
       | None \<Rightarrow> \<exists>l message. choose_backend labels ceiling bs may_leave_host = Route_refused KF_ROUTE_004 l message))"
proof -
  define all where "all \<longleftrightarrow> (\<forall>c\<in>set labels. may_leave_host c ceiling)"
  have public: "may_leave_host ''public'' ceiling"
    using ceiling by (auto simp: may_leave_host_iff is_provider_ceiling_def PROVIDER_CEILINGS_def)
  have leaves: "may_leave_host (case highest_of labels of None \<Rightarrow> ''public'' | Some c \<Rightarrow> c) ceiling \<longleftrightarrow> all"
  proof (cases "highest_of labels")
    case None
    then have "labels = []" by (simp only: highest_of_None)
    then show ?thesis using public by (simp add: all_def highest_of_def)
  next
    case (Some m)
    then show ?thesis using highest_leaves [OF Some] by (simp add: all_def)
  qed
  have other: "h \<noteq> p" if "be_on_host bs = Some h" for h
    using that host p(2) by auto
  have "provider_complete may_leave_host transport ceiling rq = (transport rq, [rq])" if all
    using that ceiling(2)
    by (auto simp: provider_complete_def Let_def all_def labels carried_labels_def agent_turns_def filter_empty_conv)
  moreover have "(\<exists>l why. choose_backend labels ceiling bs may_leave_host = Answered_by p l why) \<longleftrightarrow>
      all \<and> (\<not> be_prefer_on_host bs \<or> be_on_host bs = None)"
    unfolding choose_backend_def Let_def leaves using p(1) other
    by (cases "be_on_host bs"; cases all; cases "be_prefer_on_host bs") simp_all
  moreover have "\<not> all \<longrightarrow> (case be_on_host bs of
         Some h \<Rightarrow> \<exists>l why. choose_backend labels ceiling bs may_leave_host = Answered_by h l why
       | None \<Rightarrow> \<exists>l message. choose_backend labels ceiling bs may_leave_host = Route_refused KF_ROUTE_004 l message)"
    unfolding choose_backend_def Let_def leaves using p(1)
    by (cases "be_on_host bs"; cases all) simp_all
  ultimately show ?thesis unfolding all_def by blast
qed

definition sample_backends :: backends where
  "sample_backends =
     \<lparr>be_on_host = None,
      be_provider = Some \<lparr>bk_kind = Provider, bk_name = ''p'', bk_complete = (\<lambda>rq. Reply ''a'')\<rparr>,
      be_prefer_on_host = False\<rparr>"

theorem router_agrees_with_guard_witness:
  "\<exists>l message. choose_backend [''confidential''] ''internal'' sample_backends may_leave_host =
     Route_refused KF_ROUTE_004 l message"
proof -
  have c: "is_provider_ceiling ''internal''" "''internal'' \<noteq> ''none''"
    by (simp_all add: is_provider_ceiling_def PROVIDER_CEILINGS_def)
  have "[''confidential''] = carried_labels (mr_history (sample_model_request ''confidential''))
      (mr_context (sample_model_request ''confidential''))"
    by (simp add: carried_labels_def sample_model_request_def sample_item_def agent_turns_def)
  moreover have "be_provider sample_backends = Some \<lparr>bk_kind = Provider, bk_name = ''p'', bk_complete = (\<lambda>rq. Reply ''a'')\<rparr>"
    by (simp add: sample_backends_def)
  moreover have "\<not> (\<forall>c\<in>set [''confidential'']. may_leave_host c ''internal'')"
    by (simp add: may_leave_host_iff)
  ultimately show ?thesis
    using router_agrees_with_guard [of sample_backends _ "''internal''" "[''confidential'']"
        "sample_model_request ''confidential''"] c
    by (simp add: sample_backends_def)
qed

text \<open>C30: A label cannot be lowered. Let \<open>issued\<close> be the answers this host sealed, each with its label.
  A turn that comes back is trusted with exactly the label it states when it carries the seal issued
  for that very text under that label; in every other case (no seal, no label, an edited text, another
  label, a seal issued for something else, bytes that are no seal at all) it counts as \<open>restricted\<close>.
  Labels are of the four classifications; HMAC is assumed not to collide, base64url to decode what
  it encoded, and the MAC not to be forged: a presented seal is an issued one or no MAC under the
  host's key.\<close>

theorem sealed_label_not_lowered:
  assumes inj: "inj (mac key)" and decode: "\<And>b. decode (encode b) = b"
    and labels: "snd ` issued \<subseteq> set CLASSIFICATIONS" "\<And>c. ct_classification t = Some c \<Longrightarrow> c \<in> set CLASSIFICATIONS"
    and unforged: "\<And>s. ct_seal t = Some s \<Longrightarrow>
      (\<exists>(text, label)\<in>issued. decode s = decode (seal_turn mac encode key text label)) \<or> decode s \<notin> range (mac key)"
  shows "verified_classification mac decode key t =
    (if \<exists>label s. ct_classification t = Some label \<and> ct_seal t = Some s \<and> (ct_text t, label) \<in> issued \<and>
          decode s = decode (seal_turn mac encode key (ct_text t) label)
     then the (ct_classification t) else ''restricted'')"
proof (cases "ct_classification t = None \<or> ct_seal t = None")
  case True
  then show ?thesis by (auto simp: verified_classification_def split: option.splits)
next
  case False
  then obtain c s where t: "ct_classification t = Some c" "ct_seal t = Some s" by auto
  have "(ct_text t, c) \<in> issued" if m: "decode s = mac key (seal_input (ct_text t) c)"
  proof -
    obtain x label where i: "(x, label) \<in> issued" "decode s = mac key (seal_input x label)"
      using unforged [OF t(2)] m decode by (auto simp: seal_turn_def)
    have "seal_input x label = seal_input (ct_text t) c"
      using inj by (rule injD) (use i m in simp)
    then have eq: "label @ CHR 0x0A # x = c @ CHR 0x0A # ct_text t" by (simp add: seal_input_def)
    have "label \<in> set CLASSIFICATIONS" using labels(1) i(1) by force
    then have "CHR 0x0A \<notin> set label" "CHR 0x0A \<notin> set c"
      using labels(2) [OF t(1)] by (auto simp: CLASSIFICATIONS_def)
    from split_at_unique [OF this eq] i(1) show ?thesis by simp
  qed
  then show ?thesis using t decode by (auto simp: verified_classification_def seal_turn_def)
qed

text \<open>The answer \<open>hi\<close>, sealed as confidential: carried back as it was, relabelled, and without its
  seal.\<close>

theorem sealed_label_not_lowered_witness:
  "let mac = \<lambda>k s. s; code = \<lambda>s. s; seal = seal_turn mac code ''k'' ''hi'' ''confidential'';
       turn = \<lambda>label s. \<lparr>ct_role = Agent, ct_text = ''hi'', ct_classification = Some label, ct_seal = s\<rparr> in
   verified_classification mac code ''k'' (turn ''confidential'' (Some seal)) = ''confidential'' \<and>
   verified_classification mac code ''k'' (turn ''public'' (Some seal)) = ''restricted'' \<and>
   verified_classification mac code ''k'' (turn ''public'' None) = ''restricted''"
proof -
  let ?mac = "\<lambda>k s. s" and ?code = "\<lambda>s. s"
  let ?seal = "seal_turn ?mac ?code ''k'' ''hi'' ''confidential''"
  let ?turn = "\<lambda>label s. \<lparr>ct_role = Agent, ct_text = ''hi'', ct_classification = Some label, ct_seal = s\<rparr>"
  have rule: "verified_classification ?mac ?code ''k'' (?turn label s) =
      (if label = ''confidential'' \<and> s = Some ?seal then label else ''restricted'')"
    if "label \<in> set CLASSIFICATIONS" and "s = Some ?seal \<or> s = None" for label s
    using sealed_label_not_lowered [where mac = ?mac and decode = ?code and encode = ?code and key = "''k''"
        and issued = "{(''hi'', ''confidential'')}" and t = "?turn label s"] that
    by (auto simp: CLASSIFICATIONS_def inj_on_def)
  show ?thesis unfolding Let_def by (simp add: rule CLASSIFICATIONS_def)
qed

lemma fence_prefix: "CHR ''<'' \<notin> set p \<Longrightarrow> take (length p) (fence s) = p \<Longrightarrow> take (length p) s = p"
proof (induction p arbitrary: s)
  case (Cons x p)
  show ?case
  proof (cases s)
    case Nil
    with Cons.prems show ?thesis by simp
  next
    case (Cons c cs)
    show ?thesis
    proof (cases "take 9 (c # cs) = ''</source>''")
      case True
      with Cons.prems Cons show ?thesis by auto
    next
      case False
      with Cons Cons.prems have "x = c" "take (length p) (fence cs) = p" by auto
      with Cons.IH [of cs] Cons.prems(1) Cons show ?thesis by simp
    qed
  qed
qed simp

text \<open>A record's text cannot close its source element: after fencing it nowhere contains
  \<open></source>\<close>.\<close>

theorem fenced_text_has_no_end_tag: "\<not> occurs ''</source>'' (fence s)"
proof (induction s rule: fence.induct)
  case 1
  then show ?case by (simp add: occurs_Nil)
next
  case (2 c cs)
  show ?case
  proof (cases "take 9 (c # cs) = ''</source>''")
    case True
    then show ?thesis using 2(1) by (simp add: occurs_Cons)
  next
    case False
    have "take 9 (c # fence cs) \<noteq> ''</source>''"
    proof
      assume t: "take 9 (c # fence cs) = ''</source>''"
      have nine: "9 = Suc (length ''/source>'')" by simp
      from t have "take (length ''/source>'') (fence cs) = ''/source>''" "c = CHR ''<''"
        unfolding nine by (simp_all only: take_Suc_Cons list.inject)
      from fence_prefix [OF _ this(1)] this(2) have "take 9 (c # cs) = ''</source>''"
        unfolding nine by (simp only: take_Suc_Cons simp_thms list.inject) simp
      with False show False ..
    qed
    moreover have "length ''</source>'' = 9" by simp
    ultimately have "\<not> occurs ''</source>'' (c # fence cs)"
      using 2(2) [OF False] by (metis occurs_Cons list.distinct(1))
    with False show ?thesis by (simp only: fence.simps if_False simp_thms)
  qed
qed

text \<open>The title is not fenced. A record titled \<open></source>\<close> closes its own source element: the
  rendered source contains the end tag within its opening tag, before the record's text begins.\<close>

theorem title_closes_source:
  "occurs ''</source>'' (take 35 (render_source (sample_item ''public'' \<lparr>ci_title := ''</source>''\<rparr>))) \<and>
   \<not> occurs ''</source>'' (fence (ci_text (sample_item ''public'')))"
proof
  show "occurs ''</source>'' (take 35 (render_source (sample_item ''public'' \<lparr>ci_title := ''</source>''\<rparr>)))"
    by code_simp
  show "\<not> occurs ''</source>'' (fence (ci_text (sample_item ''public'')))"
    by code_simp
qed

end
