(* ===== verification/Seccomp_Filter.thy ===== *)
theory Seccomp_Filter
  imports KF_Prelude
begin

text \<open>
  The system call filter the document compiler runs under
  (\<open>packages/documents/src/liminal-adapter/seccomp.ts\<close>): the lists of refused calls, the
  numbers of both architectures, the classic BPF program assembled from them and its bytes.

  The kernel that runs the program is not part of the repository. What the filter relies on is the
  locale \<open>classic_bpf\<close>: the documented meaning of the five instructions it uses, given for a
  program of encoded \<open>sock_filter\<close> instructions and only for jumps that stay inside it, because
  the kernel refuses any other program. \<open>bpf_run\<close>, an interpreter of the encoded bytes, meets
  it. The refinement lemma states the verdict of the assembled program for every system call.
\<close>

unbundle bit_operations_syntax

section \<open>The lists\<close>

definition EPERM :: nat where
  "EPERM = 1"

definition ENOSYS :: nat where
  "ENOSYS = 38"

definition DENIED :: "string list" where
  "DENIED =
   [''mount'', ''umount2'', ''pivot_root'', ''chroot'', ''fsopen'', ''fsconfig'',
    ''fsmount'', ''fspick'', ''move_mount'', ''open_tree'', ''mount_setattr'', ''ptrace'',
    ''process_vm_readv'', ''process_vm_writev'', ''perf_event_open'', ''pidfd_getfd'', ''lookup_dcookie'', ''init_module'',
    ''finit_module'', ''delete_module'', ''reboot'', ''kexec_load'', ''kexec_file_load'', ''swapon'',
    ''swapoff'', ''ioperm'', ''iopl'', ''settimeofday'', ''clock_settime'', ''adjtimex'',
    ''clock_adjtime'', ''add_key'', ''request_key'', ''keyctl'', ''unshare'', ''setns'',
    ''sethostname'', ''setdomainname'', ''capset'', ''bpf'', ''userfaultfd'', ''acct'',
    ''quotactl'', ''quotactl_fd'', ''name_to_handle_at'', ''open_by_handle_at'', ''kcmp'', ''fanotify_init'',
    ''vhangup'', ''syslog'']"

definition UNAVAILABLE :: "string list" where
  "UNAVAILABLE =
   [''clone3'', ''io_uring_setup'', ''io_uring_enter'', ''io_uring_register'']"

definition SECCOMP_DENIED :: "string list" where
  "SECCOMP_DENIED = DENIED @ UNAVAILABLE"

datatype seccomp_architecture = X86_64 | Aarch64

definition X86_64_NUMBERS :: "(string \<times> nat) list" where
  "X86_64_NUMBERS =
   [(''mount'', 165), (''umount2'', 166), (''pivot_root'', 155), (''chroot'', 161),
    (''fsopen'', 430), (''fsconfig'', 431), (''fsmount'', 432), (''fspick'', 433),
    (''move_mount'', 429), (''open_tree'', 428), (''mount_setattr'', 442), (''ptrace'', 101),
    (''process_vm_readv'', 310), (''process_vm_writev'', 311), (''perf_event_open'', 298), (''pidfd_getfd'', 438),
    (''lookup_dcookie'', 212), (''init_module'', 175), (''finit_module'', 313), (''delete_module'', 176),
    (''reboot'', 169), (''kexec_load'', 246), (''kexec_file_load'', 320), (''swapon'', 167),
    (''swapoff'', 168), (''ioperm'', 173), (''iopl'', 172), (''settimeofday'', 164),
    (''clock_settime'', 227), (''adjtimex'', 159), (''clock_adjtime'', 305), (''add_key'', 248),
    (''request_key'', 249), (''keyctl'', 250), (''unshare'', 272), (''setns'', 308),
    (''sethostname'', 170), (''setdomainname'', 171), (''capset'', 126), (''bpf'', 321),
    (''userfaultfd'', 323), (''acct'', 163), (''quotactl'', 179), (''quotactl_fd'', 443),
    (''name_to_handle_at'', 303), (''open_by_handle_at'', 304), (''kcmp'', 312), (''fanotify_init'', 300),
    (''vhangup'', 153), (''syslog'', 103), (''clone3'', 435), (''io_uring_setup'', 425),
    (''io_uring_enter'', 426), (''io_uring_register'', 427), (''clone'', 56)]"

definition AARCH64_NUMBERS :: "(string \<times> nat) list" where
  "AARCH64_NUMBERS =
   [(''mount'', 40), (''umount2'', 39), (''pivot_root'', 41), (''chroot'', 51),
    (''fsopen'', 430), (''fsconfig'', 431), (''fsmount'', 432), (''fspick'', 433),
    (''move_mount'', 429), (''open_tree'', 428), (''mount_setattr'', 442), (''ptrace'', 117),
    (''process_vm_readv'', 270), (''process_vm_writev'', 271), (''perf_event_open'', 241), (''pidfd_getfd'', 438),
    (''lookup_dcookie'', 18), (''init_module'', 105), (''finit_module'', 273), (''delete_module'', 106),
    (''reboot'', 142), (''kexec_load'', 104), (''kexec_file_load'', 294), (''swapon'', 224),
    (''swapoff'', 225), (''settimeofday'', 170), (''clock_settime'', 112), (''adjtimex'', 171),
    (''clock_adjtime'', 266), (''add_key'', 217), (''request_key'', 218), (''keyctl'', 219),
    (''unshare'', 97), (''setns'', 268), (''sethostname'', 161), (''setdomainname'', 162),
    (''capset'', 91), (''bpf'', 280), (''userfaultfd'', 282), (''acct'', 89),
    (''quotactl'', 60), (''quotactl_fd'', 443), (''name_to_handle_at'', 264), (''open_by_handle_at'', 265),
    (''kcmp'', 272), (''fanotify_init'', 262), (''vhangup'', 58), (''syslog'', 116),
    (''clone3'', 435), (''io_uring_setup'', 425), (''io_uring_enter'', 426), (''io_uring_register'', 427),
    (''clone'', 220)]"

fun NUMBERS :: "seccomp_architecture \<Rightarrow> (string \<times> nat) list" where
  "NUMBERS X86_64 = X86_64_NUMBERS"
| "NUMBERS Aarch64 = AARCH64_NUMBERS"

fun AUDIT_ARCH :: "seccomp_architecture \<Rightarrow> nat" where
  "AUDIT_ARCH X86_64 = 0xc000003e"
| "AUDIT_ARCH Aarch64 = 0xc00000b7"

text \<open>The eight \<open>CLONE_NEW*\<close> flags: mount, cgroup, uts, ipc, user, pid, net, time.\<close>

definition namespace_flags :: "32 word list" where
  "namespace_flags =
     [0x00020000, 0x02000000, 0x04000000, 0x08000000, 0x10000000, 0x20000000, 0x40000000, 0x00000080]"

definition CLONE_NEW_NAMESPACES :: nat where
  "CLONE_NEW_NAMESPACES = unat (foldr (OR) namespace_flags 0)"

definition X32_SYSCALL_BIT :: nat where
  "X32_SYSCALL_BIT = 0x40000000"

definition current_seccomp_architecture :: "string \<Rightarrow> seccomp_architecture option" where
  "current_seccomp_architecture process_arch =
     (if process_arch = ''x64'' then Some X86_64
      else if process_arch = ''arm64'' then Some Aarch64
      else None)"

text \<open>The names are those of the table's type; inherited properties of the table are outside it.\<close>

definition seccomp_syscall_number :: "seccomp_architecture \<Rightarrow> string \<Rightarrow> nat option" where
  "seccomp_syscall_number arch name = map_of (NUMBERS arch) name"

section \<open>Instructions and their bytes\<close>

definition LD_W_ABS :: nat where
  "LD_W_ABS = 0x20"

definition JEQ_K :: nat where
  "JEQ_K = 0x15"

definition JGE_K :: nat where
  "JGE_K = 0x35"

definition JSET_K :: nat where
  "JSET_K = 0x45"

definition RET_K :: nat where
  "RET_K = 0x06"

definition RET_KILL_PROCESS :: nat where
  "RET_KILL_PROCESS = 0x80000000"

definition RET_ERRNO :: nat where
  "RET_ERRNO = 0x00050000"

definition RET_ALLOW :: nat where
  "RET_ALLOW = 0x7fff0000"

definition DATA_NR :: nat where
  "DATA_NR = 0"

definition DATA_ARCH :: nat where
  "DATA_ARCH = 4"

definition DATA_ARG0_LOW :: nat where
  "DATA_ARG0_LOW = 16"

record instruction =
  i_code :: nat
  i_jt :: nat
  i_jf :: nat
  i_k :: nat

text \<open>\<open>op(code, k, jt, jf)\<close>; the jumps default to 0 in the source, written out here.\<close>

definition op_k :: "nat \<Rightarrow> nat \<Rightarrow> nat \<Rightarrow> nat \<Rightarrow> instruction" where
  "op_k code k jt jf = \<lparr>i_code = code, i_jt = jt, i_jf = jf, i_k = k\<rparr>"

datatype filter_error = No_filter_defined string | Out_of_range nat

text \<open>\<open>Buffer.writeUInt*LE\<close> of \<open>n\<close> bytes refuses a value that does not fit them.\<close>

fun le_bytes :: "nat \<Rightarrow> nat \<Rightarrow> 8 word list" where
  "le_bytes 0 v = []"
| "le_bytes (Suc n) v = word_of_nat (v mod 256) # le_bytes n (v div 256)"

definition write_uint :: "nat \<Rightarrow> nat \<Rightarrow> filter_error + 8 word list" where
  "write_uint n v = (if v < 256 ^ n then Inr (le_bytes n v) else Inl (Out_of_range v))"

definition encode_instruction :: "instruction \<Rightarrow> filter_error + 8 word list" where
  "encode_instruction i =
     bindE (write_uint 2 (i_code i)) (\<lambda>code.
     bindE (write_uint 1 (i_jt i)) (\<lambda>jt.
     bindE (write_uint 1 (i_jf i)) (\<lambda>jf.
     bindE (write_uint 4 (i_k i mod 2 ^ 32)) (\<lambda>k.
     Inr (code @ jt @ jf @ k)))))"

fun encode_program :: "instruction list \<Rightarrow> filter_error + 8 word list" where
  "encode_program [] = Inr []"
| "encode_program (i # is) =
     bindE (encode_instruction i) (\<lambda>b. bindE (encode_program is) (\<lambda>bs. Inr (b @ bs)))"

section \<open>The program\<close>

definition or_errno :: "nat \<Rightarrow> nat" where
  "or_errno e = unat ((word_of_nat RET_ERRNO :: 32 word) OR word_of_nat e)"

text \<open>\<open>refuse(name, errno)\<close>: nothing is pushed where the architecture lacks the call.\<close>

definition refuse_call :: "(string \<times> nat) list \<Rightarrow> nat \<Rightarrow> string \<Rightarrow> instruction list" where
  "refuse_call numbers errno name =
     (case map_of numbers name of
        None \<Rightarrow> []
      | Some number \<Rightarrow> [op_k JEQ_K number 0 1, op_k RET_K (or_errno errno) 0 0])"

definition prologue :: "seccomp_architecture \<Rightarrow> instruction list" where
  "prologue arch =
     [op_k LD_W_ABS DATA_ARCH 0 0, op_k JEQ_K (AUDIT_ARCH arch) 1 0, op_k RET_K RET_KILL_PROCESS 0 0,
      op_k LD_W_ABS DATA_NR 0 0] @
     (if arch = X86_64
      then [op_k JGE_K X32_SYSCALL_BIT 0 1, op_k RET_K RET_KILL_PROCESS 0 0] else [])"

definition epilogue :: "nat \<Rightarrow> instruction list" where
  "epilogue clone_number =
     [op_k JEQ_K clone_number 0 4, op_k LD_W_ABS DATA_ARG0_LOW 0 0, op_k JSET_K CLONE_NEW_NAMESPACES 0 1,
      op_k RET_K (or_errno EPERM) 0 0, op_k LD_W_ABS DATA_NR 0 0, op_k RET_K RET_ALLOW 0 0]"

definition filter_instructions :: "seccomp_architecture \<Rightarrow> instruction list" where
  "filter_instructions arch =
     prologue arch @ concat (map (refuse_call (NUMBERS arch) EPERM) DENIED) @
     concat (map (refuse_call (NUMBERS arch) ENOSYS) UNAVAILABLE) @
     epilogue (the (map_of (NUMBERS arch) ''clone''))"

definition compiler_seccomp_program :: "string \<Rightarrow> seccomp_architecture option \<Rightarrow>
    filter_error + 8 word list" where
  "compiler_seccomp_program process_arch arch =
     (case arch of
        None \<Rightarrow> Inl (No_filter_defined (''no compiler syscall filter is defined for '' @ process_arch @
                  ''; refusing to run the compiler unfiltered''))
      | Some a \<Rightarrow> encode_program (filter_instructions a))"

section \<open>What the kernel does with a program\<close>

text \<open>\<open>struct seccomp_data\<close>, as far as the filter reads it.\<close>

record seccomp_data =
  sd_nr :: "32 word"
  sd_arch :: "32 word"
  sd_arg0 :: "64 word"

definition data_field :: "nat \<Rightarrow> seccomp_data \<Rightarrow> 32 word" where
  "data_field offset d =
     (if offset = DATA_NR then sd_nr d
      else if offset = DATA_ARCH then sd_arch d
      else if offset = DATA_ARG0_LOW then ucast (sd_arg0 d)
      else 0)"

definition in_range :: "instruction \<Rightarrow> bool" where
  "in_range i \<longleftrightarrow> i_code i < 2 ^ 16 \<and> i_jt i < 2 ^ 8 \<and> i_jf i < 2 ^ 8 \<and> i_k i < 2 ^ 32"

definition sock_filter :: "instruction \<Rightarrow> 8 word list" where
  "sock_filter i = le_bytes 2 (i_code i) @ le_bytes 1 (i_jt i) @ le_bytes 1 (i_jf i) @ le_bytes 4 (i_k i)"

abbreviation bytes_of :: "instruction list \<Rightarrow> 8 word list" where
  "bytes_of is \<equiv> concat (map sock_filter is)"

lemma encode_instruction_in_range: "in_range i \<Longrightarrow> encode_instruction i = Inr (sock_filter i)"
  by (simp add: encode_instruction_def in_range_def sock_filter_def write_uint_def)

lemma encode_program_in_range: "list_all in_range is \<Longrightarrow> encode_program is = Inr (bytes_of is)"
  by (induction "is") (simp_all add: encode_instruction_in_range)

text \<open>The branch an instruction takes on the accumulator.\<close>

definition taken :: "instruction \<Rightarrow> 32 word \<Rightarrow> bool" where
  "taken i a \<longleftrightarrow>
     (if i_code i = JEQ_K then a = word_of_nat (i_k i)
      else if i_code i = JGE_K then word_of_nat (i_k i) \<le> a
      else a AND word_of_nat (i_k i) \<noteq> 0)"

definition is_jump :: "instruction \<Rightarrow> bool" where
  "is_jump i \<longleftrightarrow> i_code i \<in> {JEQ_K, JGE_K, JSET_K}"

locale classic_bpf =
  fixes machine :: "8 word list \<Rightarrow> 32 word \<Rightarrow> seccomp_data \<Rightarrow> 32 word"
  assumes load: "in_range i \<Longrightarrow> i_code i = LD_W_ABS \<Longrightarrow> i_k i \<in> {DATA_NR, DATA_ARCH, DATA_ARG0_LOW} \<Longrightarrow>
      machine (bytes_of (i # is)) a d = machine (bytes_of is) (data_field (i_k i) d) d"
    and jump: "in_range i \<Longrightarrow> is_jump i \<Longrightarrow> i_jt i < length is \<Longrightarrow> i_jf i < length is \<Longrightarrow>
      machine (bytes_of (i # is)) a d = machine (bytes_of (drop (if taken i a then i_jt i else i_jf i) is)) a d"
    and return: "in_range i \<Longrightarrow> i_code i = RET_K \<Longrightarrow> machine (bytes_of (i # is)) a d = word_of_nat (i_k i)"

section \<open>The policy\<close>

text \<open>What the filter is meant to answer for a system call, read off the lists and the comments.\<close>

definition asks_for_namespace :: "64 word \<Rightarrow> bool" where
  "asks_for_namespace clone_arg \<longleftrightarrow> list_ex (\<lambda>f. (ucast clone_arg :: 32 word) AND f \<noteq> 0) namespace_flags"

definition call_named :: "seccomp_architecture \<Rightarrow> 32 word \<Rightarrow> string \<Rightarrow> bool" where
  "call_named arch nr name \<longleftrightarrow>
     (case seccomp_syscall_number arch name of None \<Rightarrow> False | Some n \<Rightarrow> nr = word_of_nat n)"

definition filter_policy :: "seccomp_architecture \<Rightarrow> seccomp_data \<Rightarrow> 32 word" where
  "filter_policy arch d =
     (if sd_arch d \<noteq> word_of_nat (AUDIT_ARCH arch) then word_of_nat RET_KILL_PROCESS
      else if arch = X86_64 \<and> word_of_nat X32_SYSCALL_BIT \<le> sd_nr d then word_of_nat RET_KILL_PROCESS
      else if list_ex (call_named arch (sd_nr d)) DENIED then word_of_nat (or_errno EPERM)
      else if list_ex (call_named arch (sd_nr d)) UNAVAILABLE then word_of_nat (or_errno ENOSYS)
      else if call_named arch (sd_nr d) ''clone'' \<and> asks_for_namespace (sd_arg0 d)
      then word_of_nat (or_errno EPERM)
      else word_of_nat RET_ALLOW)"

section \<open>The program implements the policy\<close>

lemma and_or_zero:
  fixes x :: "'a::len word"
  shows "x AND (a OR b) = 0 \<longleftrightarrow> x AND a = 0 \<and> x AND b = 0"
  by (auto simp: bit_eq_iff bit_simps)

lemma and_foldr_or: "x AND foldr (OR) fs 0 \<noteq> 0 \<longleftrightarrow> list_ex (\<lambda>f. x AND f \<noteq> 0) fs" for x :: "'a::len word"
  by (induction fs) (simp_all add: and_or_zero)

lemma namespace_mask:
  "(ucast x AND word_of_nat CLONE_NEW_NAMESPACES :: 32 word) \<noteq> 0 \<longleftrightarrow> asks_for_namespace x"
  by (simp add: asks_for_namespace_def CLONE_NEW_NAMESPACES_def and_foldr_or)

named_theorems opcode \<open>the instructions the filter is made of\<close>

declare LD_W_ABS_def [opcode] JEQ_K_def [opcode] JGE_K_def [opcode] JSET_K_def [opcode] RET_K_def [opcode]
  op_k_def [opcode] DATA_NR_def [opcode] DATA_ARCH_def [opcode] DATA_ARG0_LOW_def [opcode]

lemma or_errno_bound: "or_errno e < 2 ^ 32"
  using unsigned_less [of "(word_of_nat RET_ERRNO :: 32 word) OR word_of_nat e"] by (simp add: or_errno_def)

lemma mask_bound: "CLONE_NEW_NAMESPACES < 2 ^ 32"
  using unsigned_less [of "foldr (OR) namespace_flags (0 :: 32 word)"] by (simp add: CLONE_NEW_NAMESPACES_def)

lemma numbers_bound: "map_of (NUMBERS arch) name = Some n \<Longrightarrow> n < 2 ^ 32"
proof -
  assume "map_of (NUMBERS arch) name = Some n"
  moreover have "list_all (\<lambda>p. snd p < 2 ^ 32) (NUMBERS arch)"
    by (cases arch) (simp_all add: X86_64_NUMBERS_def AARCH64_NUMBERS_def)
  ultimately show ?thesis by (fastforce simp: list_all_iff dest: map_of_SomeD)
qed

lemma clone_number: "\<exists>n. map_of (NUMBERS arch) ''clone'' = Some n"
  by (cases arch) (simp_all add: X86_64_NUMBERS_def AARCH64_NUMBERS_def)

lemma refuse_in_range: "n < 2 ^ 32 \<Longrightarrow> in_range (op_k JEQ_K n 0 (Suc 0)) \<and> in_range (op_k RET_K (or_errno e) 0 0)"
  using or_errno_bound [of e] by (simp add: in_range_def opcode)

lemma filter_in_range: "list_all in_range (filter_instructions arch)"
proof -
  have refused: "list_all in_range (concat (map (refuse_call (NUMBERS arch) e) names))" for e names
    by (induction names) (auto simp: refuse_call_def refuse_in_range dest: numbers_bound split: option.splits)
  obtain n where n: "map_of (NUMBERS arch) ''clone'' = Some n" using clone_number by blast
  have "list_all in_range (prologue arch)"
    by (cases arch) (simp_all add: prologue_def in_range_def opcode RET_KILL_PROCESS_def X32_SYSCALL_BIT_def)
  moreover have "list_all in_range (epilogue n)"
    using numbers_bound [OF n] mask_bound or_errno_bound [of EPERM]
    by (simp add: epilogue_def in_range_def opcode RET_ALLOW_def)
  ultimately show ?thesis by (simp add: filter_instructions_def refused n)
qed

lemma filter_assembles:
  "compiler_seccomp_program host (Some arch) = Inr (bytes_of (filter_instructions arch))"
  by (simp add: compiler_seccomp_program_def encode_program_in_range filter_in_range)

text \<open>Running the encoded program, with the bytes out of sight of the simplifier.\<close>

definition exec :: "(8 word list \<Rightarrow> 32 word \<Rightarrow> seccomp_data \<Rightarrow> 32 word) \<Rightarrow> instruction list \<Rightarrow> 32 word \<Rightarrow>
    seccomp_data \<Rightarrow> 32 word" where
  "exec machine is a d = machine (bytes_of is) a d"

context classic_bpf
begin

lemma exec_load:
  assumes "k \<in> {DATA_NR, DATA_ARCH, DATA_ARG0_LOW}"
  shows "exec machine (op_k LD_W_ABS k 0 0 # is) a d = exec machine is (data_field k d) d"
  using load [of "op_k LD_W_ABS k 0 0" "is" a d] assms unfolding exec_def
  by (auto simp: in_range_def opcode)

lemma exec_jump:
  assumes "is_jump (op_k c k jt jf)" "k < 2 ^ 32" "jt < 2 ^ 8" "jf < 2 ^ 8" "jt < length is" "jf < length is"
  shows "exec machine (op_k c k jt jf # is) a d =
    (if taken (op_k c k jt jf) a then exec machine (drop jt is) a d else exec machine (drop jf is) a d)"
  using jump [of "op_k c k jt jf" "is" a d] assms unfolding exec_def
  by (auto simp: in_range_def is_jump_def opcode)

lemma exec_return: "k < 2 ^ 32 \<Longrightarrow> exec machine (op_k RET_K k 0 0 # is) a d = word_of_nat k"
  using return [of "op_k RET_K k 0 0" "is" a d] unfolding exec_def by (simp add: in_range_def opcode)

lemma exec_refuse:
  assumes "rest \<noteq> []"
  shows "exec machine (concat (map (refuse_call (NUMBERS arch) e) names) @ rest) a d =
    (if list_ex (call_named arch a) names then word_of_nat (or_errno e) else exec machine rest a d)"
proof (induction names)
  case (Cons name names)
  show ?case
  proof (cases "map_of (NUMBERS arch) name")
    case None
    then show ?thesis using Cons.IH by (simp add: refuse_call_def call_named_def seccomp_syscall_number_def)
  next
    case (Some n)
    have "taken (op_k JEQ_K n 0 1) a \<longleftrightarrow> a = word_of_nat n" "is_jump (op_k JEQ_K n 0 1)"
      by (simp_all add: taken_def is_jump_def opcode)
    with Some Cons.IH show ?thesis using assms numbers_bound [OF Some] or_errno_bound [of e]
      by (simp add: refuse_call_def call_named_def seccomp_syscall_number_def exec_jump exec_return)
  qed
qed simp

lemma exec_epilogue:
  assumes "map_of (NUMBERS arch) ''clone'' = Some n" and "a = sd_nr d"
  shows "exec machine (epilogue n) a d =
    (if call_named arch a ''clone'' \<and> asks_for_namespace (sd_arg0 d) then word_of_nat (or_errno EPERM)
     else word_of_nat RET_ALLOW)"
proof -
  have jeq: "taken (op_k JEQ_K n 0 4) a \<longleftrightarrow> call_named arch a ''clone''" "is_jump (op_k JEQ_K n 0 4)"
    using assms by (simp_all add: taken_def is_jump_def call_named_def seccomp_syscall_number_def opcode)
  have jset: "taken (op_k JSET_K CLONE_NEW_NAMESPACES 0 1) (data_field DATA_ARG0_LOW d) \<longleftrightarrow>
      asks_for_namespace (sd_arg0 d)" "is_jump (op_k JSET_K CLONE_NEW_NAMESPACES 0 1)"
    using namespace_mask [of "sd_arg0 d"]
    by (simp_all add: taken_def is_jump_def data_field_def opcode)
  have allow: "RET_ALLOW < 2 ^ 32" by (simp add: RET_ALLOW_def)
  show ?thesis
    unfolding epilogue_def
    using jeq jset numbers_bound [OF assms(1)] mask_bound or_errno_bound [of EPERM] allow
    by (simp add: exec_jump exec_return exec_load)
qed

lemma exec_prologue:
  assumes "rest \<noteq> []"
  shows "exec machine (prologue arch @ rest) a d =
    (if sd_arch d \<noteq> word_of_nat (AUDIT_ARCH arch) then word_of_nat RET_KILL_PROCESS
     else if arch = X86_64 \<and> word_of_nat X32_SYSCALL_BIT \<le> sd_nr d then word_of_nat RET_KILL_PROCESS
     else exec machine rest (sd_nr d) d)"
proof -
  have jeq: "taken (op_k JEQ_K (AUDIT_ARCH arch) 1 0) (data_field DATA_ARCH d) \<longleftrightarrow>
      sd_arch d = word_of_nat (AUDIT_ARCH arch)" "is_jump (op_k JEQ_K (AUDIT_ARCH arch) 1 0)"
    by (simp_all add: taken_def is_jump_def data_field_def opcode)
  have jge: "taken (op_k JGE_K X32_SYSCALL_BIT 0 1) (data_field DATA_NR d) \<longleftrightarrow>
      word_of_nat X32_SYSCALL_BIT \<le> sd_nr d" "is_jump (op_k JGE_K X32_SYSCALL_BIT 0 1)"
    by (simp_all add: taken_def is_jump_def data_field_def opcode)
  have bounds: "AUDIT_ARCH arch < 2 ^ 32" "X32_SYSCALL_BIT < 2 ^ 32" "RET_KILL_PROCESS < 2 ^ 32"
    by (cases arch; simp add: X32_SYSCALL_BIT_def RET_KILL_PROCESS_def)+
  have nr: "data_field DATA_NR d = sd_nr d" by (simp add: data_field_def)
  show ?thesis
    unfolding prologue_def using jeq jge bounds assms
    by (cases arch) (simp_all add: exec_jump exec_return exec_load nr)
qed

lemma filter_verdict: "exec machine (filter_instructions arch) a d = filter_policy arch d"
proof -
  obtain n where n: "map_of (NUMBERS arch) ''clone'' = Some n" using clone_number by blast
  have "epilogue n \<noteq> []" by (simp add: epilogue_def)
  then show ?thesis
    by (simp add: filter_instructions_def filter_policy_def exec_prologue exec_refuse n exec_epilogue [OF n refl])
qed

end

section \<open>An interpreter of the encoded bytes\<close>

fun le_value :: "8 word list \<Rightarrow> nat" where
  "le_value [] = 0"
| "le_value (b # bs) = unat b + 256 * le_value bs"

lemma le_value_le_bytes: "v < 256 ^ n \<Longrightarrow> le_value (le_bytes n v) = v"
proof (induction n arbitrary: v)
  case (Suc n)
  then have "v div 256 < 256 ^ n" by (simp add: less_mult_imp_div_less mult.commute)
  moreover have "unat (word_of_nat (v mod 256) :: 8 word) = v mod 256"
    by (simp add: unsigned_of_nat take_bit_eq_mod)
  ultimately show ?case using Suc.IH by simp
qed simp

lemma length_le_bytes [simp]: "length (le_bytes n v) = n"
  by (induction n arbitrary: v) simp_all

lemma length_sock_filter [simp]: "length (sock_filter i) = 8"
  by (simp add: sock_filter_def)

definition decode_instruction :: "8 word list \<Rightarrow> instruction" where
  "decode_instruction bs =
     \<lparr>i_code = le_value (take 2 bs), i_jt = le_value (take 1 (drop 2 bs)),
      i_jf = le_value (take 1 (drop 3 bs)), i_k = le_value (take 4 (drop 4 bs))\<rparr>"

lemma decode_sock_filter: "in_range i \<Longrightarrow> decode_instruction (sock_filter i @ bs) = i"
  by (cases i) (simp add: decode_instruction_def sock_filter_def in_range_def le_value_le_bytes
      unsigned_of_nat take_bit_eq_mod)

text \<open>A program that ends without a return is refused by the verifier; here it kills the process.\<close>

function bpf_run :: "8 word list \<Rightarrow> 32 word \<Rightarrow> seccomp_data \<Rightarrow> 32 word" where
  "bpf_run bs a d =
     (if bs = [] then word_of_nat RET_KILL_PROCESS
      else
        (let i = decode_instruction bs; rest = drop 8 bs in
         if i_code i = LD_W_ABS then bpf_run rest (data_field (i_k i) d) d
         else if is_jump i then bpf_run (drop (8 * (if taken i a then i_jt i else i_jf i)) rest) a d
         else word_of_nat (i_k i)))"
  by pat_completeness auto

termination bpf_run
  by (relation "measure (\<lambda>(bs, _). length bs)") auto

declare bpf_run.simps [simp del]

lemma drop_bytes_of: "drop (8 * n) (bytes_of is) = bytes_of (drop n is)"
proof (induction "is" arbitrary: n)
  case (Cons i "is")
  show ?case by (cases n) (simp_all add: Cons.IH)
qed simp

lemma bpf_run_step:
  assumes "in_range i"
  shows "bpf_run (bytes_of (i # is)) a d =
    (if i_code i = LD_W_ABS then bpf_run (bytes_of is) (data_field (i_k i) d) d
     else if is_jump i then bpf_run (bytes_of (drop (if taken i a then i_jt i else i_jf i) is)) a d
     else word_of_nat (i_k i))"
proof -
  have "sock_filter i \<noteq> []" using length_sock_filter [of i] by (metis length_0_conv zero_neq_numeral)
  moreover have "drop 8 (sock_filter i @ bytes_of is) = bytes_of is" by simp
  ultimately show ?thesis
    by (subst bpf_run.simps) (simp add: decode_sock_filter assms Let_def drop_bytes_of del: drop_append)
qed

interpretation interpreter: classic_bpf bpf_run
proof
  fix i "is" a d
  assume "in_range i" "i_code i = LD_W_ABS"
  then show "bpf_run (bytes_of (i # is)) a d = bpf_run (bytes_of is) (data_field (i_k i) d) d"
    by (subst bpf_run_step) simp_all
next
  fix i "is" a d
  assume "in_range i" "is_jump i"
  then show "bpf_run (bytes_of (i # is)) a d =
      bpf_run (bytes_of (drop (if taken i a then i_jt i else i_jf i) is)) a d"
    by (subst bpf_run_step) (auto simp: is_jump_def opcode)
next
  fix i "is" a d
  assume "in_range i" "i_code i = RET_K"
  then show "bpf_run (bytes_of (i # is)) a d = word_of_nat (i_k i)"
    by (subst bpf_run_step) (simp_all add: is_jump_def opcode)
qed

section \<open>Properties\<close>

text \<open>C23: The bytes bubblewrap is handed implement the policy. Under every kernel that gives the five
  classic BPF instructions their documented meaning, and for both architectures, the assembled
  program answers every system call as the lists say: a call under a foreign architecture, or an x32
  call, kills the process; a listed call is refused with EPERM, an unavailable one with ENOSYS; a
  clone that asks for any of the eight namespaces is refused; every other call is allowed.\<close>

theorem filter_implements_policy:
  assumes "classic_bpf machine"
    and "compiler_seccomp_program process_arch (current_seccomp_architecture process_arch) = Inr program"
  shows "\<exists>arch. current_seccomp_architecture process_arch = Some arch \<and>
    machine program a d = filter_policy arch d"
proof -
  obtain arch where arch: "current_seccomp_architecture process_arch = Some arch"
    using assms(2) by (cases "current_seccomp_architecture process_arch") (auto simp: compiler_seccomp_program_def)
  have "program = bytes_of (filter_instructions arch)"
    using assms(2) by (simp add: arch filter_assembles)
  then have "machine program a d = filter_policy arch d"
    using classic_bpf.filter_verdict [OF assms(1), of arch a d] by (simp add: exec_def)
  with arch show ?thesis by blast
qed

text \<open>An \<open>unshare\<close> on \<open>x86_64\<close>, number 272, is refused with EPERM.\<close>

theorem filter_implements_policy_witness:
  "\<exists>program. compiler_seccomp_program ''x64'' (current_seccomp_architecture ''x64'') = Inr program \<and>
     bpf_run program 0 \<lparr>sd_nr = 272, sd_arch = 0xc000003e, sd_arg0 = 0\<rparr> = 0x50001"
proof -
  let ?d = "\<lparr>sd_nr = 272, sd_arch = 0xc000003e, sd_arg0 = 0\<rparr> :: seccomp_data"
  have x64: "current_seccomp_architecture ''x64'' = Some X86_64"
    by (simp add: current_seccomp_architecture_def)
  then have "compiler_seccomp_program ''x64'' (current_seccomp_architecture ''x64'') =
      Inr (bytes_of (filter_instructions X86_64))"
    by (simp add: filter_assembles)
  from filter_implements_policy [OF interpreter.classic_bpf_axioms this, of 0 ?d] this x64
  have "bpf_run (bytes_of (filter_instructions X86_64)) 0 ?d = filter_policy X86_64 ?d" by auto
  moreover have "call_named X86_64 272 ''unshare''"
    by (simp add: call_named_def seccomp_syscall_number_def X86_64_NUMBERS_def)
  then have "list_ex (call_named X86_64 (sd_nr ?d)) DENIED" by (simp add: DENIED_def)
  then have "filter_policy X86_64 ?d = word_of_nat (or_errno EPERM)"
    by (simp add: filter_policy_def X32_SYSCALL_BIT_def)
  moreover have "(word_of_nat (or_errno EPERM) :: 32 word) = 0x50001"
    by (simp add: or_errno_def EPERM_def RET_ERRNO_def)
  ultimately show ?thesis using filter_assembles x64 by force
qed

end
