(* ===== verification/Projection_Properties.thy ===== *)
theory Projection_Properties
  imports Projection_Engine
begin

text \<open>
  What a projection promises: every admitted member is placed exactly once, the narrowed evaluations
  give the result of the whole corpus, and the order of the corpus does not matter.
\<close>

section \<open>Inverting an evaluation\<close>

lemma refuse_unless_Inr [simp]: "refuse_unless ok why = Inr u \<longleftrightarrow> ok"
  by (simp add: refuse_unless_def)

lemma check_members_Inr: "check_members corpus ms = Inr u \<longleftrightarrow> (\<forall>m\<in>set ms. check_member corpus m = Inr ())"
  by (induction ms) (auto simp: bindE_eq_Inr)

lemma check_member_cong: "pc_organization c = pc_organization c' \<Longrightarrow> check_member c m = check_member c' m"
  by (simp add: check_member_def)

lemma member_budget_Inr:
  "assert_member_budget d n = Inr u \<longleftrightarrow> assert_bounded d = Inr () \<and> int n \<le> budget_value (pd_max_members d)"
  by (simp add: assert_member_budget_def bindE_eq_Inr)

lemma bounded_members: "assert_bounded d = Inr u \<Longrightarrow> budget_value (pd_max_members d) \<le> MAX_MEMBERS"
  by (auto simp: assert_bounded_def bindE_eq_Inr budget_within_def budget_value_def split: option.splits)

lemma evaluate_Inr:
  "evaluate H locale_le now d supplied corpus graph scope = Inr r \<longleftrightarrow>
   (\<exists>parameters found.
      assert_bounded d = Inr () \<and> bind_parameters d supplied = Inr parameters \<and>
      (\<forall>m\<in>set (pc_members corpus). check_member corpus m = Inr ()) \<and>
      int (length (pc_members corpus)) \<le> budget_value (pd_max_members d) \<and>
      (pd_anchor d = Anchor_object \<longrightarrow> anchor_of d parameters corpus \<in> pm_id ` set (pc_members corpus)) \<and>
      walk_projection locale_le (past_deadline now d) d (anchor_of d parameters corpus) corpus graph (scope \<noteq> None) = Inr found \<and>
      finish_projection H (past_deadline now d) d parameters corpus (anchor_of d parameters corpus)
        (case scope of None \<Rightarrow> int (length (pc_members corpus)) | Some n \<Rightarrow> n) found = Inr r)"
  by (auto simp: evaluate_def bindE_eq_Inr Let_def check_members_Inr member_budget_Inr)

section \<open>Placing\<close>

lemma place_members_ok:
  "place_members late home ms buckets n = Inr (buckets', n') \<Longrightarrow>
   n' = n + length ms \<and> buckets' = (\<lambda>i. buckets i @ filter (\<lambda>m. home m = i) ms)"
proof (induction ms arbitrary: buckets n)
  case (Cons m ms)
  then have "place_members late home ms (buckets(home m := buckets (home m) @ [m])) (Suc n) = Inr (buckets', n')"
    by (simp split: if_splits)
  from Cons.IH [OF this] show ?case by (auto simp: fun_eq_iff)
qed (simp add: fun_eq_iff)

lemma place_members_run:
  "(\<And>k. n \<le> k \<Longrightarrow> k < n + length ms \<Longrightarrow> \<not> late k) \<Longrightarrow>
   place_members late home ms buckets n = Inr (\<lambda>i. buckets i @ filter (\<lambda>m. home m = i) ms, n + length ms)"
proof (induction ms arbitrary: buckets n)
  case (Cons m ms)
  have "\<not> late n" using Cons.prems [of n] by simp
  moreover have "place_members late home ms (buckets(home m := buckets (home m) @ [m])) (Suc n) =
      Inr (\<lambda>i. (buckets(home m := buckets (home m) @ [m])) i @ filter (\<lambda>m. home m = i) ms, Suc n + length ms)"
    by (rule Cons.IH) (simp add: Cons.prems)
  ultimately show ?case by (simp add: fun_eq_iff)
qed simp

lemma place_members_in_time:
  "place_members late home ms buckets n = Inr r \<Longrightarrow> n \<le> k \<Longrightarrow> k < n + length ms \<Longrightarrow> \<not> late k"
proof (induction ms arbitrary: buckets n)
  case (Cons m ms)
  then show ?case by (cases "k = n") (auto split: if_splits)
qed simp

text \<open>The sections of a result over a list of candidates.\<close>

abbreviation sections_of :: "projection_definition \<Rightarrow> (projection_member \<Rightarrow> jstr) \<Rightarrow> projection_member list \<Rightarrow> result_section list" where
  "sections_of d home ms \<equiv> result_sections d (\<lambda>i. filter (\<lambda>m. home m = i) ms)"

lemma finish_Inr:
  "finish_projection H late d parameters corpus anchor corpus_count found = Inr r \<longleftrightarrow>
   (let candidates = filter (\<lambda>m. admits (pd_filter d) m (rf_ids found)) (pc_members corpus);
        sections = sections_of d (home_of d anchor (rf_ids found)) candidates;
        placed = concat (map sr_members sections) in
    (\<forall>k. rf_ticks found \<le> k \<and> k \<le> rf_ticks found + length candidates \<longrightarrow> \<not> late k) \<and>
    length placed = length candidates \<and>
    (\<forall>m\<in>set placed. pm_id m \<in> pm_id ` set (pc_members corpus)) \<and>
    seal_result H (build_result d parameters corpus found corpus_count (length candidates) sections) = Inr r)"
  (is "?lhs \<longleftrightarrow> ?rhs")
proof -
  define candidates where "candidates = filter (\<lambda>m. admits (pd_filter d) m (rf_ids found)) (pc_members corpus)"
  define sections where "sections = sections_of d (home_of d anchor (rf_ids found)) candidates"
  define place where "place = place_members late (home_of d anchor (rf_ids found)) candidates (\<lambda>_. []) (rf_ticks found)"
  let ?rest = "\<lambda>n. length (concat (map sr_members sections)) = length candidates \<and>
    (\<forall>m\<in>set (concat (map sr_members sections)). pm_id m \<in> pm_id ` set (pc_members corpus)) \<and> \<not> late n \<and>
    seal_result H (build_result d parameters corpus found corpus_count (length candidates) sections) = Inr r"
  have "?lhs \<longleftrightarrow> (\<exists>buckets n. place = Inr (buckets, n) \<and> (?rest n))"
    unfolding finish_projection_def candidates_def [symmetric] place_def [symmetric] Let_def bindE_eq_Inr
    using place_members_ok [of late "home_of d anchor (rf_ids found)" candidates "\<lambda>_. []" "rf_ticks found"]
    by (auto simp: sections_def place_def list_all_iff bindE_eq_Inr)
  also have "\<dots> \<longleftrightarrow> (\<forall>k. rf_ticks found \<le> k \<and> k \<le> rf_ticks found + length candidates \<longrightarrow> \<not> late k) \<and>
      ?rest (rf_ticks found + length candidates)"
  proof
    assume "\<exists>buckets n. place = Inr (buckets, n) \<and> (?rest n)"
    then obtain buckets n where run: "place = Inr (buckets, n)" and rest: "?rest n" by blast
    then have n: "n = rf_ticks found + length candidates" using place_members_ok by (fastforce simp: place_def)
    have "\<not> late k" if "rf_ticks found \<le> k" "k \<le> rf_ticks found + length candidates" for k
      using that rest n place_members_in_time [OF run [unfolded place_def], of k]
      by (cases "k = rf_ticks found + length candidates") auto
    with rest n show "(\<forall>k. rf_ticks found \<le> k \<and> k \<le> rf_ticks found + length candidates \<longrightarrow> \<not> late k) \<and>
        ?rest (rf_ticks found + length candidates)" by blast
  next
    assume now: "(\<forall>k. rf_ticks found \<le> k \<and> k \<le> rf_ticks found + length candidates \<longrightarrow> \<not> late k) \<and>
      ?rest (rf_ticks found + length candidates)"
    then show "\<exists>buckets n. place = Inr (buckets, n) \<and> (?rest n)"
      using place_members_run [of "rf_ticks found" candidates late "home_of d anchor (rf_ids found)" "\<lambda>_. []"]
      by (auto simp: place_def)
  qed
  finally show ?thesis
    unfolding Let_def candidates_def [symmetric] sections_def [symmetric] by auto
qed

section \<open>Coverage\<close>

lemma count_filters:
  "count (\<Sum>i\<leftarrow>is. filter_mset (\<lambda>m. home m = i) M) m = count M m * count (mset is) (home m)"
  by (induction "is") auto

lemma covered_once:
  assumes "\<And>m. m \<in># M \<Longrightarrow> home m \<in> set is" and "size (\<Sum>i\<leftarrow>is. filter_mset (\<lambda>m. home m = i) M) = size M"
  shows "(\<Sum>i\<leftarrow>is. filter_mset (\<lambda>m. home m = i) M) = M"
proof -
  let ?S = "\<Sum>i\<leftarrow>is. filter_mset (\<lambda>m. home m = i) M"
  have "count M m \<le> count ?S m" for m
  proof (cases "m \<in># M")
    case True
    then have "1 \<le> count (mset is) (home m)" using assms(1) [OF True] by (simp add: Suc_le_eq)
    then show ?thesis unfolding count_filters by simp
  qed (simp add: not_in_iff)
  then have "M \<subseteq># ?S" by (rule mset_subset_eqI)
  with assms(2) show ?thesis by (metis mset_subset_size nless_le subset_mset.le_less)
qed

lemma home_listed: "home_of d anchor reached m \<in> set (map ps_id (pd_sections d) @ [pd_remainder_id d])"
  by (auto simp: home_of_def find_Some_iff split: option.splits)

lemma mset_sections:
  "mset (concat (map sr_members (sections_of d home ms))) =
   (\<Sum>i\<leftarrow>map ps_id (pd_sections d) @ [pd_remainder_id d]. filter_mset (\<lambda>m. home m = i) (mset ms))"
  by (simp add: result_sections_def mset_concat o_def split_def)

lemma seal_result_Inr: "seal_result H body = Inr r \<Longrightarrow> \<exists>digest. projection_result_digest H body = Inr digest \<and> r = body\<lparr>pr_digest := digest\<rparr>"
proof -
  assume "seal_result H body = Inr r"
  then obtain digest where "projection_result_digest H body = Inr digest"
    and "(case canonicalize (result_value (body\<lparr>pr_digest := digest\<rparr>)) of
        Inl e \<Rightarrow> Inl (Not_canonicalizable e) | Inr _ \<Rightarrow> Inr (body\<lparr>pr_digest := digest\<rparr>)) = Inr r"
    by (auto simp: seal_result_def bindE_eq_Inr Let_def)
  then show ?thesis by (cases "canonicalize (result_value (body\<lparr>pr_digest := digest\<rparr>))") auto
qed

lemma sections_members:
  "s \<in> set (sections_of d home ms) \<Longrightarrow> sorted (map (member_key (pd_sort d)) (sr_members s)) \<and> (\<forall>m\<in>set (sr_members s). home m = sr_id s)"
  by (auto simp: result_sections_def)

text \<open>C16: A projection drops nothing and repeats nothing. The members of the sections of a result, taken
  together, are exactly the members of the corpus that the declared filter admits, each as often as the
  corpus has it, even where the definition repeats a section id; each member stands in the first section
  that selects it, or in the remainder; every section is sorted; and the members placed and the members
  the filter excluded add up to the corpus.\<close>

theorem projection_covers:
  assumes "project H locale_le now d supplied corpus graph = Inr r"
  shows "\<exists>found. walk_projection locale_le (past_deadline now d) d (anchor_of d (pr_parameters r) corpus) corpus graph False = Inr found \<and>
    mset (concat (map sr_members (pr_sections r))) =
      mset (filter (\<lambda>m. admits (pd_filter d) m (rf_ids found)) (pc_members corpus)) \<and>
    (\<forall>s\<in>set (pr_sections r). sorted (map (member_key (pd_sort d)) (sr_members s)) \<and>
       (\<forall>m\<in>set (sr_members s). home_of d (anchor_of d (pr_parameters r) corpus) (rf_ids found) m = sr_id s)) \<and>
    ms_members (pr_measures r) + ms_excluded (pr_measures r) = int (length (pc_members corpus))"
proof -
  obtain parameters found where walk: "walk_projection locale_le (past_deadline now d) d (anchor_of d parameters corpus) corpus graph False = Inr found"
      and fin: "finish_projection H (past_deadline now d) d parameters corpus (anchor_of d parameters corpus)
        (int (length (pc_members corpus))) found = Inr r"
    using assms by (auto simp: project_def evaluate_Inr)
  let ?home = "home_of d (anchor_of d parameters corpus) (rf_ids found)"
  define C where "C = filter (\<lambda>m. admits (pd_filter d) m (rf_ids found)) (pc_members corpus)"
  have len: "length (concat (map sr_members (sections_of d ?home C))) = length C"
      and seal: "seal_result H (build_result d parameters corpus found (int (length (pc_members corpus))) (length C) (sections_of d ?home C)) = Inr r"
    using fin unfolding finish_Inr Let_def C_def [symmetric] by blast+
  have parts: "pr_sections r = sections_of d ?home C" "pr_parameters r = parameters"
      "ms_members (pr_measures r) = int (length C)" "ms_excluded (pr_measures r) = int (length (pc_members corpus)) - int (length C)"
    using seal_result_Inr [OF seal] by (auto simp: build_result_def)
  have "mset (concat (map sr_members (sections_of d ?home C))) = mset C"
    unfolding mset_sections
  proof (rule covered_once)
    show "?home m \<in> set (map ps_id (pd_sections d) @ [pd_remainder_id d])" for m by (rule home_listed)
    show "size (\<Sum>i\<leftarrow>map ps_id (pd_sections d) @ [pd_remainder_id d]. filter_mset (\<lambda>m. ?home m = i) (mset C)) = size (mset C)"
      using len by (metis mset_sections size_mset)
  qed
  then have placed: "mset (concat (map sr_members (pr_sections r))) = mset C" by (simp only: parts(1))
  show ?thesis
  proof (intro exI [of _ found] conjI)
    show "walk_projection locale_le (past_deadline now d) d (anchor_of d (pr_parameters r) corpus) corpus graph False = Inr found"
      by (simp only: parts(2) walk)
    show "mset (concat (map sr_members (pr_sections r))) =
        mset (filter (\<lambda>m. admits (pd_filter d) m (rf_ids found)) (pc_members corpus))"
      using placed by (simp only: C_def)
    show "\<forall>s\<in>set (pr_sections r). sorted (map (member_key (pd_sort d)) (sr_members s)) \<and>
        (\<forall>m\<in>set (sr_members s). home_of d (anchor_of d (pr_parameters r) corpus) (rf_ids found) m = sr_id s)"
      unfolding parts(1,2) using sections_members by blast
    show "ms_members (pr_measures r) + ms_excluded (pr_measures r) = int (length (pc_members corpus))"
      by (simp only: parts(3,4))
  qed
qed

section \<open>The narrowed evaluations\<close>

lemma finish_narrow:
  assumes "filter (\<lambda>m. admits (pd_filter d) m (rf_ids found)) ms = filter (\<lambda>m. admits (pd_filter d) m (rf_ids found)) (pc_members corpus)"
    and "\<forall>i\<in>set (rf_ids found). i \<in> pm_id ` set ms \<longleftrightarrow> i \<in> pm_id ` set (pc_members corpus)"
    and "finish_projection H late d parameters corpus anchor n found = Inr r"
  shows "finish_projection H late d parameters (corpus\<lparr>pc_members := ms\<rparr>) anchor n found = Inr r"
proof -
  define C where "C = filter (\<lambda>m. admits (pd_filter d) m (rf_ids found)) (pc_members corpus)"
  let ?home = "home_of d anchor (rf_ids found)"
  have C: "filter (\<lambda>m. admits (pd_filter d) m (rf_ids found)) (pc_members (corpus\<lparr>pc_members := ms\<rparr>)) = C"
    using assms(1) by (simp add: C_def)
  have same: "build_result d parameters (corpus\<lparr>pc_members := ms\<rparr>) found n k secs = build_result d parameters corpus found n k secs" for k secs
  proof -
    have "filter (\<lambda>i. i \<in> pm_id ` set ms) (rf_ids found) = filter (\<lambda>i. i \<in> pm_id ` set (pc_members corpus)) (rf_ids found)"
      using assms(2) by (intro filter_cong) auto
    then show ?thesis by (simp add: build_result_def)
  qed
  have "set C \<subseteq> set ms" using assms(1) by (metis C_def filter_is_subset)
  moreover have "set (concat (map sr_members (sections_of d ?home C))) \<subseteq> set C"
    by (auto simp: result_sections_def)
  ultimately have "\<forall>m\<in>set (concat (map sr_members (sections_of d ?home C))). pm_id m \<in> pm_id ` set (pc_members (corpus\<lparr>pc_members := ms\<rparr>))"
    by auto
  with assms(3) show ?thesis
    unfolding finish_Inr Let_def C C_def [symmetric] same by blast
qed

lemma filter_filter_implied: "(\<And>x. x \<in> set xs \<Longrightarrow> P x \<Longrightarrow> Q x) \<Longrightarrow> filter P (filter Q xs) = filter P xs"
  by (induction xs) auto

lemma integer_value_integer: "integer_value (integer_number i) = Some i"
proof (cases "i = 0")
  case False
  obtain z where z: "nat \<bar>i\<bar> = strip_zeros (nat \<bar>i\<bar>) * 10 ^ z"
      "length (dec (nat \<bar>i\<bar>)) = length (dec (strip_zeros (nat \<bar>i\<bar>))) + z"
    using strip_zeros_scale by blast
  let ?s = "strip_zeros (nat \<bar>i\<bar>)"
  have "int ?s * 10 ^ z = \<bar>i\<bar>" using arg_cong [OF z(1), of int] by simp
  with False show ?thesis by (auto simp: integer_number_def z(2) mult.assoc)
qed (simp add: integer_number_def)

lemma safe_integer_length: "n \<le> 100000 \<Longrightarrow> safe_integer (integer_number (int n)) = Some (int n)"
  by (simp add: safe_integer_def integer_value_integer)

text \<open>An anchor walk whose result is restricted to the clock's answer: the ids do not depend on it.\<close>

lemma expand_frontier_late:
  "expand_frontier late near xs st n = Inr r \<Longrightarrow> expand_frontier (\<lambda>_. False) near xs st n = Inr r"
  by (induction xs arbitrary: st n) (auto split: if_splits)

lemma hood_levels_late:
  "hood_levels late near k frontier st n = Inr r \<Longrightarrow> hood_levels (\<lambda>_. False) near k frontier st n = Inr r"
proof (induction k arbitrary: frontier st n)
  case (Suc k)
  show ?case
  proof (cases "frontier = []")
    case False
    with Suc.prems obtain st1 n1 where "expand_frontier late near frontier (st\<lparr>hd_next := []\<rparr>) n = Inr (st1, n1)"
        "hood_levels late near k (hd_next st1) st1 n1 = Inr r"
      by (auto simp: bindE_eq_Inr)
    from expand_frontier_late [OF this(1)] Suc.IH [OF this(2)] False show ?thesis by simp
  qed (use Suc.prems in simp)
qed simp

lemma walk_from_object_Inr:
  "walk_from_object late t anchor edges = Inr r \<longleftrightarrow>
   neighbourhood late 0 anchor edges (nat (depth_value t)) (case tv_relations t of Relations types \<Rightarrow> Some types | _ \<Rightarrow> None) = Inr r"
  by (simp add: walk_from_object_def walk_result_def split: sum.split walk_error.split)

lemma neighbourhood_late:
  assumes "neighbourhood late n anchor edges k allowed = Inr r"
  shows "neighbourhood (\<lambda>_. False) n anchor edges k allowed = Inr r"
proof -
  from assms obtain st n' where run: "hood_levels late (touching edges allowed) k [anchor]
      \<lparr>hd_ids = [anchor], hd_crossed = [], hd_next = []\<rparr> n = Inr (st, n')"
    and r: "r = ((hd_ids st, map snd (hd_crossed st)), n')"
    by (auto simp: neighbourhood_def bindE_eq_Inr)
  show ?thesis by (simp add: neighbourhood_def hood_levels_late [OF run] r)
qed

lemma project_small:
  assumes "project H locale_le now d supplied corpus graph = Inr r"
  shows "length (pc_members corpus) \<le> 100000"
proof -
  from assms have "assert_bounded d = Inr ()" "int (length (pc_members corpus)) \<le> budget_value (pd_max_members d)"
    unfolding project_def evaluate_Inr by blast+
  with bounded_members [of d "()"] show ?thesis by (simp add: MAX_MEMBERS_def)
qed

lemma anchor_of_members [simp]: "anchor_of d parameters (corpus\<lparr>pc_members := ms\<rparr>) = anchor_of d parameters corpus"
  by (simp add: anchor_of_def)

text \<open>C17: A reading of an object may be evaluated over its neighbourhood alone. For a definition that is
  a neighbourhood reading, whenever the evaluation over the whole corpus gives a result, loading only
  the members in the neighbourhood's scope, stating the size of the corpus and evaluating that under
  the same clock gives the same result, measurements and digest included.\<close>

theorem neighbourhood_reading_equivalent:
  assumes whole: "project H locale_le now d supplied corpus graph = Inr r"
    and reading: "is_neighbourhood_reading d"
    and scope: "neighbourhood_scope d supplied graph = Inr ids"
  shows "project_neighbourhood H locale_le now d supplied
    (corpus\<lparr>pc_members := filter (\<lambda>m. pm_id m \<in> set ids) (pc_members corpus)\<rparr>) graph
    (integer_number (int (length (pc_members corpus)))) = Inr r"
proof -
  let ?ms = "filter (\<lambda>m. pm_id m \<in> set ids) (pc_members corpus)" and ?late = "past_deadline now d"
  obtain t f where t: "pd_traverse d = Some t" "pd_anchor d = Anchor_object" "pd_filter d = Some f" "pf_reach f = Some Reached"
    using reading by (auto simp: is_neighbourhood_reading_def split: option.splits)
  from whole obtain parameters found where ev: "assert_bounded d = Inr ()" "bind_parameters d supplied = Inr parameters"
      "\<forall>m\<in>set (pc_members corpus). check_member corpus m = Inr ()"
      "int (length (pc_members corpus)) \<le> budget_value (pd_max_members d)"
      "anchor_of d parameters corpus \<in> pm_id ` set (pc_members corpus)"
      "walk_projection locale_le ?late d (anchor_of d parameters corpus) corpus graph False = Inr found"
      "finish_projection H ?late d parameters corpus (anchor_of d parameters corpus) (int (length (pc_members corpus))) found = Inr r"
    using t(2) by (auto simp: project_def evaluate_Inr)
  let ?anchor = "anchor_of d parameters corpus"
  from ev(6) t obtain edges n where walk: "walk_from_object ?late t ?anchor (pg_edges graph) = Inr ((rf_ids found, edges), n)"
      and found: "found = \<lparr>rf_ids = rf_ids found, rf_edges = Some edges, rf_by_anchor = [], rf_by_class = [], rf_ticks = n\<rparr>"
    by (auto simp: walk_projection_def bindE_eq_Inr)
  have ids: "ids = rf_ids found"
    using scope neighbourhood_late [OF walk [unfolded walk_from_object_Inr], folded walk_from_object_Inr] t ev(2)
    by (auto simp: neighbourhood_scope_def bindE_eq_Inr anchor_of_def)
  have "walk_projection locale_le ?late d ?anchor (corpus\<lparr>pc_members := ?ms\<rparr>) graph True = Inr found"
    by (subst found) (simp add: walk_projection_def t walk refuse_unless_def ids list_all_iff)
  moreover have "finish_projection H ?late d parameters (corpus\<lparr>pc_members := ?ms\<rparr>) ?anchor (int (length (pc_members corpus))) found = Inr r"
  proof (rule finish_narrow [OF _ _ ev(7)])
    show "filter (\<lambda>m. admits (pd_filter d) m (rf_ids found)) ?ms = filter (\<lambda>m. admits (pd_filter d) m (rf_ids found)) (pc_members corpus)"
      by (rule filter_filter_implied) (simp add: admits_def t ids)
    show "\<forall>i\<in>set (rf_ids found). i \<in> pm_id ` set ?ms \<longleftrightarrow> i \<in> pm_id ` set (pc_members corpus)"
      by (auto simp: ids)
  qed
  moreover have "?anchor \<in> set (rf_ids found)"
    using neighbourhood_within [OF walk [unfolded walk_from_object_Inr]] by blast
  moreover have "int (length ?ms) \<le> budget_value (pd_max_members d)"
    using ev(4) length_filter_le [of "\<lambda>m. pm_id m \<in> set ids" "pc_members corpus"] by linarith
  moreover have "?anchor \<in> pm_id ` set ?ms" using ev(5) calculation by (auto simp: ids)
  moreover have "\<forall>m\<in>set ?ms. check_member (corpus\<lparr>pc_members := ?ms\<rparr>) m = Inr ()"
    using ev(3) check_member_cong [of "corpus\<lparr>pc_members := ?ms\<rparr>" corpus] by simp
  ultimately have "evaluate H locale_le now d supplied (corpus\<lparr>pc_members := ?ms\<rparr>) graph
      (Some (int (length (pc_members corpus)))) = Inr r"
    unfolding evaluate_Inr using ev(1,2) by (intro exI [of _ parameters] exI [of _ found]) simp
  moreover have "stated_count (integer_number (int (length (pc_members corpus)))) (length ?ms) = Inr (int (length (pc_members corpus)))"
    using project_small [OF whole] length_filter_le [of "\<lambda>m. pm_id m \<in> set ids" "pc_members corpus"]
    by (simp add: stated_count_def safe_integer_length not_less)
  ultimately show ?thesis using reading by (simp add: project_neighbourhood_def refuse_unless_def)
qed

text \<open>C32: A reading that declares its object types may be evaluated over the members of those types
  alone: whenever the whole corpus gives a result, so do the members of the declared types with the
  stated size of the corpus, and it is the same result.\<close>

theorem type_scoped_reading_equivalent:
  assumes whole: "project H locale_le now d supplied corpus graph = Inr r"
    and scope: "type_scope d = Inr types"
  shows "project_type_scoped H locale_le now d supplied
    (corpus\<lparr>pc_members := filter (\<lambda>m. pm_type m \<in> set types) (pc_members corpus)\<rparr>) graph
    (integer_number (int (length (pc_members corpus)))) = Inr r"
proof -
  let ?ms = "filter (\<lambda>m. pm_type m \<in> set types) (pc_members corpus)" and ?late = "past_deadline now d"
  obtain f where t: "pd_traverse d = None" "pd_anchor d = Anchor_person" "pd_filter d = Some f" "pf_types f = Some types" "pf_reach f = None"
    using scope by (auto simp: type_scope_def is_type_scoped_reading_def split: if_splits option.splits)
  from whole obtain parameters found where ev: "assert_bounded d = Inr ()" "bind_parameters d supplied = Inr parameters"
      "\<forall>m\<in>set (pc_members corpus). check_member corpus m = Inr ()"
      "int (length (pc_members corpus)) \<le> budget_value (pd_max_members d)"
      "walk_projection locale_le ?late d (anchor_of d parameters corpus) corpus graph False = Inr found"
      "finish_projection H ?late d parameters corpus (anchor_of d parameters corpus) (int (length (pc_members corpus))) found = Inr r"
    by (auto simp: project_def evaluate_Inr)
  have found: "rf_ids found = []" "walk_projection locale_le ?late d anchor (corpus\<lparr>pc_members := ?ms\<rparr>) graph True = Inr found" for anchor
    using ev(5) by (auto simp: walk_projection_def t)
  have "finish_projection H ?late d parameters (corpus\<lparr>pc_members := ?ms\<rparr>) (anchor_of d parameters corpus)
      (int (length (pc_members corpus))) found = Inr r"
  proof (rule finish_narrow [OF _ _ ev(6)])
    show "filter (\<lambda>m. admits (pd_filter d) m (rf_ids found)) ?ms = filter (\<lambda>m. admits (pd_filter d) m (rf_ids found)) (pc_members corpus)"
      by (rule filter_filter_implied) (simp add: admits_def t listed_def)
  qed (simp add: found(1))
  moreover have "int (length ?ms) \<le> budget_value (pd_max_members d)"
    using ev(4) length_filter_le [of "\<lambda>m. pm_type m \<in> set types" "pc_members corpus"] by linarith
  moreover have "\<forall>m\<in>set ?ms. check_member (corpus\<lparr>pc_members := ?ms\<rparr>) m = Inr ()"
    using ev(3) check_member_cong [of "corpus\<lparr>pc_members := ?ms\<rparr>" corpus] by simp
  ultimately have "evaluate H locale_le now d supplied (corpus\<lparr>pc_members := ?ms\<rparr>) graph
      (Some (int (length (pc_members corpus)))) = Inr r"
    unfolding evaluate_Inr using ev(1,2) found(2) t(2) by (intro exI [of _ parameters] exI [of _ found]) simp
  moreover have "stated_count (integer_number (int (length (pc_members corpus)))) (length ?ms) = Inr (int (length (pc_members corpus)))"
    using project_small [OF whole] length_filter_le [of "\<lambda>m. pm_type m \<in> set types" "pc_members corpus"]
    by (simp add: stated_count_def safe_integer_length not_less)
  ultimately show ?thesis using scope by (simp add: project_type_scoped_def refuse_unless_def list_all_iff)
qed

section \<open>The order of the corpus\<close>

lemma member_key_suffix: "\<exists>prefix. member_key names m = prefix @ pm_id m"
proof -
  have "\<exists>prefix. join_with s (xs @ [y]) = prefix @ y" for s :: jstr and xs y
    by (cases xs) (auto simp: join_with_Cons intro: exI [of _ "[]"])
  then show ?thesis by (simp add: member_key_def)
qed

lemma member_keys_inject:
  assumes "distinct (map pm_id ms)" and "\<forall>m\<in>set ms. length (pm_id m) = k"
  shows "inj_on (member_key names) (set ms)"
proof (rule inj_onI)
  fix m m' assume m: "m \<in> set ms" "m' \<in> set ms" "member_key names m = member_key names m'"
  obtain p p' where "member_key names m = p @ pm_id m" "member_key names m' = p' @ pm_id m'"
    using member_key_suffix by metis
  with m assms(2) have "pm_id m = pm_id m'" by (metis append_eq_append_conv)
  with m assms(1) show "m = m'" by (metis distinct_map inj_onD)
qed

lemma sections_permute:
  assumes "mset ms = mset ms'" and "inj_on (member_key (pd_sort d)) (set ms)"
  shows "sections_of d home ms = sections_of d home ms'"
proof -
  have "sort_key (member_key (pd_sort d)) (filter (\<lambda>m. home m = i) ms) =
      sort_key (member_key (pd_sort d)) (filter (\<lambda>m. home m = i) ms')" for i
  proof (rule sort_key_inj_key_eq)
    show "mset (filter (\<lambda>m. home m = i) ms) = mset (sort_key (member_key (pd_sort d)) (filter (\<lambda>m. home m = i) ms'))"
      using assms(1) by simp
    show "inj_on (member_key (pd_sort d)) (set (filter (\<lambda>m. home m = i) ms))"
      using assms(2) by (rule inj_on_subset) auto
  qed simp
  then show ?thesis by (simp add: result_sections_def)
qed

lemma walk_unscoped_cong:
  "pc_person c = pc_person c' \<Longrightarrow>
   walk_projection locale_le late d anchor c graph False = walk_projection locale_le late d anchor c' graph False"
  by (cases "pd_traverse d") (simp_all add: walk_projection_def)

text \<open>C33: Two readings of one corpus are alike in whatever order its members are listed. When member ids
  are distinct and of one length, as identifiers are, permuting the corpus changes nothing in the
  result: not the sections, not their order, not the digest.\<close>

theorem corpus_order_irrelevant:
  assumes whole: "project H locale_le now d supplied corpus graph = Inr r"
    and perm: "mset ms = mset (pc_members corpus)"
    and ids: "distinct (map pm_id (pc_members corpus))" "\<forall>m\<in>set (pc_members corpus). length (pm_id m) = k"
  shows "project H locale_le now d supplied (corpus\<lparr>pc_members := ms\<rparr>) graph = Inr r"
proof -
  let ?late = "past_deadline now d" and ?corpus' = "corpus\<lparr>pc_members := ms\<rparr>"
  from whole obtain parameters found where ev: "assert_bounded d = Inr ()" "bind_parameters d supplied = Inr parameters"
      "\<forall>m\<in>set (pc_members corpus). check_member corpus m = Inr ()"
      "int (length (pc_members corpus)) \<le> budget_value (pd_max_members d)"
      "pd_anchor d = Anchor_object \<longrightarrow> anchor_of d parameters corpus \<in> pm_id ` set (pc_members corpus)"
      "walk_projection locale_le ?late d (anchor_of d parameters corpus) corpus graph False = Inr found"
      "finish_projection H ?late d parameters corpus (anchor_of d parameters corpus) (int (length (pc_members corpus))) found = Inr r"
    by (auto simp: project_def evaluate_Inr)
  have same: "set ms = set (pc_members corpus)" "length ms = length (pc_members corpus)"
    using perm by (metis set_mset_mset, metis size_mset)
  define C where "C = filter (\<lambda>m. admits (pd_filter d) m (rf_ids found)) (pc_members corpus)"
  define C' where "C' = filter (\<lambda>m. admits (pd_filter d) m (rf_ids found)) ms"
  let ?home = "home_of d (anchor_of d parameters corpus) (rf_ids found)"
  have C: "mset C' = mset C" by (simp add: C_def C'_def perm)
  have "inj_on (member_key (pd_sort d)) (set C')"
    by (rule inj_on_subset [OF member_keys_inject [OF ids]]) (auto simp: C'_def same)
  from sections_permute [OF C this] have sections: "sections_of d ?home C' = sections_of d ?home C" .
  have len: "length C' = length C" using C by (metis size_mset)
  have build: "build_result d parameters ?corpus' found n k' secs = build_result d parameters corpus found n k' secs" for n k' secs
    by (simp add: build_result_def same)
  have "finish_projection H ?late d parameters ?corpus' (anchor_of d parameters corpus) (int (length (pc_members corpus))) found = Inr r"
    using ev(7) unfolding finish_Inr Let_def C_def [symmetric]
    by (simp add: C'_def [symmetric] sections len build same)
  moreover have "walk_projection locale_le ?late d (anchor_of d parameters corpus) ?corpus' graph False = Inr found"
    using ev(6) walk_unscoped_cong [of ?corpus' corpus] by simp
  moreover have "\<forall>m\<in>set ms. check_member ?corpus' m = Inr ()"
    using ev(3) check_member_cong [of ?corpus' corpus] by (simp add: same)
  ultimately show ?thesis
    unfolding project_def evaluate_Inr using ev by (intro exI [of _ parameters] exI [of _ found]) (simp add: same)
qed

end
