(* ===== verification/Canonical_Total.thy ===== *)
theory Canonical_Total
  imports Audit_Links
begin

text \<open>
  Which values canonicalization accepts: a sufficient condition that is checked by looking at the
  parts of a value, used wherever a component must show that what it writes has a canonical form.
\<close>

fun canonicalizable :: "jval \<Rightarrow> bool" where
  "canonicalizable JNull = True"
| "canonicalizable (JBool b) = True"
| "canonicalizable (JNum n) = is_finite n"
| "canonicalizable (JStr s) = (surrogate_failure s = None)"
| "canonicalizable (JArr items) = list_all (\<lambda>x. case x of None \<Rightarrow> True | Some v \<Rightarrow> canonicalizable v) items"
| "canonicalizable (JObj ps) =
     list_all (\<lambda>(k, v). k \<noteq> units ''toJSON'' \<and> surrogate_failure k = None \<and> (v = JUndefined \<or> canonicalizable v)) ps"
| "canonicalizable (JInst v) = canonicalizable v"
| "canonicalizable _ = False"

lemma canonicalizable_serialize_all:
  "canonicalizable v \<Longrightarrow> \<exists>s. serialize v path = Inr s"
  "list_all (\<lambda>x. case x of None \<Rightarrow> True | Some v \<Rightarrow> canonicalizable v) items \<Longrightarrow> \<exists>s. serialize_items items i path = Inr s"
  "list_all (\<lambda>(k, v). k \<noteq> units ''toJSON'' \<and> surrogate_failure k = None \<and> (v = JUndefined \<or> canonicalizable v)) ps \<Longrightarrow>
     \<exists>s. serialize_members ps path = Inr s"
proof (induction v path and items i path and ps path rule: serialize_serialize_items_serialize_members.induct)
  case (4 s path)
  then show ?case by (simp add: assert_unicode_def)
next
  case (9 items path)
  then show ?case by auto
next
  case (11 ps path)
  have "units ''toJSON'' \<notin> fst ` set ps"
  proof
    assume "units ''toJSON'' \<in> fst ` set ps"
    then obtain v where "(units ''toJSON'', v) \<in> set ps" by auto
    with "11.prems" show False unfolding canonicalizable.simps list_all_iff by blast
  qed
  then have none: "map_of ps (units ''toJSON'') = None" by (simp add: map_of_eq_None_iff)
  with "11.IH" "11.prems" have "\<exists>s. serialize_members (sort_key fst ps) path = Inr s"
    by (simp add: list_all_sort_key)
  then show ?case using none by auto
next
  case (14 item items i path)
  then have "item \<noteq> JUndefined" by auto
  with 14 show ?case by auto
next
  case (16 key child ps path)
  then show ?case by (cases "child = JUndefined") (auto simp: assert_unicode_def)
qed auto

lemma canonicalize_total: "canonicalizable v \<Longrightarrow> \<exists>s. canonicalize v = Inr s"
  by (simp add: canonicalize_def canonicalizable_serialize_all(1))

lemma canonicalizable_digest:
  assumes "is_format_tag tag" and "canonicalizable (JObj ps)" and "units ''format'' \<notin> fst ` set ps"
  shows "\<exists>d. tagged_digest H tag (JObj ps) = Inr d"
proof -
  have "canonicalizable (tagged_fields tag ps)"
    using assms(2) by (simp add: tagged_fields_def units_scalar)
  from canonicalize_total [OF this] show ?thesis
    using assms by (auto simp: tagged_digest_def json_digest_def canonical_bytes_def)
qed

end
