(* ===== verification/Projection_Samples.thy ===== *)
theory Projection_Samples
  imports Projection_Properties Canonical_Total
begin

text \<open>Concrete readings on which the theorems about projections apply.\<close>

definition sample_member :: "jstr \<Rightarrow> jstr \<Rightarrow> projection_member" where
  "sample_member i type_name =
     \<lparr>pm_id = i, pm_type = type_name, pm_organization = units ''org'', pm_classification = units ''internal'',
      pm_digest = units ''d'', pm_state = None, pm_item = units ''included'', pm_title = None, pm_content = None,
      pm_withdrawn_at = None, pm_withdrawal_reason = None,
      pm_verification = JObj [(units ''verified'', JBool False), (units ''label'', JStr UNVERIFIED_LABEL)]\<rparr>"

definition note_id :: jstr where
  "note_id = units ''00000000-0000-0000-0000-00000000000a''"

definition other_id :: jstr where
  "other_id = units ''00000000-0000-0000-0000-00000000000b''"

definition sample_corpus :: projection_corpus where
  "sample_corpus =
     \<lparr>pc_person = units ''person'', pc_organization = units ''org'', pc_digest = units ''c'',
      pc_members = [sample_member other_id (units ''invoice''), sample_member note_id (units ''note'')]\<rparr>"

definition sample_reading :: "projection_anchor \<Rightarrow> projection_traverse option \<Rightarrow> projection_filter \<Rightarrow> projection_definition" where
  "sample_reading anchor traverse filt =
     \<lparr>pd_id = units ''sample'', pd_version = integer_number 1, pd_anchor = anchor,
      pd_parameters = [\<lparr>pp_name = units ''object_id'', pp_type = String_param, pp_required = True, pp_values = None,
                        pp_minimum = None, pp_maximum = None\<rparr>],
      pd_filter = Some filt, pd_traverse = traverse,
      pd_sections = [\<lparr>ps_id = units ''all'', ps_title = units ''All'', ps_select = Select_all, ps_filter = None\<rparr>],
      pd_remainder_id = units ''rest'', pd_remainder_title = units ''Rest'', pd_sort = [],
      pd_max_members = Some (JNum (integer_number 10)), pd_max_runtime = Some (JNum (integer_number 1000))\<rparr>"

definition object_reading :: projection_definition where
  "object_reading = sample_reading Anchor_object
     (Some \<lparr>tv_relations = All_relations, tv_depth = JNum (integer_number 1)\<rparr>)
     \<lparr>pf_types = None, pf_states = None, pf_class_max = None, pf_items = None, pf_reach = Some Reached\<rparr>"

definition type_reading :: projection_definition where
  "type_reading = sample_reading Anchor_person None
     \<lparr>pf_types = Some [units ''note''], pf_states = None, pf_class_max = None, pf_items = None, pf_reach = None\<rparr>"

abbreviation "sample_graph \<equiv> \<lparr>pg_edges = [], pg_policies = []\<rparr> :: projection_graph"

abbreviation sample_run :: "projection_definition \<Rightarrow> projection_corpus \<Rightarrow> projection_error + projection_result" where
  "sample_run d corpus \<equiv>
     project (\<lambda>_. ''digest'') (\<lambda>_ _. True) (\<lambda>_. 0) d [(units ''object_id'', JStr note_id)] corpus sample_graph"

lemma finite_integer_number [simp]: "is_finite (integer_number i)"
  by (simp add: integer_number_def)

lemma format_tag: "is_format_tag RESULT_FORMAT"
  by code_simp

lemma seal_total:
  assumes "canonicalizable (JObj (digest_members body))" and "\<And>digest. canonicalizable (result_value (body\<lparr>pr_digest := digest\<rparr>))"
  shows "\<exists>r. seal_result H body = Inr r"
proof -
  have "units ''format'' \<notin> fst ` set (digest_members body)"
    by (auto simp: digest_members_def units_inject split: option.splits)
  from canonicalizable_digest [OF format_tag assms(1) this, of H] obtain digest
    where digest: "tagged_digest H RESULT_FORMAT (JObj (digest_members body)) = Inr digest" by blast
  from canonicalize_total [OF assms(2)] obtain bytes where "canonicalize (result_value (body\<lparr>pr_digest := digest\<rparr>)) = Inr bytes" by blast
  with digest show ?thesis by (simp add: seal_result_def projection_result_digest_def)
qed

lemma label_scalar: "surrogate_failure UNVERIFIED_LABEL = None"
proof -
  have "surrogate_failure ([0x2014] @ units '' nobody has checked this record'') = None"
    by (simp add: units_scalar is_high_def is_low_def)
  then show ?thesis unfolding UNVERIFIED_LABEL_def by (simp add: surrogate_failure_append units_scalar)
qed

lemmas reading_defs = sample_reading_def object_reading_def type_reading_def sample_corpus_def sample_member_def

lemma sample_bounded: "assert_bounded (sample_reading anchor traverse filt) = Inr () \<longleftrightarrow>
    (case traverse of None \<Rightarrow> True | Some t \<Rightarrow> depth_within (tv_depth t))"
  by (simp add: assert_bounded_def sample_reading_def budget_within_def integer_of_def integer_value_integer
      refuse_unless_def MAX_MEMBERS_def MAX_RUNTIME_MS_def)

lemma sample_bound: "bind_parameters (sample_reading anchor traverse filt) [(units ''object_id'', JStr note_id)] =
    Inr [(units ''object_id'', JStr note_id)]"
  by (simp add: bind_parameters_def sample_reading_def parameter_fits_def)

lemma sample_checked: "\<forall>m\<in>set (pc_members sample_corpus). check_member sample_corpus m = Inr ()"
  by (simp add: reading_defs check_member_def is_record_verification_def property_of_def)

lemma sample_seal: "\<exists>r. seal_result H (build_result (sample_reading anchor traverse filt) [(units ''object_id'', JStr note_id)]
    sample_corpus found n k [\<lparr>sr_id = units ''all'', sr_title = units ''All'', sr_members = [sample_member note_id (units ''note'')]\<rparr>,
      \<lparr>sr_id = units ''rest'', sr_title = units ''Rest'', sr_members = []\<rparr>]) = Inr r"
  (is "\<exists>r. seal_result H ?b = Inr r")
  if "rf_edges found = None \<or> rf_edges found = Some []" "rf_by_anchor found = []" "rf_by_class found = []"
proof (rule seal_total)
  note parts = that build_result_def sample_reading_def definition_value_def source_value_def list_value_def
    units_scalar units_inject label_scalar note_id_def sample_member_def sample_corpus_def placed_edges_def optional_def
  show "canonicalizable (JObj (digest_members (?b)))"
    using that(1) by (elim disjE) (simp_all add: parts digest_members_def section_tuple_def member_tuple_def
      verification_tuple_def verified_def property_of_def read_property_def edge_tuple_def)
  show "canonicalizable (result_value (?b\<lparr>pr_digest := digest\<rparr>))" for digest
    using that(1) by (elim disjE) (simp_all add: parts result_value_def member_value_def measures_value_def
      counts_value_def int_value_def edge_value_def)
qed

lemma note_not_other [simp]: "note_id \<noteq> other_id" "other_id \<noteq> note_id"
  by (simp_all add: note_id_def other_id_def units_inject)

lemma sample_finish:
  assumes candidates: "filter (\<lambda>m. admits (pd_filter d) m (rf_ids found)) (pc_members sample_corpus) = [sample_member note_id (units ''note'')]"
    and d: "d = sample_reading anchor traverse filt"
    and found: "rf_edges found = None \<or> rf_edges found = Some []" "rf_by_anchor found = []" "rf_by_class found = []"
  shows "\<exists>r. finish_projection H (\<lambda>_. False) d [(units ''object_id'', JStr note_id)] sample_corpus i n found = Inr r"
proof -
  have sections: "sections_of d (home_of d i (rf_ids found)) [sample_member note_id (units ''note'')] =
      [\<lparr>sr_id = units ''all'', sr_title = units ''All'', sr_members = [sample_member note_id (units ''note'')]\<rparr>,
       \<lparr>sr_id = units ''rest'', sr_title = units ''Rest'', sr_members = []\<rparr>]"
    by (simp add: result_sections_def d sample_reading_def home_of_def selects_def admits_def units_inject)
  show ?thesis
    using sample_seal [OF found, of H anchor traverse filt n 1]
    unfolding finish_Inr Let_def candidates sections by (simp add: d) (simp add: sample_corpus_def sample_member_def)
qed

lemma sample_late: "past_deadline (\<lambda>_. 0) (sample_reading anchor traverse filt) = (\<lambda>_. False)"
  by (simp add: fun_eq_iff past_deadline_def budget_value_def sample_reading_def integer_of_def integer_value_integer)

lemma object_bounded: "assert_bounded object_reading = Inr ()"
  by (simp add: object_reading_def sample_bounded depth_within_def integer_of_def integer_value_integer MAX_DEPTH_def)

lemma object_bound: "bind_parameters object_reading [(units ''object_id'', JStr note_id)] = Inr [(units ''object_id'', JStr note_id)]"
  by (simp add: object_reading_def sample_bound)

lemma object_run: "\<exists>r. sample_run object_reading sample_corpus = Inr r"
proof -
  let ?p = "[(units ''object_id'', JStr note_id)]"
  let ?found = "\<lparr>rf_ids = [note_id], rf_edges = Some [], rf_by_anchor = [], rf_by_class = [], rf_ticks = 1\<rparr>"
  have anchor: "anchor_of object_reading ?p sample_corpus = note_id" "pd_anchor object_reading = Anchor_object"
    by (simp_all add: anchor_of_def text_of_parameter_def object_reading_def sample_reading_def)
  have "walk_projection (\<lambda>_ _. True) (\<lambda>_. False) object_reading note_id sample_corpus sample_graph False = Inr ?found"
    by (simp add: walk_projection_def object_reading_def sample_reading_def walk_from_object_def walk_result_def
        neighbourhood_def depth_value_def budget_value_def integer_of_def integer_value_integer touching_def refuse_unless_def)
  moreover have "\<exists>r. finish_projection (\<lambda>_. ''digest'') (\<lambda>_. False) object_reading ?p sample_corpus note_id 2 ?found = Inr r"
    by (rule sample_finish [OF _ object_reading_def])
      (simp_all add: sample_corpus_def object_reading_def sample_reading_def admits_def sample_member_def listed_def)
  ultimately show ?thesis
    unfolding project_def evaluate_Inr using sample_checked anchor object_bounded
    by (simp add: object_reading_def sample_bound sample_late ex_comm)
      (auto simp: sample_corpus_def sample_reading_def budget_value_def integer_of_def integer_value_integer sample_member_def)
qed

lemma type_run: "\<exists>r. sample_run type_reading sample_corpus = Inr r"
proof -
  let ?p = "[(units ''object_id'', JStr note_id)]"
  let ?found = "\<lparr>rf_ids = [], rf_edges = None, rf_by_anchor = [], rf_by_class = [], rf_ticks = 0\<rparr>"
  have "walk_projection (\<lambda>_ _. True) (\<lambda>_. False) type_reading i sample_corpus sample_graph False = Inr ?found" for i
    by (simp add: walk_projection_def type_reading_def sample_reading_def)
  moreover have "\<exists>r. finish_projection (\<lambda>_. ''digest'') (\<lambda>_. False) type_reading ?p sample_corpus i 2 ?found = Inr r" for i
    by (rule sample_finish [OF _ type_reading_def])
      (simp_all add: sample_corpus_def type_reading_def sample_reading_def admits_def sample_member_def listed_def units_inject)
  moreover have "assert_bounded type_reading = Inr ()" by (simp add: type_reading_def sample_bounded)
  ultimately show ?thesis
    unfolding project_def evaluate_Inr using sample_checked
    by (simp add: type_reading_def sample_bound sample_late ex_comm)
      (auto simp: sample_corpus_def sample_reading_def budget_value_def integer_of_def integer_value_integer sample_member_def)
qed

section \<open>The theorems at these readings\<close>

theorem projection_covers_witness:
  "\<exists>r. sample_run object_reading sample_corpus = Inr r \<and>
     ms_members (pr_measures r) + ms_excluded (pr_measures r) = 2"
proof -
  from object_run obtain r where run: "sample_run object_reading sample_corpus = Inr r" ..
  with projection_covers [OF run] show ?thesis by (auto simp: sample_corpus_def)
qed

theorem neighbourhood_reading_equivalent_witness:
  "\<exists>r. sample_run object_reading sample_corpus = Inr r \<and>
     project_neighbourhood (\<lambda>_. ''digest'') (\<lambda>_ _. True) (\<lambda>_. 0) object_reading [(units ''object_id'', JStr note_id)]
       (sample_corpus\<lparr>pc_members := [sample_member note_id (units ''note'')]\<rparr>) sample_graph (integer_number 2) = Inr r"
proof -
  from object_run obtain r where run: "sample_run object_reading sample_corpus = Inr r" ..
  have reading: "is_neighbourhood_reading object_reading"
    by (simp add: is_neighbourhood_reading_def object_reading_def sample_reading_def)
  have "neighbourhood_scope object_reading [(units ''object_id'', JStr note_id)] sample_graph = Inr [note_id]"
    by (simp add: neighbourhood_scope_def refuse_unless_def reading object_bounded object_bound text_of_parameter_def)
      (simp add: object_reading_def sample_reading_def walk_from_object_def walk_result_def neighbourhood_def
        depth_value_def budget_value_def integer_of_def integer_value_integer touching_def)
  from neighbourhood_reading_equivalent [OF run reading this] run show ?thesis
    by (intro exI [of _ r]) (simp add: sample_corpus_def sample_member_def)
qed

theorem type_scoped_reading_equivalent_witness:
  "\<exists>r. sample_run type_reading sample_corpus = Inr r \<and>
     project_type_scoped (\<lambda>_. ''digest'') (\<lambda>_ _. True) (\<lambda>_. 0) type_reading [(units ''object_id'', JStr note_id)]
       (sample_corpus\<lparr>pc_members := [sample_member note_id (units ''note'')]\<rparr>) sample_graph (integer_number 2) = Inr r"
proof -
  from type_run obtain r where run: "sample_run type_reading sample_corpus = Inr r" ..
  have "type_scope type_reading = Inr [units ''note'']"
    by (simp add: type_scope_def is_type_scoped_reading_def type_reading_def sample_reading_def)
  from type_scoped_reading_equivalent [OF run this] run show ?thesis
    by (intro exI [of _ r]) (simp add: sample_corpus_def sample_member_def units_inject)
qed

theorem corpus_order_irrelevant_witness:
  "\<exists>r. sample_run type_reading sample_corpus = Inr r \<and>
     sample_run type_reading (sample_corpus\<lparr>pc_members := rev (pc_members sample_corpus)\<rparr>) = Inr r"
proof -
  from type_run obtain r where run: "sample_run type_reading sample_corpus = Inr r" ..
  have "sample_run type_reading (sample_corpus\<lparr>pc_members := rev (pc_members sample_corpus)\<rparr>) = Inr r"
    by (rule corpus_order_irrelevant [OF run, of _ 36]) (simp_all add: sample_corpus_def sample_member_def note_id_def other_id_def units_inject, simp_all add: units_def)
  with run show ?thesis by blast
qed

end
