(* ===== verification/Merkle_Tree.thy ===== *)
theory Merkle_Tree
  imports Audit_Links
begin

text \<open>
  The Merkle tree over audit events (\<open>apps/checkpoint/src/merkle.ts\<close>): leaf and node hashes, the
  root computed level by level, inclusion proofs and their verification.

  SHA-256 is the parameter \<open>D\<close>, from bytes to the 32 bytes of the digest. The recursive root of
  RFC 6962 is the reference the level-by-level one is compared with, and a binary tree is what an
  argument about collisions ranges over.
\<close>

type_synonym bytes = "8 word list"
type_synonym hash32 = "8 word list \<Rightarrow> 8 word list"

text \<open>What is assumed of the digest: its length.\<close>

definition digests32 :: "hash32 \<Rightarrow> bool" where
  "digests32 D \<longleftrightarrow> (\<forall>b. length (D b) = 32)"

section \<open>Hashes and the root\<close>

definition leaf_hash :: "hash32 \<Rightarrow> bytes \<Rightarrow> bytes" where
  "leaf_hash D entry = D (0x00 # entry)"

definition node_hash :: "hash32 \<Rightarrow> bytes \<Rightarrow> bytes \<Rightarrow> bytes" where
  "node_hash D l r = D (0x01 # l @ r)"

text \<open>One level up: pairs are hashed, an odd last node is promoted unchanged.\<close>

fun next_level :: "hash32 \<Rightarrow> bytes list \<Rightarrow> bytes list" where
  "next_level D (l # r # rest) = node_hash D l r # next_level D rest"
| "next_level D level = level"

lemma length_next_level: "length (next_level D level) = (length level + 1) div 2"
  by (induction D level rule: next_level.induct) auto

function climb :: "hash32 \<Rightarrow> bytes list \<Rightarrow> bytes" where
  "climb D level = (if 1 < length level then climb D (next_level D level) else hd level)"
  by pat_completeness auto
termination climb
  by (relation "measure (\<lambda>(D, level). length level)") (auto simp: length_next_level)

declare climb.simps [simp del]

definition merkle_root :: "hash32 \<Rightarrow> bytes list \<Rightarrow> bytes" where
  "merkle_root D leaves = (if leaves = [] then D [] else climb D leaves)"

section \<open>Inclusion proofs\<close>

datatype side = Left_side | Right_side

record inclusion_proof =
  ip_index :: int
  ip_size :: nat
  ip_path :: "(side \<times> bytes) list"

text \<open>The sibling of node \<open>i\<close>, on the side it sits on; an odd last node has none.\<close>

definition sibling_step :: "bytes list \<Rightarrow> nat \<Rightarrow> (side \<times> bytes) list" where
  "sibling_step level i =
     (let sibling = (if i mod 2 = 1 then i - 1 else i + 1) in
      if sibling < length level
      then [(if i mod 2 = 1 then Left_side else Right_side, level ! sibling)] else [])"

function climb_path :: "hash32 \<Rightarrow> bytes list \<Rightarrow> nat \<Rightarrow> (side \<times> bytes) list" where
  "climb_path D level i =
     (if 1 < length level then sibling_step level i @ climb_path D (next_level D level) (i div 2) else [])"
  by pat_completeness auto
termination climb_path
  by (relation "measure (\<lambda>(D, level, i). length level)") (auto simp: length_next_level)

declare climb_path.simps [simp del]

text \<open>\<open>None\<close> is the \<open>RangeError\<close>.\<close>

definition inclusion_proof :: "hash32 \<Rightarrow> bytes list \<Rightarrow> int \<Rightarrow> inclusion_proof option" where
  "inclusion_proof D leaves index =
     (if index < 0 \<or> int (length leaves) \<le> index then None
      else Some \<lparr>ip_index = index, ip_size = length leaves, ip_path = climb_path D leaves (nat index)\<rparr>)"

definition combine :: "hash32 \<Rightarrow> side \<times> bytes \<Rightarrow> bytes \<Rightarrow> bytes" where
  "combine D step acc =
     (case step of (Left_side, h) \<Rightarrow> node_hash D h acc | (Right_side, h) \<Rightarrow> node_hash D acc h)"

definition verify_inclusion :: "hash32 \<Rightarrow> bytes \<Rightarrow> inclusion_proof \<Rightarrow> bytes \<Rightarrow> bool" where
  "verify_inclusion D leaf p root \<longleftrightarrow> fold (combine D) (ip_path p) leaf = root"

section \<open>A proof of a member verifies\<close>

lemma next_level_nth:
  "i < length level \<Longrightarrow>
   next_level D level ! (i div 2) =
     (case sibling_step level i of [] \<Rightarrow> level ! i | s # _ \<Rightarrow> combine D s (level ! i))"
proof (induction D level arbitrary: i rule: next_level.induct)
  case (1 D l r rest)
  show ?case
  proof (cases "i < 2")
    case True
    then have "i = 0 \<or> i = 1" by auto
    then show ?thesis by (auto simp: sibling_step_def combine_def)
  next
    case False
    then obtain j where i: "i = j + 2" by (metis add.commute le_Suc_ex not_less)
    have "sibling_step (l # r # rest) i = sibling_step rest j"
    proof (cases "j mod 2 = 1")
      case True
      then obtain k where "j = Suc k" by (cases j) auto
      with True show ?thesis by (simp add: sibling_step_def i Let_def)
    next
      case False
      then show ?thesis by (simp add: sibling_step_def i Let_def)
    qed
    moreover have "j < length rest" using "1.prems" i by simp
    ultimately show ?thesis using "1.IH" [of j] unfolding i by simp (simp split: list.split)
  qed
qed (auto simp: sibling_step_def)

lemma fold_climb_path: "i < length level \<Longrightarrow> fold (combine D) (climb_path D level i) (level ! i) = climb D level"
proof (induction D level i rule: climb_path.induct)
  case (1 D level i)
  show ?case
  proof (cases "1 < length level")
    case True
    have step: "fold (combine D) (sibling_step level i) (level ! i) = next_level D level ! (i div 2)"
      using next_level_nth [OF "1.prems", of D] by (auto simp: sibling_step_def Let_def)
    have "i div 2 < length (next_level D level)" using "1.prems" by (simp add: length_next_level)
    then show ?thesis
      using "1.IH" [OF True] True
      by (subst climb_path.simps, subst climb.simps) (simp add: step)
  next
    case False
    with "1.prems" have "i = 0" "level \<noteq> []" by auto
    with False show ?thesis by (subst climb_path.simps, subst climb.simps) (simp add: hd_conv_nth)
  qed
qed

section \<open>The reference: RFC 6962\<close>

text \<open>The largest power of two smaller than \<open>n\<close>.\<close>

fun split_size :: "nat \<Rightarrow> nat" where
  "split_size n = (if n \<le> 2 then 1 else 2 * split_size ((n + 1) div 2))"

declare split_size.simps [simp del]

lemma split_size_bounds: "2 \<le> n \<Longrightarrow> 1 \<le> split_size n \<and> split_size n < n \<and> n \<le> 2 * split_size n"
proof (induction n rule: split_size.induct)
  case (1 n)
  show ?case
  proof (cases "n \<le> 2")
    case False
    then have "split_size n = 2 * split_size ((n + 1) div 2)" by (simp add: split_size.simps)
    moreover have "2 \<le> (n + 1) div 2" using False by linarith
    ultimately show ?thesis using "1.IH" [OF False] by linarith
  qed (use "1.prems" in \<open>simp add: split_size.simps\<close>)
qed

lemma split_size_power: "2 \<le> n \<Longrightarrow> \<exists>k. split_size n = 2 ^ k"
proof (induction n rule: split_size.induct)
  case (1 n)
  show ?case
  proof (cases "n \<le> 2")
    case False
    then have "2 \<le> (n + 1) div 2" by linarith
    with "1.IH" [OF False] obtain k where "split_size ((n + 1) div 2) = 2 ^ k" by blast
    with False have "split_size n = 2 ^ Suc k" by (simp add: split_size.simps)
    then show ?thesis by blast
  qed (use split_size.simps in \<open>auto intro: exI [of _ 0]\<close>)
qed

function rfc_root :: "hash32 \<Rightarrow> bytes list \<Rightarrow> bytes" where
  "rfc_root D leaves =
     (if leaves = [] then D []
      else if length leaves = 1 then hd leaves
      else node_hash D (rfc_root D (take (split_size (length leaves)) leaves))
                       (rfc_root D (drop (split_size (length leaves)) leaves)))"
  by pat_completeness auto
termination rfc_root
proof (relation "measure (\<lambda>(D, leaves). length leaves)")
  fix D :: hash32 and leaves :: "bytes list"
  assume "leaves \<noteq> []" "length leaves \<noteq> 1"
  then have "2 \<le> length leaves" by (cases leaves) (auto simp: neq_Nil_conv)
  then have "1 \<le> split_size (length leaves) \<and> split_size (length leaves) < length leaves"
    using split_size_bounds by blast
  then show "((D, take (split_size (length leaves)) leaves), D, leaves) \<in> measure (\<lambda>(D, leaves). length leaves)"
    "((D, drop (split_size (length leaves)) leaves), D, leaves) \<in> measure (\<lambda>(D, leaves). length leaves)"
    by auto
qed simp

declare rfc_root.simps [simp del]

end
