(* ===== verification/Merkle_Properties.thy ===== *)
theory Merkle_Properties
  imports Merkle_Tree
begin

text \<open>
  The level-by-level root is the recursive root of RFC 6962; a root binds the entries under it; an
  inclusion proof verifies for the member it was made for and for no entry that is not a member.
\<close>

section \<open>The two ways of computing a root agree\<close>

lemma next_level_append: "even (length xs) \<Longrightarrow> next_level D (xs @ ys) = next_level D xs @ next_level D ys"
  by (induction D xs rule: next_level.induct) auto

lemma next_level_short: "length xs < 2 \<Longrightarrow> next_level D xs = xs"
  by (induction D xs rule: next_level.induct) auto

lemma rfc_root_split: "2 \<le> length xs \<Longrightarrow> rfc_root D xs =
    node_hash D (rfc_root D (take (split_size (length xs)) xs)) (rfc_root D (drop (split_size (length xs)) xs))"
  by (subst rfc_root.simps) auto

lemma rfc_root_next: "rfc_root D (next_level D level) = rfc_root D level"
proof (induction "length level" arbitrary: level rule: less_induct)
  case less
  let ?n = "length level"
  consider "?n < 2" | "?n = 2" | "2 < ?n" by linarith
  then show ?case
  proof cases
    case 1
    then show ?thesis by (simp add: next_level_short)
  next
    case 2
    then obtain a b where "level = [a, b]" by (auto simp: length_Suc_conv numeral_2_eq_2)
    then show ?thesis by (simp add: rfc_root.simps split_size.simps)
  next
    case 3
    let ?m = "(?n + 1) div 2" and ?k = "split_size ?n"
    have k: "?k = 2 * split_size ?m" using 3 by (simp add: split_size.simps)
    have m: "2 \<le> ?m" using 3 by linarith
    have k_less: "2 \<le> ?k" "?k < ?n" using 3 split_size_bounds [of ?n] split_size_bounds [OF m] k by auto
    have split: "next_level D level = next_level D (take ?k level) @ next_level D (drop ?k level)"
      using next_level_append [of "take ?k level" D "drop ?k level"] k_less k by simp
    have len: "length (next_level D (take ?k level)) = split_size ?m"
      using k_less k by (simp add: length_next_level min_absorb2)
    have "rfc_root D (next_level D level) =
        node_hash D (rfc_root D (next_level D (take ?k level))) (rfc_root D (next_level D (drop ?k level)))"
      using m by (subst rfc_root_split) (simp_all add: length_next_level, simp add: split len)
    also have "\<dots> = node_hash D (rfc_root D (take ?k level)) (rfc_root D (drop ?k level))"
      using less.hyps [of "take ?k level"] less.hyps [of "drop ?k level"] k_less by simp
    also have "\<dots> = rfc_root D level" using 3 by (simp add: rfc_root_split)
    finally show ?thesis .
  qed
qed

lemma climb_rfc_root: "level \<noteq> [] \<Longrightarrow> climb D level = rfc_root D level"
proof (induction D level rule: climb.induct)
  case (1 D level)
  show ?case
  proof (cases "1 < length level")
    case True
    then have "next_level D level \<noteq> []" using length_next_level [of D level] by auto
    with "1.IH" [OF True] True show ?thesis by (subst climb.simps) (simp add: rfc_root_next)
  next
    case False
    with "1.prems" have "length level = 1" by (cases level) auto
    then show ?thesis by (subst climb.simps, subst rfc_root.simps) auto
  qed
qed

text \<open>C12: The root that \<open>merkleRoot\<close> computes level by level, promoting an odd last node, is the
  Merkle tree hash of RFC 6962, which splits the leaves at the largest power of two below their
  number: any verifier of Certificate Transparency logs computes the same root.\<close>

theorem merkle_root_is_rfc6962: "merkle_root D leaves = rfc_root D leaves"
  by (cases "leaves = []") (simp_all add: merkle_root_def climb_rfc_root rfc_root.simps [of D "[]"])

section \<open>Trees and what they hash\<close>

datatype hash_tree = Tip bytes | Branch hash_tree hash_tree

fun tree_hash :: "hash32 \<Rightarrow> hash_tree \<Rightarrow> bytes" where
  "tree_hash D (Tip e) = leaf_hash D e"
| "tree_hash D (Branch l r) = node_hash D (tree_hash D l) (tree_hash D r)"

fun tree_entries :: "hash_tree \<Rightarrow> bytes list" where
  "tree_entries (Tip e) = [e]"
| "tree_entries (Branch l r) = tree_entries l @ tree_entries r"

fun tree_inputs :: "hash32 \<Rightarrow> hash_tree \<Rightarrow> bytes set" where
  "tree_inputs D (Tip e) = {0x00 # e}"
| "tree_inputs D (Branch l r) =
     insert (0x01 # tree_hash D l @ tree_hash D r) (tree_inputs D l \<union> tree_inputs D r)"

function rfc_tree :: "bytes list \<Rightarrow> hash_tree" where
  "rfc_tree es =
     (if length es < 2 then Tip (hd es)
      else Branch (rfc_tree (take (split_size (length es)) es)) (rfc_tree (drop (split_size (length es)) es)))"
  by pat_completeness auto
termination rfc_tree
proof (relation "measure length")
  fix es :: "bytes list"
  assume "\<not> length es < 2"
  then have "1 \<le> split_size (length es)" "split_size (length es) < length es"
    using split_size_bounds [of "length es"] by auto
  then show "(take (split_size (length es)) es, es) \<in> measure length" "(drop (split_size (length es)) es, es) \<in> measure length"
    by auto
qed simp

declare rfc_tree.simps [simp del]

lemma split_cases [case_names single split]:
  assumes "es \<noteq> []"
  obtains e where "es = [e]" | "2 \<le> length es" "take (split_size (length es)) es \<noteq> []" "drop (split_size (length es)) es \<noteq> []"
proof (cases "length es < 2")
  case True
  with assms show ?thesis by (cases es) (auto intro: that(1))
next
  case False
  with split_size_bounds [of "length es"] show ?thesis by (intro that(2)) auto
qed

lemma tree_hash_rfc: "es \<noteq> [] \<Longrightarrow> tree_hash D (rfc_tree es) = rfc_root D (map (leaf_hash D) es)"
proof (induction es rule: rfc_tree.induct)
  case (1 es)
  from "1.prems" show ?case
  proof (cases rule: split_cases)
    case (single e)
    then show ?thesis by (simp add: rfc_tree.simps rfc_root.simps)
  next
    case split
    with "1.IH" show ?thesis
      by (subst rfc_tree.simps, subst rfc_root_split) (simp_all add: not_less take_map drop_map)
  qed
qed

lemma tree_entries_rfc: "es \<noteq> [] \<Longrightarrow> tree_entries (rfc_tree es) = es"
proof (induction es rule: rfc_tree.induct)
  case (1 es)
  from "1.prems" show ?case
  proof (cases rule: split_cases)
    case split
    with "1.IH" show ?thesis by (subst rfc_tree.simps) (simp add: not_less)
  qed (simp add: rfc_tree.simps)
qed

text \<open>Every byte string hashed for the root over some entries.\<close>

definition hashed_inputs :: "hash32 \<Rightarrow> bytes list \<Rightarrow> bytes set" where
  "hashed_inputs D es = (if es = [] then {[]} else tree_inputs D (rfc_tree es))"

lemma tree_hash_input: "\<exists>b\<in>tree_inputs D t. tree_hash D t = D b \<and> b \<noteq> []"
  by (cases t) (auto simp: leaf_hash_def node_hash_def)

lemma tree_hash_inject:
  assumes "digests32 D"
  shows "inj_on D (tree_inputs D t \<union> tree_inputs D u) \<Longrightarrow> tree_hash D t = tree_hash D u \<Longrightarrow> t = u"
proof (induction t arbitrary: u)
  case (Tip e)
  show ?case
  proof (cases u)
    case (Tip e')
    then show ?thesis using Tip.prems inj_onD [OF Tip.prems(1), of "0 # e" "0 # e'"] by (simp add: leaf_hash_def)
  next
    case (Branch l r)
    then show ?thesis
      using Tip.prems inj_onD [OF Tip.prems(1), of "0 # e" "1 # tree_hash D l @ tree_hash D r"]
      by (simp add: leaf_hash_def node_hash_def)
  qed
next
  case (Branch l r)
  show ?case
  proof (cases u)
    case (Tip e)
    then show ?thesis
      using Branch.prems inj_onD [OF Branch.prems(1), of "1 # tree_hash D l @ tree_hash D r" "0 # e"]
      by (simp add: leaf_hash_def node_hash_def)
  next
    case u: (Branch l' r')
    have len: "length (tree_hash D t) = 32" for t
      using assms tree_hash_input [of D t] by (auto simp: digests32_def)
    have "tree_hash D l @ tree_hash D r = tree_hash D l' @ tree_hash D r'"
      using Branch.prems inj_onD [OF Branch.prems(1), of "1 # tree_hash D l @ tree_hash D r" "1 # tree_hash D l' @ tree_hash D r'"]
      by (simp add: u node_hash_def)
    then have "tree_hash D l = tree_hash D l'" "tree_hash D r = tree_hash D r'" by (simp_all add: len)
    moreover have "inj_on D (tree_inputs D l \<union> tree_inputs D l')" "inj_on D (tree_inputs D r \<union> tree_inputs D r')"
      by (rule inj_on_subset [OF Branch.prems(1)], auto simp: u)+
    ultimately show ?thesis using Branch.IH u by blast
  qed
qed

lemma merkle_root_tree: "es \<noteq> [] \<Longrightarrow> merkle_root D (map (leaf_hash D) es) = tree_hash D (rfc_tree es)"
  by (simp add: merkle_root_def climb_rfc_root tree_hash_rfc)

text \<open>C11: A root binds what is under it. Two lists of entries with the same root are the same list, in
  the same order and of the same length, unless SHA-256 collides on two of the byte strings hashed
  for them; so leaf and node hashes cannot be passed off as each other and no entry can be dropped,
  repeated or moved.\<close>

theorem merkle_root_binds:
  assumes len: "digests32 D" and inj: "inj_on D (hashed_inputs D es \<union> hashed_inputs D es')"
    and root: "merkle_root D (map (leaf_hash D) es) = merkle_root D (map (leaf_hash D) es')"
  shows "es = es'"
proof (cases "es = [] \<or> es' = []")
  case False
  then have "rfc_tree es = rfc_tree es'"
    using root inj by (intro tree_hash_inject [OF len]) (simp_all add: merkle_root_tree hashed_inputs_def)
  with False show ?thesis by (metis tree_entries_rfc)
next
  case True
  have absurd: False if "D [] = tree_hash D (rfc_tree xs)" "inj_on D (insert [] (tree_inputs D (rfc_tree xs)))" for xs
    using tree_hash_input [of D "rfc_tree xs"] that inj_onD [OF that(2)] by (metis insertCI)
  show ?thesis
  proof (rule ccontr)
    assume "es \<noteq> es'"
    with True consider "es = []" "es' \<noteq> []" | "es' = []" "es \<noteq> []" by blast
    then show False
    proof cases
      case 1
      with root inj absurd [of es'] show False
        by (simp add: merkle_root_tree hashed_inputs_def) (simp add: merkle_root_def)
    next
      case 2
      with root inj absurd [of es] show False
        by (simp add: merkle_root_tree hashed_inputs_def) (simp add: merkle_root_def)
    qed
  qed
qed

section \<open>Inclusion proofs\<close>

text \<open>C14: An inclusion proof made for a leaf verifies against the root of the leaves it was made from,
  whatever the number of leaves and wherever the leaf stands.\<close>

theorem inclusion_proof_verifies:
  assumes "inclusion_proof D leaves index = Some p"
  shows "verify_inclusion D (leaves ! nat index) p (merkle_root D leaves)"
proof -
  have "nat index < length leaves" and p: "ip_path p = climb_path D leaves (nat index)"
    using assms by (auto simp: inclusion_proof_def split: if_splits)
  then show ?thesis
    by (auto simp: verify_inclusion_def merkle_root_def fold_climb_path)
qed

text \<open>The byte strings hashed while a proof is checked, from a leaf up.\<close>

fun path_inputs :: "hash32 \<Rightarrow> (side \<times> bytes) list \<Rightarrow> bytes \<Rightarrow> bytes set" where
  "path_inputs D [] acc = {}"
| "path_inputs D ((side, h) # steps) acc =
     insert (0x01 # (if side = Left_side then h @ acc else acc @ h)) (path_inputs D steps (combine D (side, h) acc))"

lemma path_inputs_snoc:
  "path_inputs D (steps @ [(side, h)]) acc =
     insert (0x01 # (if side = Left_side then h @ fold (combine D) steps acc else fold (combine D) steps acc @ h))
       (path_inputs D steps acc)"
  by (induction D steps acc rule: path_inputs.induct) auto

lemma combine_eq: "combine D (side, h) acc = D (0x01 # (if side = Left_side then h @ acc else acc @ h))"
  by (cases side) (simp_all add: combine_def node_hash_def)

lemma fold_combine_length: "digests32 D \<Longrightarrow> length acc = 32 \<Longrightarrow> length (fold (combine D) steps acc) = 32"
  by (induction steps arbitrary: acc) (auto simp: digests32_def combine_eq)

lemma path_ends_in_tree:
  assumes len: "digests32 D"
  shows "inj_on D (tree_inputs D t \<union> insert (0x00 # e) (path_inputs D steps (leaf_hash D e))) \<Longrightarrow>
    fold (combine D) steps (leaf_hash D e) = tree_hash D t \<Longrightarrow> e \<in> set (tree_entries t)"
proof (induction t arbitrary: steps)
  case (Tip e')
  show ?case
  proof (cases steps rule: rev_cases)
    case Nil
    with Tip.prems inj_onD [OF Tip.prems(1), of "0 # e" "0 # e'"] show ?thesis by (simp add: leaf_hash_def)
  next
    case (snoc steps' s)
    obtain side h where s: "s = (side, h)" by (cases s)
    with Tip.prems(2) snoc have "D (1 # (if side = Left_side then h @ fold (combine D) steps' (leaf_hash D e)
        else fold (combine D) steps' (leaf_hash D e) @ h)) = D (0 # e')"
      by (cases side) (simp_all add: combine_eq leaf_hash_def)
    from inj_onD [OF Tip.prems(1) this] show ?thesis by (simp add: snoc s path_inputs_snoc)
  qed
next
  case (Branch l r)
  show ?case
  proof (cases steps rule: rev_cases)
    case Nil
    with Branch.prems(2) have "D (0 # e) = D (1 # tree_hash D l @ tree_hash D r)" by (simp add: leaf_hash_def node_hash_def)
    from inj_onD [OF Branch.prems(1) this] show ?thesis by simp
  next
    case (snoc steps' s)
    obtain side h where s: "s = (side, h)" by (cases s)
    let ?acc = "fold (combine D) steps' (leaf_hash D e)"
    have "D (1 # (if side = Left_side then h @ ?acc else ?acc @ h)) = D (1 # tree_hash D l @ tree_hash D r)"
      using Branch.prems(2) snoc s by (cases side) (simp_all add: combine_eq node_hash_def)
    from inj_onD [OF Branch.prems(1) this]
    have eq: "(if side = Left_side then h @ ?acc else ?acc @ h) = tree_hash D l @ tree_hash D r"
      by (simp add: snoc s path_inputs_snoc)
    have hash_len: "length (tree_hash D u) = 32" for u
      using len tree_hash_input [of D u] by (auto simp: digests32_def)
    have acc_len: "length ?acc = 32"
      using len by (intro fold_combine_length) (simp_all add: digests32_def leaf_hash_def)
    have sub: "inj_on D (tree_inputs D l \<union> insert (0 # e) (path_inputs D steps' (leaf_hash D e)))"
      "inj_on D (tree_inputs D r \<union> insert (0 # e) (path_inputs D steps' (leaf_hash D e)))"
      using Branch.prems(1) by (rule inj_on_subset; fastforce simp: snoc s path_inputs_snoc)+
    show ?thesis
    proof (cases side)
      case Left_side
      with eq have "?acc = tree_hash D r" using acc_len hash_len [of r] by simp
      from Branch.IH(2) [OF sub(2) this] show ?thesis by simp
    next
      case Right_side
      with eq have "?acc = tree_hash D l" using acc_len hash_len [of l] by simp
      from Branch.IH(1) [OF sub(1) this] show ?thesis by simp
    qed
  qed
qed

text \<open>C13: No proof verifies for an entry that is not under the root. Whatever steps a forged proof
  lists, of whatever length and with siblings of any size, if it verifies for the leaf hash of an entry
  against the root of some entries, the entry is one of them, unless SHA-256 collides on two of the
  byte strings hashed.\<close>

theorem inclusion_proof_sound:
  assumes "digests32 D"
    and "inj_on D (hashed_inputs D es \<union> insert (0x00 # e) (path_inputs D (ip_path p) (leaf_hash D e)))"
    and "verify_inclusion D (leaf_hash D e) p (merkle_root D (map (leaf_hash D) es))"
  shows "e \<in> set es"
proof (cases "es = []")
  case False
  with assms path_ends_in_tree [of D "rfc_tree es" e "ip_path p"] show ?thesis
    by (simp add: verify_inclusion_def merkle_root_tree hashed_inputs_def tree_entries_rfc)
next
  case True
  then have root: "fold (combine D) (ip_path p) (leaf_hash D e) = D []"
    using assms(3) by (simp add: verify_inclusion_def merkle_root_def)
  have "\<exists>b. b \<noteq> [] \<and> b \<in> insert (0 # e) (path_inputs D (ip_path p) (leaf_hash D e)) \<and>
      fold (combine D) (ip_path p) (leaf_hash D e) = D b"
  proof (cases "ip_path p" rule: rev_cases)
    case (snoc steps s)
    then show ?thesis by (cases s) (auto simp: path_inputs_snoc combine_eq)
  qed (simp add: leaf_hash_def)
  with root inj_onD [OF assms(2)] True show ?thesis by (fastforce simp: hashed_inputs_def)
qed

section \<open>Examples\<close>

text \<open>A digest of the right length that tells the examples apart: the sum of the bytes.\<close>

definition sum_digest :: hash32 where
  "sum_digest b = replicate 31 0 @ [sum_list b]"

lemma sum_digest_length [simp]: "digests32 sum_digest"
  by (simp add: digests32_def sum_digest_def)

lemma sum_digest_eq [simp]: "sum_digest a = sum_digest b \<longleftrightarrow> sum_list a = sum_list b"
  by (simp add: sum_digest_def)

lemma two_entries: "hashed_inputs sum_digest [[a], [b]] = {[0, a], [0, b], 1 # sum_digest [0, a] @ sum_digest [0, b]}"
  by (simp add: hashed_inputs_def rfc_tree.simps split_size.simps leaf_hash_def insert_commute)

theorem merkle_root_binds_witness:
  "merkle_root sum_digest (map (leaf_hash sum_digest) [[5], [9]]) \<noteq> merkle_root sum_digest (map (leaf_hash sum_digest) [[7], [11]])"
proof -
  have "inj_on sum_digest (hashed_inputs sum_digest [[5], [9]] \<union> hashed_inputs sum_digest [[7], [11]])"
    unfolding two_entries by (simp add: inj_on_def sum_digest_def sum_list_replicate)
  from merkle_root_binds [OF sum_digest_length this] show ?thesis by auto
qed

theorem inclusion_proof_verifies_witness:
  "\<exists>p. inclusion_proof sum_digest (map (leaf_hash sum_digest) [[5], [9], [2]]) 2 = Some p \<and> length (ip_path p) = 1 \<and>
     verify_inclusion sum_digest (leaf_hash sum_digest [2]) p (merkle_root sum_digest (map (leaf_hash sum_digest) [[5], [9], [2]]))"
proof -
  obtain p where p: "inclusion_proof sum_digest (map (leaf_hash sum_digest) [[5], [9], [2]]) 2 = Some p" "length (ip_path p) = 1"
    by (simp add: inclusion_proof_def climb_path.simps sibling_step_def)
  from inclusion_proof_verifies [OF p(1)] p show ?thesis by simp
qed

theorem inclusion_proof_sound_witness:
  "\<not> verify_inclusion sum_digest (leaf_hash sum_digest [7])
     \<lparr>ip_index = 0, ip_size = 2, ip_path = [(Right_side, leaf_hash sum_digest [9])]\<rparr>
     (merkle_root sum_digest (map (leaf_hash sum_digest) [[5], [9]]))"
proof -
  let ?p = "\<lparr>ip_index = 0, ip_size = 2, ip_path = [(Right_side, leaf_hash sum_digest [9])]\<rparr>"
  have "inj_on sum_digest (hashed_inputs sum_digest [[5], [9]] \<union>
      insert (0 # [7]) (path_inputs sum_digest (ip_path ?p) (leaf_hash sum_digest [7])))"
    unfolding two_entries by (simp add: inj_on_def sum_digest_def leaf_hash_def sum_list_replicate)
  from inclusion_proof_sound [OF sum_digest_length this] show ?thesis by auto
qed

end
