(* ===== verification/Checkpoint_Signing.thy ===== *)
theory Checkpoint_Signing
  imports Merkle_Properties Projection_Engine
begin

text \<open>
  Building, signing and verifying one audit checkpoint (\<open>apps/checkpoint/src/sign/\<close>).

  A sequence number is a PostgreSQL bigint, read as decimal text and never as a JavaScript number.
  SHA-256 is \<open>D\<close>; Ed25519 is a record of functions over abstract keys. \<open>Buffer\<close>'s hexadecimal and
  base64 are Node's, written out.
\<close>

section \<open>Texts of bytes\<close>

definition hex_text :: "bytes \<Rightarrow> string" where
  "hex_text b = concat (map (\<lambda>x. [hex_char (unat x div 16), hex_char (unat x mod 16)]) b)"

text \<open>SHA-256 as hexadecimal text, which the chain digest uses.\<close>

definition sha_text :: "hash32 \<Rightarrow> sha256" where
  "sha_text D b = hex_text (D b)"

text \<open>\<open>Buffer.from(s, 'hex')\<close>: pairs of digits of either case, up to the first that is none.\<close>

definition hex_nibble :: "char \<Rightarrow> nat option" where
  "hex_nibble c =
     (if c \<in> set ''0123456789'' then Some (of_char c - 48)
      else if c \<in> set ''abcdef'' then Some (of_char c - 87)
      else if c \<in> set ''ABCDEF'' then Some (of_char c - 55) else None)"

fun buffer_from_hex :: "string \<Rightarrow> bytes" where
  "buffer_from_hex (a # b # s) =
     (case (hex_nibble a, hex_nibble b) of
        (Some m, Some n) \<Rightarrow> word_of_nat (16 * m + n) # buffer_from_hex s
      | _ \<Rightarrow> [])"
| "buffer_from_hex _ = []"

definition BASE64 :: string where
  "BASE64 = ''ABCDEFGHIJKLMNOPQRSTUVWXYZabcdefghijklmnopqrstuvwxyz0123456789+/''"

definition base64_char :: "nat \<Rightarrow> char" where
  "base64_char n = BASE64 ! n"

definition base64_value :: "char \<Rightarrow> nat" where
  "base64_value c = nat (index_of c BASE64)"

fun base64_encode :: "bytes \<Rightarrow> string" where
  "base64_encode (a # b # c # rest) =
     base64_char (unat a div 4) # base64_char (unat a mod 4 * 16 + unat b div 16) #
     base64_char (unat b mod 16 * 4 + unat c div 64) # base64_char (unat c mod 64) # base64_encode rest"
| "base64_encode [a, b] =
     [base64_char (unat a div 4), base64_char (unat a mod 4 * 16 + unat b div 16),
      base64_char (unat b mod 16 * 4), CHR ''='']"
| "base64_encode [a] = [base64_char (unat a div 4), base64_char (unat a mod 4 * 16), CHR ''='', CHR ''='']"
| "base64_encode [] = []"

text \<open>\<open>Buffer.from(s, 'base64')\<close> of a text of base64 characters and final padding.\<close>

fun sextets_to_bytes :: "nat list \<Rightarrow> bytes" where
  "sextets_to_bytes (a # b # c # d # rest) =
     word_of_nat (a * 4 + b div 16) # word_of_nat (b mod 16 * 16 + c div 4) # word_of_nat (c mod 4 * 64 + d) #
     sextets_to_bytes rest"
| "sextets_to_bytes [a, b, c] = [word_of_nat (a * 4 + b div 16), word_of_nat (b mod 16 * 16 + c div 4)]"
| "sextets_to_bytes [a, b] = [word_of_nat (a * 4 + b div 16)]"
| "sextets_to_bytes _ = []"

definition base64_decode :: "string \<Rightarrow> bytes" where
  "base64_decode s = sextets_to_bytes (map base64_value (takeWhile (\<lambda>c. c \<noteq> CHR ''='') s))"

section \<open>Sequence numbers (\<open>sequences.ts\<close>)\<close>

datatype chain_break =
    Bad_predecessor string string
  | Unknown_link string
  | Link_regression string "string option"
  | Bad_link_digest string string

datatype checkpoint_error =
    Sequence_not_safe
  | Sequence_not_canonical
  | Legacy_not_safe
  | Legacy_exceeds_domain
  | Not_strictly_increasing
  | Unknown_checkpoint_format string
  | Verification_only_format
  | Empty_checkpoint
  | Bad_signing_key_id
  | Key_not_ed25519
  | Key_pair_mismatch
  | Chain_broken string chain_break
  | Not_in_range string
  | Index_outside
  | Uncanonical canon_error
  | Legacy_needs_migration string
  | Log_truncated string
  | Object_replaced string

datatype seq_input = Seq_text string | Seq_bigint int | Seq_number jnum

definition PG_BIGINT_MAX_DECIMAL :: string where
  "PG_BIGINT_MAX_DECIMAL = ''9223372036854775807''"

definition JS_SAFE_INTEGER_MAX_DECIMAL :: string where
  "JS_SAFE_INTEGER_MAX_DECIMAL = ''9007199254740991''"

text \<open>\<open>/^[1-9][0-9]*$/\<close>.\<close>

definition canonical_positive_decimal :: "string \<Rightarrow> bool" where
  "canonical_positive_decimal s \<longleftrightarrow> s \<noteq> [] \<and> list_all is_digit s \<and> hd s \<noteq> CHR ''0''"

text \<open>\<open>text > max\<close> of decimals: longer, or as long and greater character by character.\<close>

definition decimal_above :: "string \<Rightarrow> string \<Rightarrow> bool" where
  "decimal_above s limit \<longleftrightarrow> length s > length limit \<or> (length s = length limit \<and> s > limit)"

text \<open>\<open>/^[A-Za-z0-9][A-Za-z0-9._-]{0,127}$/\<close>.\<close>

definition ascii_alnum :: "char \<Rightarrow> bool" where
  "ascii_alnum c \<longleftrightarrow> c \<in> set (take 62 BASE64)"

definition is_signing_key_id :: "string \<Rightarrow> bool" where
  "is_signing_key_id s \<longleftrightarrow>
     (case s of
        [] \<Rightarrow> False
      | c # rest \<Rightarrow> ascii_alnum c \<and> length rest \<le> 127 \<and> list_all (\<lambda>x. ascii_alnum x \<or> x \<in> set ''._-'') rest)"

definition checkpoint_signing_key_id :: "string \<Rightarrow> checkpoint_error + string" where
  "checkpoint_signing_key_id s = (if is_signing_key_id s then Inr s else Inl Bad_signing_key_id)"

definition int_text :: "int \<Rightarrow> string" where
  "int_text i = (if i < 0 then ''-'' else []) @ dec (nat \<bar>i\<bar>)"

definition positive_safe :: "jnum \<Rightarrow> bool" where
  "positive_safe k \<longleftrightarrow> (case safe_integer k of None \<Rightarrow> False | Some i \<Rightarrow> 0 < i)"

definition audit_sequence :: "seq_input \<Rightarrow> checkpoint_error + string" where
  "audit_sequence v =
     bindE (case v of
              Seq_number k \<Rightarrow> if positive_safe k then Inr (num_text k) else Inl Sequence_not_safe
            | Seq_bigint i \<Rightarrow> Inr (int_text i)
            | Seq_text s \<Rightarrow> Inr s)
       (\<lambda>s. if canonical_positive_decimal s \<and> \<not> decimal_above s PG_BIGINT_MAX_DECIMAL then Inr s
             else Inl Sequence_not_canonical)"

text \<open>The number a legacy checkpoint wrote as JSON.\<close>

definition legacy_wire_number :: "seq_input \<Rightarrow> checkpoint_error + jnum" where
  "legacy_wire_number v =
     (case v of
        Seq_number k \<Rightarrow> if positive_safe k then Inr k else Inl Legacy_not_safe
      | _ \<Rightarrow>
          bindE (audit_sequence v) (\<lambda>s.
            if decimal_above s JS_SAFE_INTEGER_MAX_DECIMAL then Inl Legacy_exceeds_domain
            else Inr (integer_number (int (undec s)))))"

definition V1 :: string where "V1 = ''kf.audit-checkpoint.v1''"
definition V2 :: string where "V2 = ''kf.audit-checkpoint.v2''"
definition V3 :: string where "V3 = ''kf.audit-checkpoint.v3''"

definition is_checkpoint_format :: "string \<Rightarrow> bool" where
  "is_checkpoint_format f \<longleftrightarrow> f = V1 \<or> f = V2 \<or> f = V3"

text \<open>A sequence as the payload of a format writes it: exact text, or a JSON number.\<close>

definition wire_value :: "string \<Rightarrow> seq_input \<Rightarrow> checkpoint_error + jval" where
  "wire_value format v =
     (if format = V3 then bindE (audit_sequence v) (\<lambda>s. Inr (text_value s))
      else bindE (legacy_wire_number v) (\<lambda>k. Inr (JNum k)))"

section \<open>Entries and leaves (\<open>contracts.ts\<close>, \<open>chain.ts\<close>)\<close>

record checkpoint_entry =
  ce_seq :: string
  ce_id :: string
  ce_action_id :: string
  ce_actor :: string
  ce_role :: string
  ce_type :: string
  ce_object :: "string option"
  ce_objects :: "string list"
  ce_recorded :: string
  ce_effective :: string
  ce_request_id :: "string option"
  ce_reason :: "jstr option"
  ce_before :: "string option"
  ce_after :: "string option"
  ce_prev :: string
  ce_digest :: string
  ce_format :: string

definition sequence_number :: "checkpoint_entry \<Rightarrow> checkpoint_error + nat" where
  "sequence_number e = bindE (audit_sequence (Seq_text (ce_seq e))) (\<lambda>s. Inr (undec s))"

fun increasing_from :: "nat \<Rightarrow> checkpoint_entry list \<Rightarrow> checkpoint_error + unit" where
  "increasing_from previous [] = Inr ()"
| "increasing_from previous (e # es) =
     bindE (sequence_number e) (\<lambda>current.
       if current \<le> previous then Inl Not_strictly_increasing else increasing_from current es)"

definition assert_strictly_increasing :: "checkpoint_entry list \<Rightarrow> checkpoint_error + unit" where
  "assert_strictly_increasing entries = increasing_from 0 entries"

definition nullable_jstr :: "jstr option \<Rightarrow> jval" where
  "nullable_jstr x = (case x of None \<Rightarrow> JNull | Some s \<Rightarrow> JStr s)"

definition leaf_members :: "string \<Rightarrow> jval \<Rightarrow> checkpoint_entry \<Rightarrow> (jstr \<times> jval) list" where
  "leaf_members format seq e =
     (if format = V1
      then [(units ''seq'', seq), (units ''id'', text_value (ce_id e)), (units ''action_id'', text_value (ce_action_id e)),
            (units ''actor_id'', text_value (ce_actor e)), (units ''action_type'', text_value (ce_type e)),
            (units ''recorded_at'', text_value (ce_recorded e)), (units ''prev_digest'', text_value (ce_prev e)),
            (units ''digest'', text_value (ce_digest e))]
      else [(units ''seq'', seq), (units ''id'', text_value (ce_id e)), (units ''action_id'', text_value (ce_action_id e)),
            (units ''actor_id'', text_value (ce_actor e)), (units ''acting_role_id'', text_value (ce_role e)),
            (units ''action_type'', text_value (ce_type e)), (units ''object_id'', nullable_text (ce_object e)),
            (units ''object_ids'', text_list (ce_objects e)), (units ''recorded_at'', text_value (ce_recorded e)),
            (units ''effective_at'', text_value (ce_effective e)), (units ''request_id'', nullable_text (ce_request_id e)),
            (units ''reason'', nullable_jstr (ce_reason e)), (units ''before_digest'', nullable_text (ce_before e)),
            (units ''after_digest'', nullable_text (ce_after e)), (units ''prev_digest'', text_value (ce_prev e)),
            (units ''digest'', text_value (ce_digest e))])"

definition canonical_or :: "jval \<Rightarrow> checkpoint_error + bytes" where
  "canonical_or v = (case canonical_bytes v of Inl e \<Rightarrow> Inl (Uncanonical e) | Inr b \<Rightarrow> Inr b)"

definition leaf_bytes :: "checkpoint_entry \<Rightarrow> string \<Rightarrow> checkpoint_error + bytes" where
  "leaf_bytes e format =
     bindE (unlessE (is_checkpoint_format format) (Unknown_checkpoint_format format)) (\<lambda>_.
     bindE (wire_value format (Seq_text (ce_seq e))) (\<lambda>seq.
     canonical_or (JObj (leaf_members format seq e))))"

definition leaf_hashes :: "hash32 \<Rightarrow> string \<Rightarrow> checkpoint_entry list \<Rightarrow> checkpoint_error + bytes list" where
  "leaf_hashes D format entries = mapE (\<lambda>e. bindE (leaf_bytes e format) (\<lambda>b. Inr (leaf_hash D b))) entries"

section \<open>Walking the chain (\<open>chain.ts\<close>)\<close>

datatype chain_verdict = Chain_ok | Chain_fails string chain_break

definition chain_entry :: "checkpoint_entry \<Rightarrow> audit_entry" where
  "chain_entry e =
     \<lparr>action_id = ce_action_id e, action_type = ce_type e, actor_id = ce_actor e, acting_role_id = ce_role e,
      object_ids = ce_objects e, effective_at = ce_effective e, before_digest = ce_before e, after_digest = ce_after e\<rparr>"

fun walk_chain :: "sha256 \<Rightarrow> string \<Rightarrow> string option \<Rightarrow> checkpoint_entry list \<Rightarrow> checkpoint_error + chain_verdict" where
  "walk_chain H prev previous_format [] = Inr Chain_ok"
| "walk_chain H prev previous_format (e # es) =
     (if ce_prev e \<noteq> prev then Inr (Chain_fails (ce_seq e) (Bad_predecessor (ce_prev e) prev))
      else if \<not> is_audit_link_format (ce_format e) then Inr (Chain_fails (ce_seq e) (Unknown_link (ce_format e)))
      else if \<not> audit_link_format_may_follow previous_format (ce_format e)
      then Inr (Chain_fails (ce_seq e) (Link_regression (ce_format e) previous_format))
      else (case audit_chain_digest H prev (chain_entry e) (ce_format e) of
              Inl err \<Rightarrow> Inl (Uncanonical err)
            | Inr recomputed \<Rightarrow>
                if ce_digest e \<noteq> recomputed then Inr (Chain_fails (ce_seq e) (Bad_link_digest (ce_digest e) recomputed))
                else walk_chain H (ce_digest e) (Some (ce_format e)) es))"

definition verify_chain :: "sha256 \<Rightarrow> checkpoint_entry list \<Rightarrow> string \<Rightarrow> checkpoint_error + chain_verdict" where
  "verify_chain H entries expected = walk_chain H expected None entries"

definition require_chain :: "chain_verdict \<Rightarrow> checkpoint_error + unit" where
  "require_chain v = (case v of Chain_ok \<Rightarrow> Inr () | Chain_fails seq why \<Rightarrow> Inl (Chain_broken seq why))"

section \<open>Keys and signatures (\<open>keys.ts\<close>, \<open>signature-payload.ts\<close>)\<close>

text \<open>Node's Ed25519: signing, verifying and the public key of a private one.\<close>

record ('k, 'p) ed25519 =
  ed_sign :: "'k \<Rightarrow> bytes \<Rightarrow> bytes"
  ed_verify :: "'p \<Rightarrow> bytes \<Rightarrow> bytes \<Rightarrow> bool"
  ed_public :: "'k \<Rightarrow> 'p"

text \<open>A key pair; the flags are what the key objects say of their type and algorithm.\<close>

record ('k, 'p) signing_key =
  sk_id :: string
  sk_private :: 'k
  sk_private_ed25519 :: bool
  sk_public :: 'p
  sk_public_ed25519 :: bool

definition assert_ed25519_signing_key :: "('k, 'p) ed25519 \<Rightarrow> ('k, 'p) signing_key \<Rightarrow> checkpoint_error + unit" where
  "assert_ed25519_signing_key ed key =
     bindE (checkpoint_signing_key_id (sk_id key)) (\<lambda>_.
     bindE (unlessE (sk_private_ed25519 key \<and> sk_public_ed25519 key) Key_not_ed25519) (\<lambda>_.
     unlessE (ed_public ed (sk_private key) = sk_public key) Key_pair_mismatch))"

text \<open>\<open>/^[A-Za-z0-9+/]{86}==$/\<close>.\<close>

definition signature_shape :: "string \<Rightarrow> bool" where
  "signature_shape s \<longleftrightarrow> length s = 88 \<and> list_all (\<lambda>c. c \<in> set BASE64) (take 86 s) \<and> drop 86 s = ''==''"

definition canonical_ed25519_signature :: "string \<Rightarrow> bytes option" where
  "canonical_ed25519_signature s =
     (if \<not> signature_shape s then None
      else (let decoded = base64_decode s in
            if length decoded \<noteq> 64 \<or> base64_encode decoded \<noteq> s then None else Some decoded))"

record checkpoint =
  cp_format :: string
  cp_from :: seq_input
  cp_to :: seq_input
  cp_leaf_count :: seq_input
  cp_root :: string
  cp_key_id :: string
  cp_signature :: string

definition checkpoint_signature_payload :: "checkpoint \<Rightarrow> checkpoint_error + bytes" where
  "checkpoint_signature_payload cp =
     bindE (wire_value (cp_format cp) (cp_from cp)) (\<lambda>from_seq.
     bindE (wire_value (cp_format cp) (cp_to cp)) (\<lambda>to_seq.
     bindE (wire_value (cp_format cp) (cp_leaf_count cp)) (\<lambda>leaf_count.
     canonical_or (JObj
       ([(units ''from_seq'', from_seq), (units ''to_seq'', to_seq), (units ''leaf_count'', leaf_count),
         (units ''merkle_root'', text_value (cp_root cp)), (units ''signing_key_id'', text_value (cp_key_id cp))] @
        (if cp_format cp = V1 then [] else [(units ''format_version'', text_value (cp_format cp))]))))))"

section \<open>Building and verifying (\<open>checkpoint.ts\<close>, \<open>inclusion.ts\<close>)\<close>

definition build_checkpoint :: "hash32 \<Rightarrow> ('k, 'p) ed25519 \<Rightarrow> checkpoint_entry list \<Rightarrow> ('k, 'p) signing_key \<Rightarrow>
    string \<Rightarrow> string \<Rightarrow> checkpoint_error + checkpoint" where
  "build_checkpoint D ed entries key expected format =
     bindE (unlessE (format = V3) Verification_only_format) (\<lambda>_.
     bindE (unlessE (entries \<noteq> []) Empty_checkpoint) (\<lambda>_.
     bindE (assert_ed25519_signing_key ed key) (\<lambda>_.
     bindE (verify_chain (sha_text D) entries expected) (\<lambda>verdict.
     bindE (require_chain verdict) (\<lambda>_.
     bindE (assert_strictly_increasing entries) (\<lambda>_.
     bindE (leaf_hashes D format entries) (\<lambda>leaves.
     bindE (audit_sequence (Seq_text (ce_seq (hd entries)))) (\<lambda>from_seq.
     bindE (audit_sequence (Seq_text (ce_seq (last entries)))) (\<lambda>to_seq.
     (let unsigned = \<lparr>cp_format = format, cp_from = Seq_text from_seq, cp_to = Seq_text to_seq,
            cp_leaf_count = Seq_text (dec (length entries)), cp_root = hex_text (merkle_root D leaves),
            cp_key_id = sk_id key, cp_signature = []\<rparr> in
      bindE (checkpoint_signature_payload unsigned) (\<lambda>payload.
      Inr (unsigned\<lparr>cp_signature := base64_encode (ed_sign ed (sk_private key) payload)\<rparr>))))))))))))"

definition verify_checkpoint :: "('k, 'p) ed25519 \<Rightarrow> checkpoint \<Rightarrow> 'p \<Rightarrow> bool" where
  "verify_checkpoint ed cp public =
     (is_checkpoint_format (cp_format cp) \<and>
      (case canonical_ed25519_signature (cp_signature cp) of
         None \<Rightarrow> False
       | Some signature \<Rightarrow>
           (case checkpoint_signature_payload cp of
              Inl _ \<Rightarrow> False
            | Inr payload \<Rightarrow> ed_verify ed public payload signature)))"

fun find_sequence :: "string \<Rightarrow> nat \<Rightarrow> checkpoint_entry list \<Rightarrow> checkpoint_error + nat option" where
  "find_sequence wanted i [] = Inr None"
| "find_sequence wanted i (e # es) =
     bindE (audit_sequence (Seq_text (ce_seq e))) (\<lambda>s.
       if s = wanted then Inr (Some i) else find_sequence wanted (Suc i) es)"

definition prove_inclusion :: "hash32 \<Rightarrow> checkpoint_entry list \<Rightarrow> seq_input \<Rightarrow> string \<Rightarrow>
    checkpoint_error + inclusion_proof \<times> bytes" where
  "prove_inclusion D entries seq format =
     bindE (audit_sequence seq) (\<lambda>wanted.
     bindE (find_sequence wanted 0 entries) (\<lambda>found.
     (case found of
        None \<Rightarrow> Inl (Not_in_range wanted)
      | Some i \<Rightarrow>
          bindE (leaf_hashes D format entries) (\<lambda>leaves.
          (case inclusion_proof D leaves (int i) of
             None \<Rightarrow> Inl Index_outside
           | Some p \<Rightarrow> Inr (p, leaves ! i))))))"

definition check_inclusion :: "hash32 \<Rightarrow> bytes \<Rightarrow> inclusion_proof \<Rightarrow> string \<Rightarrow> bool" where
  "check_inclusion D leaf p root_hex = verify_inclusion D leaf p (buffer_from_hex root_hex)"

end
