(* ===== verification/Checkpoint_Texts.thy ===== *)
theory Checkpoint_Texts
  imports Checkpoint_Signing
begin

text \<open>
  The texts of a checkpoint: every signature has one text, hexadecimal roots are read back as
  written, and a sequence number is exact over the whole range of a PostgreSQL bigint.
\<close>

section \<open>Base64\<close>

fun sextets :: "bytes \<Rightarrow> nat list" where
  "sextets (a # b # c # rest) =
     unat a div 4 # (unat a mod 4 * 16 + unat b div 16) # (unat b mod 16 * 4 + unat c div 64) # unat c mod 64 # sextets rest"
| "sextets [a, b] = [unat a div 4, unat a mod 4 * 16 + unat b div 16, unat b mod 16 * 4]"
| "sextets [a] = [unat a div 4, unat a mod 4 * 16]"
| "sextets [] = []"

definition padding :: "bytes \<Rightarrow> string" where
  "padding b = replicate ((3 - length b mod 3) mod 3) CHR ''=''"

lemma base64_encode_sextets: "base64_encode b = map base64_char (sextets b) @ padding b"
proof (induction b rule: sextets.induct)
  case (1 a b c rest)
  have "padding (a # b # c # rest) = padding rest"
  proof -
    have "length (a # b # c # rest) = length rest + 3" by simp
    then show ?thesis by (simp only: padding_def mod_add_self2)
  qed
  with 1 show ?case by (simp only: base64_encode.simps sextets.simps list.map append.simps)
qed (simp_all add: padding_def numeral_2_eq_2)

lemma byte_bound: "unat (x :: 8 word) < 256"
  using unsigned_less [where 'a = nat, of x] by simp

lemma sextets_bound: "n \<in> set (sextets b) \<Longrightarrow> n < 64"
proof (induction b rule: sextets.induct)
  case (1 a b c rest)
  then show ?case using byte_bound [of a] byte_bound [of b] byte_bound [of c] by auto
next
  case (2 a b)
  then show ?case using byte_bound [of a] byte_bound [of b] by auto
next
  case (3 a)
  then show ?case using byte_bound [of a] by auto
qed simp

lemma base64_value_char: "n < 64 \<Longrightarrow> base64_value (base64_char n) = n"
proof -
  have "list_all (\<lambda>n. base64_value (base64_char n) = n) [0..<64]" by code_simp
  then show "n < 64 \<Longrightarrow> base64_value (base64_char n) = n" by (simp add: list_all_iff)
qed

lemma base64_char_in: "n < 64 \<Longrightarrow> base64_char n \<in> set BASE64"
proof -
  have "length BASE64 = 64" by code_simp
  then show "n < 64 \<Longrightarrow> base64_char n \<in> set BASE64" by (simp add: base64_char_def)
qed

lemma no_padding_in_base64: "CHR ''='' \<notin> set BASE64"
  by code_simp

lemma pack:
  fixes a b c :: nat
  assumes "b < 256" and "c < 256"
  shows "(a mod 4 * 16 + b div 16) div 16 = a mod 4" "(a mod 4 * 16 + b div 16) mod 16 = b div 16"
    "(b mod 16 * 4 + c div 64) div 4 = b mod 16" "(b mod 16 * 4 + c div 64) mod 4 = c div 64"
  using assms by simp_all

lemma sextets_to_bytes_sextets: "sextets_to_bytes (sextets b) = b"
proof (induction b rule: sextets.induct)
  case (1 a b c rest)
  then show ?case
    by (simp only: sextets.simps sextets_to_bytes.simps pack [OF byte_bound byte_bound] div_mult_mod_eq) simp
next
  case (2 a b)
  have "unat b mod 16 * 4 div 4 = unat b mod 16" by simp
  then show ?case
    by (simp only: sextets.simps sextets_to_bytes.simps pack [OF byte_bound byte_bound] div_mult_mod_eq) simp
next
  case (3 a)
  have "unat a mod 4 * 16 div 16 = unat a mod 4" by simp
  then show ?case by (simp only: sextets.simps sextets_to_bytes.simps div_mult_mod_eq) simp
qed simp

lemma base64_decode_encode: "base64_decode (base64_encode b) = b"
proof -
  have chars: "base64_char n \<noteq> CHR ''=''" if "n \<in> set (sextets b)" for n
    using base64_char_in [OF sextets_bound [OF that]] no_padding_in_base64 by metis
  then have "takeWhile (\<lambda>c. c \<noteq> CHR ''='') (map base64_char (sextets b) @ padding b) = map base64_char (sextets b)"
    by (subst takeWhile_append2) (auto simp: padding_def takeWhile_replicate)
  moreover have "map base64_value (map base64_char (sextets b)) = sextets b"
    using base64_value_char sextets_bound by (simp add: map_idI)
  ultimately show ?thesis by (simp only: base64_decode_def base64_encode_sextets sextets_to_bytes_sextets)
qed

lemma length_sextets: "length (sextets b) = (length b * 4 + 2) div 3"
  by (induction b rule: sextets.induct) auto

lemma signature_shape_encode:
  assumes "length b = 64"
  shows "signature_shape (base64_encode b)"
proof -
  have "length (sextets b) = 86" "padding b = ''==''" by (simp_all add: length_sextets padding_def assms numeral_2_eq_2)
  then show ?thesis
    using sextets_bound [of _ b] base64_char_in by (auto simp: signature_shape_def base64_encode_sextets list_all_iff)
qed

text \<open>C38: Every signature has exactly one text. A text is accepted as the base64 of an Ed25519 signature
  if and only if it is what Node writes for 64 bytes, and it is read as those bytes: no second text,
  with stray bits in its last character, verifies the same checkpoint.\<close>

theorem signature_text_canonical:
  "canonical_ed25519_signature s = Some b \<longleftrightarrow> length b = 64 \<and> s = base64_encode b"
  by (auto simp: canonical_ed25519_signature_def Let_def base64_decode_encode signature_shape_encode split: if_splits)

section \<open>Decimals\<close>

lemma foldl_digits: "foldl (\<lambda>acc c. 10 * acc + char_digit c) k s = k * 10 ^ length s + undec s"
proof (induction s arbitrary: k)
  case (Cons c s)
  from Cons.IH [of "10 * k + char_digit c"] Cons.IH [of "char_digit c"] show ?case
    by (simp add: undec_def algebra_simps)
qed (simp add: undec_def)

lemma undec_Cons: "undec (c # s) = char_digit c * 10 ^ length s + undec s"
  using foldl_digits [of "char_digit c" s] by (simp add: undec_def)

lemma undec_bound: "list_all is_digit s \<Longrightarrow> undec s < 10 ^ length s"
proof (induction s)
  case (Cons c s)
  then have "char_digit c * 10 ^ length s \<le> 9 * 10 ^ length s"
    using char_digit_less [of c] by (intro mult_le_mono1) simp
  moreover have "undec s < 10 ^ length s" using Cons by simp
  ultimately show ?case unfolding undec_Cons list.size by (simp only: add_0_right add_Suc_right power_Suc)
qed (simp add: undec_def)

lemma digit_order: "is_digit c \<Longrightarrow> is_digit d \<Longrightarrow> c < d \<longleftrightarrow> char_digit c < char_digit d"
  by (auto simp: less_char_def is_digit_def char_digit_def)

lemma digit_eq: "is_digit c \<Longrightarrow> is_digit d \<Longrightarrow> char_digit c = char_digit d \<longleftrightarrow> c = d"
  by (metis digit_char_char_digit)

lemma decimal_order:
  "length s = length t \<Longrightarrow> list_all is_digit s \<Longrightarrow> list_all is_digit t \<Longrightarrow> s < t \<longleftrightarrow> undec s < undec t"
proof (induction s t rule: list_induct2)
  case (Cons c s d t)
  have bounds: "undec s < 10 ^ length s" "undec t < 10 ^ length s"
    using undec_bound [of s] undec_bound [of t] Cons by simp_all
  have gap: "char_digit x * 10 ^ length s + 10 ^ length s \<le> char_digit y * 10 ^ length s" if "char_digit x < char_digit y" for x y
    using that mult_le_mono1 [of "Suc (char_digit x)" "char_digit y" "10 ^ length s"] by simp
  consider "char_digit c < char_digit d" | "char_digit d < char_digit c" | "c = d"
    using digit_eq [of c d] Cons by fastforce
  then show ?case
  proof cases
    case 1
    then show ?thesis using gap [OF 1] bounds Cons by (simp add: undec_Cons digit_order)
  next
    case 2
    then have "\<not> c < d \<and> c \<noteq> d" using Cons digit_order [of c d] by auto
    then show ?thesis using gap [OF 2] bounds Cons by (simp add: undec_Cons)
  next
    case 3
    then show ?thesis using Cons by (simp add: undec_Cons)
  qed
qed simp

lemma undec_lower: "canonical_positive_decimal s \<Longrightarrow> 10 ^ (length s - 1) \<le> undec s"
proof (cases s)
  case (Cons c t)
  assume "canonical_positive_decimal s"
  with Cons have "is_digit c" "c \<noteq> CHR ''0''" by (simp_all add: canonical_positive_decimal_def)
  then have "1 \<le> char_digit c" using digit_eq [of c "CHR ''0''"] by (cases "char_digit c") (auto simp: is_digit_def char_digit_def)
  then have "1 * 10 ^ length t \<le> char_digit c * 10 ^ length t" by (rule mult_le_mono1)
  then have "10 ^ length t \<le> undec s" unfolding Cons undec_Cons by linarith
  with Cons show ?thesis by simp
qed (simp add: canonical_positive_decimal_def)

lemma undec_positive: "canonical_positive_decimal s \<Longrightarrow> 0 < undec s"
  by (rule less_le_trans [OF _ undec_lower]) simp_all

lemma canonical_dec: "0 < n \<Longrightarrow> canonical_positive_decimal (dec n)"
  using dec_digits hd_dec by (auto simp: canonical_positive_decimal_def list_all_iff)

lemma undec_length: "canonical_positive_decimal s \<Longrightarrow> length (dec (undec s)) = length s"
proof -
  assume s: "canonical_positive_decimal s"
  then have digits: "list_all is_digit s" and ne: "s \<noteq> []" by (simp_all add: canonical_positive_decimal_def)
  let ?n = "undec s"
  have n: "10 ^ (length s - 1) \<le> ?n" "?n < 10 ^ length s" using undec_lower [OF s] undec_bound [OF digits] by simp_all
  moreover have d: "canonical_positive_decimal (dec ?n)" using undec_positive [OF s] by (rule canonical_dec)
  then have "10 ^ (length (dec ?n) - 1) \<le> ?n" "?n < 10 ^ length (dec ?n)"
    using undec_lower [OF d] undec_bound [of "dec ?n"] by (simp_all add: canonical_positive_decimal_def)
  ultimately have "10 ^ (length s - 1) < (10 :: nat) ^ length (dec ?n)" "10 ^ (length (dec ?n) - 1) < (10 :: nat) ^ length s"
    by linarith+
  then have "length s - 1 < length (dec ?n)" "length (dec ?n) - 1 < length s" by simp_all
  with ne show ?thesis by (simp add: le_less_Suc_eq less_Suc_eq)
qed

lemma dec_undec: "canonical_positive_decimal s \<Longrightarrow> dec (undec s) = s"
proof -
  assume s: "canonical_positive_decimal s"
  then have digits: "list_all is_digit s" by (simp add: canonical_positive_decimal_def)
  have "list_all is_digit (dec (undec s))" using dec_digits by (simp add: list_all_iff)
  with decimal_order [of "dec (undec s)" s] decimal_order [of s "dec (undec s)"] undec_length [OF s] digits show ?thesis
    by simp
qed

lemma decimal_above_iff:
  assumes "canonical_positive_decimal s" and "canonical_positive_decimal t"
  shows "decimal_above s t \<longleftrightarrow> undec t < undec s"
proof -
  have digits: "list_all is_digit s" "list_all is_digit t" using assms by (simp_all add: canonical_positive_decimal_def)
  have longer: "undec x < undec y" if "length x < length y" "canonical_positive_decimal x" "canonical_positive_decimal y" for x y
  proof -
    have "undec x < 10 ^ length x" using that(2) undec_bound by (simp add: canonical_positive_decimal_def)
    also have "(10 :: nat) ^ length x \<le> 10 ^ (length y - 1)" using that(1) by (intro power_increasing) auto
    also have "\<dots> \<le> undec y" using undec_lower [OF that(3)] .
    finally show ?thesis .
  qed
  consider "length t < length s" | "length s < length t" | "length s = length t" by linarith
  then show ?thesis
  proof cases
    case 1
    with longer assms show ?thesis by (simp add: decimal_above_def)
  next
    case 2
    with longer [of s t] assms show ?thesis by (simp add: decimal_above_def)
  next
    case 3
    with decimal_order [of t s] digits show ?thesis by (simp add: decimal_above_def)
  qed
qed

lemma undec_literals: "undec PG_BIGINT_MAX_DECIMAL = 2 ^ 63 - 1" "canonical_positive_decimal PG_BIGINT_MAX_DECIMAL"
    "undec JS_SAFE_INTEGER_MAX_DECIMAL = 2 ^ 53 - 1" "canonical_positive_decimal JS_SAFE_INTEGER_MAX_DECIMAL"
  by (simp_all add: PG_BIGINT_MAX_DECIMAL_def JS_SAFE_INTEGER_MAX_DECIMAL_def undec_def char_digit_def
      canonical_positive_decimal_def is_digit_def)

text \<open>C37: A sequence number is exact over the whole range of a PostgreSQL bigint. The texts
  \<open>auditSequence\<close> accepts are the decimals of 1 to \<open>2 ^ 63 - 1\<close>, each in its one canonical form, and it
  returns them unchanged; comparing the texts with the limit character by character is comparing
  the numbers, so nothing is rounded through a JavaScript number.\<close>

theorem audit_sequence_exact:
  "audit_sequence (Seq_text s) = Inr t \<longleftrightarrow> t = s \<and> s = dec (undec s) \<and> 1 \<le> undec s \<and> undec s \<le> 2 ^ 63 - 1"
proof
  assume "audit_sequence (Seq_text s) = Inr t"
  then have t: "t = s" and s: "canonical_positive_decimal s" "\<not> decimal_above s PG_BIGINT_MAX_DECIMAL"
    by (simp_all add: audit_sequence_def split: if_splits)
  have "1 \<le> undec s" using undec_positive [OF s(1)] by simp
  with t s show "t = s \<and> s = dec (undec s) \<and> 1 \<le> undec s \<and> undec s \<le> 2 ^ 63 - 1"
    using dec_undec [OF s(1)] by (simp add: decimal_above_iff undec_literals)
next
  assume s: "t = s \<and> s = dec (undec s) \<and> 1 \<le> undec s \<and> undec s \<le> 2 ^ 63 - 1"
  then have "canonical_positive_decimal s" using canonical_dec [of "undec s"] by simp
  with s show "audit_sequence (Seq_text s) = Inr t"
    by (simp add: audit_sequence_def decimal_above_iff undec_literals)
qed

end
