(* ===== verification/Checkpoint_Ledger.thy ===== *)
theory Checkpoint_Ledger
  imports Checkpoint_Texts
begin

text \<open>
  The checkpoint process over the database (\<open>apps/checkpoint/src/run/\<close>): reading events, signing what
  no checkpoint covers yet, and verifying the whole ledger against the checkpoints.

  A row of the events query carries the event, the targets of its action and times as ISO texts. The
  database is a record: the events, the checkpoints and, beside it, the object store. The advisory lock
  makes a run one step. A run that fails rolls the rows back and leaves the object it may have put.
\<close>

section \<open>Rows (\<open>contracts.ts\<close>, \<open>events.ts\<close>)\<close>

record raw_event =
  re_seq :: int
  re_id :: string
  re_action_id :: string
  re_actor :: string
  re_role :: string
  re_type :: string
  re_object :: "string option"
  re_objects :: "string list"
  re_recorded :: string
  re_effective :: string
  re_request_id :: "string option"
  re_reason :: "jstr option"
  re_before :: "string option"
  re_after :: "string option"
  re_prev :: string
  re_digest :: string
  re_format :: string

definition to_entry :: "raw_event \<Rightarrow> checkpoint_error + checkpoint_entry" where
  "to_entry r = bindE (audit_sequence (Seq_text (int_text (re_seq r)))) (\<lambda>seq. Inr
     \<lparr>ce_seq = seq, ce_id = re_id r, ce_action_id = re_action_id r, ce_actor = re_actor r, ce_role = re_role r,
      ce_type = re_type r, ce_object = re_object r, ce_objects = re_objects r, ce_recorded = re_recorded r,
      ce_effective = re_effective r, ce_request_id = re_request_id r, ce_reason = re_reason r,
      ce_before = re_before r, ce_after = re_after r, ce_prev = re_prev r, ce_digest = re_digest r,
      ce_format = re_format r\<rparr>)"

text \<open>The binary search both bounds are: the first position whose element is not below.\<close>

function first_not :: "('a \<Rightarrow> bool) \<Rightarrow> 'a list \<Rightarrow> nat \<Rightarrow> nat \<Rightarrow> nat" where
  "first_not below xs low high =
     (if low < high
      then (let middle = low + (high - low) div 2 in
            if below (xs ! middle) then first_not below xs (middle + 1) high else first_not below xs low middle)
      else low)"
  by pat_completeness auto
termination first_not
  by (relation "measure (\<lambda>(below, xs, low, high). high - low)") auto

declare first_not.simps [simp del]

definition lower_bound :: "nat list \<Rightarrow> nat \<Rightarrow> nat" where
  "lower_bound seqs target = first_not (\<lambda>s. s < target) seqs 0 (length seqs)"

definition upper_bound :: "nat list \<Rightarrow> nat \<Rightarrow> nat" where
  "upper_bound seqs target = first_not (\<lambda>s. s \<le> target) seqs 0 (length seqs)"

section \<open>Checkpoint rows and findings\<close>

record checkpoint_row =
  cr_id :: string
  cr_from :: int
  cr_to :: int
  cr_leaf_count :: int
  cr_root :: string
  cr_signature :: string
  cr_key_id :: string
  cr_format :: string
  cr_uri :: "string option"

datatype ledger_finding =
    Chain_is_broken string chain_break
  | Unsupported_legacy_range string string string
  | Gap nat nat nat string
  | Overlap string string string nat string
  | Missing_events string string int string
  | Root_mismatch string string string string
  | Unknown_key string string string
  | Bad_signature string string string

definition JS_SAFE_INTEGER_MAX :: nat where
  "JS_SAFE_INTEGER_MAX = 9007199254740991"

section \<open>Verifying the ledger (\<open>ledger.ts\<close>)\<close>

definition stored_checkpoint :: "checkpoint_row \<Rightarrow> string \<Rightarrow> string \<Rightarrow> string \<Rightarrow> checkpoint" where
  "stored_checkpoint row from_seq to_seq leaf_count =
     \<lparr>cp_format = cr_format row, cp_from = Seq_text from_seq, cp_to = Seq_text to_seq,
      cp_leaf_count = Seq_text leaf_count, cp_root = cr_root row, cp_key_id = cr_key_id row,
      cp_signature = cr_signature row\<rparr>"

definition key_findings :: "('k, 'p) ed25519 \<Rightarrow> (string \<rightharpoonup> 'p) \<Rightarrow> checkpoint_row \<Rightarrow> string \<Rightarrow> string \<Rightarrow> string \<Rightarrow>
    ledger_finding list" where
  "key_findings ed keys row from_seq to_seq leaf_count =
     (case keys (cr_key_id row) of
        None \<Rightarrow> [Unknown_key (cr_id row) (cr_key_id row) from_seq]
      | Some public \<Rightarrow>
          if verify_checkpoint ed (stored_checkpoint row from_seq to_seq leaf_count) public then []
          else [Bad_signature (cr_id row) (cr_key_id row) from_seq])"

text \<open>What the events say of one checkpoint, and how far the checkpoints so far reach.\<close>

definition range_findings :: "nat list \<Rightarrow> checkpoint_entry list \<Rightarrow> nat \<Rightarrow> checkpoint_row \<Rightarrow> string \<Rightarrow> string \<Rightarrow> string \<Rightarrow>
    ledger_finding list" where
  "range_findings seqs entries covered row from_seq to_seq leaf_count =
     (let uncovered_start = upper_bound seqs covered;
          uncovered_count = lower_bound seqs (undec from_seq) - uncovered_start;
          range_length = int (upper_bound seqs (undec to_seq)) - int (lower_bound seqs (undec from_seq)) in
      (if 0 < uncovered_count
       then [Gap uncovered_count (covered + 1) (undec from_seq - 1) (ce_seq (entries ! uncovered_start))] else []) @
      (if undec from_seq \<le> covered then [Overlap (cr_id row) from_seq to_seq covered from_seq] else []) @
      (if range_length \<noteq> int (undec leaf_count)
       then [Missing_events (cr_id row) leaf_count range_length from_seq] else []))"

definition check_row :: "hash32 \<Rightarrow> ('k, 'p) ed25519 \<Rightarrow> (string \<rightharpoonup> 'p) \<Rightarrow> nat list \<Rightarrow> checkpoint_entry list \<Rightarrow> nat \<Rightarrow>
    checkpoint_row \<Rightarrow> checkpoint_error + ledger_finding list \<times> nat" where
  "check_row D ed keys seqs entries covered row =
     bindE (audit_sequence (Seq_text (int_text (cr_from row)))) (\<lambda>from_seq.
     bindE (audit_sequence (Seq_text (int_text (cr_to row)))) (\<lambda>to_seq.
     bindE (audit_sequence (Seq_text (int_text (cr_leaf_count row)))) (\<lambda>leaf_count.
     if cr_format row \<noteq> V3 \<and> (JS_SAFE_INTEGER_MAX < undec from_seq \<or> JS_SAFE_INTEGER_MAX < undec to_seq \<or>
          JS_SAFE_INTEGER_MAX < undec leaf_count)
     then Inr ([Unsupported_legacy_range (cr_id row) (cr_format row) from_seq], covered)
     else (let first = lower_bound seqs (undec from_seq); beyond = upper_bound seqs (undec to_seq) in
       bindE (leaf_hashes D (cr_format row) (take (beyond - first) (drop first entries))) (\<lambda>leaves.
       (let recomputed = hex_text (merkle_root D leaves) in
        Inr (range_findings seqs entries covered row from_seq to_seq leaf_count @
             (if recomputed \<noteq> cr_root row then [Root_mismatch (cr_id row) (cr_root row) recomputed from_seq] else []) @
             key_findings ed keys row from_seq to_seq leaf_count,
             max covered (undec to_seq))))))))"

fun check_rows :: "hash32 \<Rightarrow> ('k, 'p) ed25519 \<Rightarrow> (string \<rightharpoonup> 'p) \<Rightarrow> nat list \<Rightarrow> checkpoint_entry list \<Rightarrow> nat \<Rightarrow>
    checkpoint_row list \<Rightarrow> checkpoint_error + ledger_finding list" where
  "check_rows D ed keys seqs entries covered [] = Inr []"
| "check_rows D ed keys seqs entries covered (row # rows) =
     bindE (check_row D ed keys seqs entries covered row) (\<lambda>(found, covered').
     bindE (check_rows D ed keys seqs entries covered' rows) (\<lambda>rest. Inr (found @ rest)))"

record audit_world =
  aw_events :: "raw_event list"
  aw_checkpoints :: "checkpoint_row list"
  aw_store :: "string \<rightharpoonup> bytes"

definition verify_ledger :: "hash32 \<Rightarrow> ('k, 'p) ed25519 \<Rightarrow> (string \<rightharpoonup> 'p) \<Rightarrow> audit_world \<Rightarrow>
    checkpoint_error + ledger_finding list" where
  "verify_ledger D ed keys w =
     bindE (mapE to_entry (sort_key re_seq (aw_events w))) (\<lambda>entries.
     bindE (verify_chain (sha_text D) entries genesis_digest) (\<lambda>verdict.
     bindE (check_rows D ed keys (map (\<lambda>e. undec (ce_seq e)) entries) entries 0 (sort_key cr_from (aw_checkpoints w)))
       (\<lambda>found. Inr ((case verdict of Chain_ok \<Rightarrow> [] | Chain_fails seq why \<Rightarrow> [Chain_is_broken seq why]) @ found))))"

section \<open>Signing what is pending (\<open>latest.ts\<close>, \<open>runner.ts\<close>)\<close>

definition latest_checkpoint :: "audit_world \<Rightarrow> checkpoint_error + (string \<times> string) option" where
  "latest_checkpoint w =
     (if aw_checkpoints w = [] then Inr None
      else (let row = last (sort_key cr_to (aw_checkpoints w)) in
        bindE (audit_sequence (Seq_text (int_text (cr_to row)))) (\<lambda>to_seq.
        if cr_format row \<noteq> V3 \<and> JS_SAFE_INTEGER_MAX < undec to_seq then Inl (Legacy_needs_migration to_seq)
        else (case find (\<lambda>e. re_seq e = int (undec to_seq)) (aw_events w) of
                None \<Rightarrow> Inl (Log_truncated to_seq)
              | Some e \<Rightarrow> Inr (Some (to_seq, re_digest e))))))"

definition NEWLINE :: jstr where
  "NEWLINE = [0x0A]"

definition quoted_units :: "string \<Rightarrow> jstr" where
  "quoted_units s = quote (units s)"

definition seq_text :: "seq_input \<Rightarrow> string" where
  "seq_text v = (case v of Seq_text s \<Rightarrow> s | Seq_bigint i \<Rightarrow> int_text i | Seq_number k \<Rightarrow> num_text k)"

text \<open>\<open>JSON.stringify(signed, null, 2)\<close> and a line end, of the seven texts of a v3 checkpoint.\<close>

definition checkpoint_body :: "checkpoint \<Rightarrow> bytes" where
  "checkpoint_body cp = utf8
     (units ''{'' @ NEWLINE @
      join_with (units '','' @ NEWLINE)
        (map (\<lambda>(k, v). units ''  '' @ quoted_units k @ units '': '' @ quoted_units v)
          [(''formatVersion'', cp_format cp), (''fromSeq'', seq_text (cp_from cp)), (''toSeq'', seq_text (cp_to cp)),
           (''leafCount'', seq_text (cp_leaf_count cp)), (''merkleRoot'', cp_root cp),
           (''signingKeyId'', cp_key_id cp), (''signature'', cp_signature cp)]) @
      NEWLINE @ units ''}'' @ NEWLINE)"

definition object_key :: "checkpoint \<Rightarrow> string" where
  "object_key cp = ''audit/checkpoints/'' @ pad_start 12 (seq_text (cp_from cp)) @ ''-'' @
     pad_start 12 (seq_text (cp_to cp)) @ ''.json''"

definition put_if_absent :: "string \<Rightarrow> bytes \<Rightarrow> (string \<rightharpoonup> bytes) \<Rightarrow> (string \<rightharpoonup> bytes)" where
  "put_if_absent key body store = (if store key = None then store(key \<mapsto> body) else store)"

datatype run_result = Nothing_pending nat | Signed checkpoint_row nat

datatype run_error = Run_refused checkpoint_error | Commit_failed

definition inserted_row :: "checkpoint \<Rightarrow> string \<Rightarrow> string option \<Rightarrow> checkpoint_row" where
  "inserted_row cp new_id uri =
     \<lparr>cr_id = new_id, cr_from = int (undec (seq_text (cp_from cp))), cr_to = int (undec (seq_text (cp_to cp))),
      cr_leaf_count = int (undec (seq_text (cp_leaf_count cp))), cr_root = cp_root cp, cr_signature = cp_signature cp,
      cr_key_id = cp_key_id cp, cr_format = cp_format cp, cr_uri = uri\<rparr>"

text \<open>The checkpoint a run would sign now: \<open>None\<close> when too little is pending.\<close>

definition pending_checkpoint :: "hash32 \<Rightarrow> ('k, 'p) ed25519 \<Rightarrow> ('k, 'p) signing_key \<Rightarrow> nat \<Rightarrow> audit_world \<Rightarrow>
    checkpoint_error + checkpoint option \<times> nat" where
  "pending_checkpoint D ed key min_events w =
     bindE (latest_checkpoint w) (\<lambda>latest.
     (let after = (case latest of None \<Rightarrow> 0 | Some (to_seq, _) \<Rightarrow> undec to_seq);
          expected = (case latest of None \<Rightarrow> genesis_digest | Some (_, digest) \<Rightarrow> digest) in
      bindE (mapE to_entry (sort_key re_seq (filter (\<lambda>e. int after < re_seq e) (aw_events w)))) (\<lambda>entries.
      if length entries < min_events then Inr (None, length entries)
      else bindE (verify_chain (sha_text D) entries expected) (\<lambda>verdict.
           bindE (require_chain verdict) (\<lambda>_.
           bindE (build_checkpoint D ed entries key expected V3) (\<lambda>sealed.
           Inr (Some sealed, length entries)))))))"

text \<open>\<open>store\<close>: whether an object store is given; \<open>commits\<close>: whether the commit at the end succeeds.\<close>

definition run_checkpoint :: "hash32 \<Rightarrow> ('k, 'p) ed25519 \<Rightarrow> ('k, 'p) signing_key \<Rightarrow> nat \<Rightarrow> bool \<Rightarrow> string \<Rightarrow> bool \<Rightarrow>
    audit_world \<Rightarrow> (run_error + run_result) \<times> audit_world" where
  "run_checkpoint D ed key min_events store new_id commits w =
     (case pending_checkpoint D ed key min_events w of
        Inl e \<Rightarrow> (Inl (Run_refused e), w)
      | Inr (None, n) \<Rightarrow> (if commits then Inr (Nothing_pending n) else Inl Commit_failed, w)
      | Inr (Some sealed, n) \<Rightarrow>
          (let row = inserted_row sealed new_id (if store then Some (object_key sealed) else None);
               objects = (if store then put_if_absent (object_key sealed) (checkpoint_body sealed) (aw_store w)
                          else aw_store w) in
           if store \<and> objects (object_key sealed) \<noteq> Some (checkpoint_body sealed)
           then (Inl (Run_refused (Object_replaced (object_key sealed))), w)
           else if commits
           then (Inr (Signed row n), w\<lparr>aw_checkpoints := aw_checkpoints w @ [row], aw_store := objects\<rparr>)
           else (Inl Commit_failed, w\<lparr>aw_store := objects\<rparr>)))"

end
