(* ===== verification/Checkpoint_Leaves.thy ===== *)
theory Checkpoint_Leaves
  imports Checkpoint_Ledger
begin

text \<open>
  What the leaves of a checkpoint commit to, the ranges of a ledger and the binary search over it.
\<close>

section \<open>Leaves\<close>

lemma same_object_member:
  assumes "denote (JObj ps) [] = Inr (DObj ms)" "denote (JObj qs) [] = Inr (DObj ms)"
    and "distinct (map fst ps)" "distinct (map fst qs)"
    and "units ''toJSON'' \<notin> fst ` set ps" "units ''toJSON'' \<notin> fst ` set qs"
    and "map_of ps k = Some v" "map_of qs k = Some w" "v \<noteq> JUndefined" "w \<noteq> JUndefined"
  shows "denote v (member_path [] k) = denote w (member_path [] k)"
proof -
  have plain: "map_of ps (units ''toJSON'') \<noteq> Some (JFunction x)" "map_of qs (units ''toJSON'') \<noteq> Some (JFunction x)" for x
    using assms(5,6) by (metis map_of_eq_None_iff option.distinct(1))+
  obtain d e where "denote v (member_path [] k) = Inr d" "denote w (member_path [] k) = Inr e"
    using denote_object_defined [OF assms(1) plain(1) assms(7,9)] denote_object_defined [OF assms(2) plain(2) assms(8,10)] by blast
  moreover from this have "map_of ms k = Some d" "map_of ms k = Some e"
    using denote_object_lookup [OF assms(1,3) plain(1) assms(7,9)] denote_object_lookup [OF assms(2,4) plain(2) assms(8,10)]
    by blast+
  ultimately show ?thesis by simp
qed

lemma nullable_jstr_fine: "dense (nullable_jstr x)" "shortest (nullable_jstr x)" "nullable_jstr x \<noteq> JUndefined"
  by (simp_all add: nullable_jstr_def split: option.splits)

lemmas leaf_members_V3 = leaf_members_def [where format = V3, unfolded V1_def V3_def, simplified, folded V3_def]

lemma leaf_members_fine:
  "dense (JObj (leaf_members V3 (text_value s) e))" "shortest (JObj (leaf_members V3 (text_value s) e))"
  by (simp_all add: leaf_members_V3 nullable_jstr_fine)

lemma leaf_members_keys: "distinct (map fst (leaf_members V3 seq e))" "units ''toJSON'' \<notin> fst ` set (leaf_members V3 seq e)"
  by (simp_all add: leaf_members_V3)

lemma denote_nullable_jstr_inject:
  "denote (nullable_jstr x) p = denote (nullable_jstr y) p \<Longrightarrow> denote (nullable_jstr x) p = Inr d \<Longrightarrow> x = y"
  by (auto simp: nullable_jstr_def bindE_eq_Inr split: option.splits)

lemma leaf_bytes_V3: "leaf_bytes e V3 = Inr b \<longleftrightarrow>
    audit_sequence (Seq_text (ce_seq e)) = Inr (ce_seq e) \<and> canonical_bytes (JObj (leaf_members V3 (text_value (ce_seq e)) e)) = Inr b"
proof (cases "audit_sequence (Seq_text (ce_seq e))")
  case (Inr t)
  then have "t = ce_seq e" using audit_sequence_exact by blast
  with Inr show ?thesis
    by (auto simp: leaf_bytes_def is_checkpoint_format_def wire_value_def bindE_eq_Inr canonical_or_def split: sum.splits)
qed (auto simp: leaf_bytes_def is_checkpoint_format_def wire_value_def bindE_eq_Inr)

text \<open>An entry without the format of its link, which is no field of a leaf.\<close>

definition committed :: "checkpoint_entry \<Rightarrow> checkpoint_entry" where
  "committed e = e\<lparr>ce_format := []\<rparr>"

lemma leaf_bytes_inject:
  assumes "leaf_bytes e V3 = Inr b" and "leaf_bytes e' V3 = Inr b"
  shows "committed e = committed e'"
proof -
  let ?ps = "leaf_members V3 (text_value (ce_seq e)) e" and ?qs = "leaf_members V3 (text_value (ce_seq e')) e'"
  obtain d where d: "denote (JObj ?ps) [] = Inr d" "denote (JObj ?qs) [] = Inr d"
    using canonical_bytes_inject [OF leaf_members_fine leaf_members_fine] assms unfolding leaf_bytes_V3 by blast
  moreover have "map_of ?ps (units ''toJSON'') = None"
    using leaf_members_keys(2) by (simp add: map_of_eq_None_iff)
  ultimately obtain ms where ms: "d = DObj ms" by (auto simp: bindE_eq_Inr split: option.splits jval.splits)
  note same = same_object_member [OF d [unfolded ms] leaf_members_keys(1) leaf_members_keys(1) leaf_members_keys(2) leaf_members_keys(2)]
  have texts: "s = t" if "map_of ?ps (units k) = Some (text_value s)" "map_of ?qs (units k) = Some (text_value t)" for k s t
    using same [OF that] by simp
  have nulls: "x = y" if "map_of ?ps (units k) = Some (nullable_text x)" "map_of ?qs (units k) = Some (nullable_text y)" for k x y
    using same [OF that] by (simp add: nullable_inject)
  have lists: "xs = ys" if "map_of ?ps (units k) = Some (text_list xs)" "map_of ?qs (units k) = Some (text_list ys)" for k xs ys
    using same [OF that] by (simp add: string_list_units_inject)
  have reason: "ce_reason e = ce_reason e'"
  proof (rule denote_nullable_jstr_inject)
    have look: "map_of (leaf_members V3 seq x) (units ''reason'') = Some (nullable_jstr (ce_reason x))" for seq x
      by (simp add: leaf_members_V3)
    show "denote (nullable_jstr (ce_reason e)) (member_path [] (units ''reason'')) =
        denote (nullable_jstr (ce_reason e')) (member_path [] (units ''reason''))"
      by (rule same [OF look look nullable_jstr_fine(3) nullable_jstr_fine(3)])
    have "map_of ?ps (units ''toJSON'') \<noteq> Some (JFunction v)" for v
      using leaf_members_keys(2) by (metis map_of_eq_None_iff option.distinct(1))
    from denote_object_defined [OF d(1) [unfolded ms] this look nullable_jstr_fine(3)]
    show "denote (nullable_jstr (ce_reason e)) (member_path [] (units ''reason'')) =
        Inr (SOME x. denote (nullable_jstr (ce_reason e)) (member_path [] (units ''reason'')) = Inr x)"
      by (rule someI_ex)
  qed
  have "ce_seq e = ce_seq e'" by (rule texts [of "''seq''"]) (simp_all add: leaf_members_V3)
  moreover have "ce_id e = ce_id e'" by (rule texts [of "''id''"]) (simp_all add: leaf_members_V3)
  moreover have "ce_action_id e = ce_action_id e'" by (rule texts [of "''action_id''"]) (simp_all add: leaf_members_V3)
  moreover have "ce_actor e = ce_actor e'" by (rule texts [of "''actor_id''"]) (simp_all add: leaf_members_V3)
  moreover have "ce_role e = ce_role e'" by (rule texts [of "''acting_role_id''"]) (simp_all add: leaf_members_V3)
  moreover have "ce_type e = ce_type e'" by (rule texts [of "''action_type''"]) (simp_all add: leaf_members_V3)
  moreover have "ce_object e = ce_object e'" by (rule nulls [of "''object_id''"]) (simp_all add: leaf_members_V3)
  moreover have "ce_objects e = ce_objects e'" by (rule lists [of "''object_ids''"]) (simp_all add: leaf_members_V3)
  moreover have "ce_recorded e = ce_recorded e'" by (rule texts [of "''recorded_at''"]) (simp_all add: leaf_members_V3)
  moreover have "ce_effective e = ce_effective e'" by (rule texts [of "''effective_at''"]) (simp_all add: leaf_members_V3)
  moreover have "ce_request_id e = ce_request_id e'" by (rule nulls [of "''request_id''"]) (simp_all add: leaf_members_V3)
  moreover have "ce_before e = ce_before e'" by (rule nulls [of "''before_digest''"]) (simp_all add: leaf_members_V3)
  moreover have "ce_after e = ce_after e'" by (rule nulls [of "''after_digest''"]) (simp_all add: leaf_members_V3)
  moreover have "ce_prev e = ce_prev e'" by (rule texts [of "''prev_digest''"]) (simp_all add: leaf_members_V3)
  moreover have "ce_digest e = ce_digest e'" by (rule texts [of "''digest''"]) (simp_all add: leaf_members_V3)
  ultimately show ?thesis using reason by (simp add: committed_def)
qed

section \<open>Hexadecimal\<close>

lemma hex_nibble_char: "n < 16 \<Longrightarrow> hex_nibble (hex_char n) = Some n"
proof -
  have "list_all (\<lambda>n. hex_nibble (hex_char n) = Some n) [0..<16]" by code_simp
  then show "n < 16 \<Longrightarrow> hex_nibble (hex_char n) = Some n" by (simp add: list_all_iff)
qed

lemma buffer_from_hex_text [simp]: "buffer_from_hex (hex_text b) = b"
proof (induction b)
  case (Cons x b)
  have "unat x div 16 < 16" using byte_bound [of x] by simp
  then have "buffer_from_hex (hex_text (x # b)) = word_of_nat (16 * (unat x div 16) + unat x mod 16) # buffer_from_hex (hex_text b)"
    by (simp add: hex_text_def hex_nibble_char)
  also have "16 * (unat x div 16) + unat x mod 16 = unat x" by simp
  finally show ?case using Cons by simp
qed (simp add: hex_text_def)

lemma hex_text_inject [simp]: "hex_text a = hex_text b \<longleftrightarrow> a = b"
  by (metis buffer_from_hex_text)

lemma hex_digests_sha_text: "digests32 D \<Longrightarrow> hex_digests (sha_text D)"
proof -
  have "is_hex (hex_char n)" if "n < 16" for n
  proof -
    have "list_all (\<lambda>n. is_hex (hex_char n)) [0..<16]" by code_simp
    with that show ?thesis by (simp add: list_all_iff)
  qed
  moreover have "unat (x :: 8 word) div 16 < 16" for x using byte_bound [of x] by simp
  ultimately have "list_all is_hex (hex_text b)" for b by (auto simp: hex_text_def list_all_iff)
  moreover have "length (hex_text b) = 2 * length b" for b by (induction b) (simp_all add: hex_text_def)
  ultimately show "digests32 D \<Longrightarrow> hex_digests (sha_text D)"
    by (simp add: digests32_def hex_digests_def hex64_def sha_text_def)
qed

section \<open>The binary search\<close>

definition downward :: "('a \<Rightarrow> bool) \<Rightarrow> 'a list \<Rightarrow> bool" where
  "downward below xs \<longleftrightarrow> (\<forall>j<length xs. below (xs ! j) \<longrightarrow> (\<forall>i\<le>j. below (xs ! i)))"

lemma downwardD: "downward below xs \<Longrightarrow> i \<le> j \<Longrightarrow> j < length xs \<Longrightarrow> below (xs ! j) \<Longrightarrow> below (xs ! i)"
  by (auto simp: downward_def)

lemma first_not_correct:
  assumes "downward below xs"
  shows "low \<le> high \<Longrightarrow> high \<le> length xs \<Longrightarrow> (\<forall>i<low. below (xs ! i)) \<Longrightarrow>
    (\<forall>i. high \<le> i \<and> i < length xs \<longrightarrow> \<not> below (xs ! i)) \<Longrightarrow>
    first_not below xs low high \<le> length xs \<and> (\<forall>i<first_not below xs low high. below (xs ! i)) \<and>
    (\<forall>i. first_not below xs low high \<le> i \<and> i < length xs \<longrightarrow> \<not> below (xs ! i))"
  using assms
proof (induction below xs low high rule: first_not.induct)
  case (1 below xs low high)
  let ?middle = "low + (high - low) div 2"
  show ?case
  proof (cases "low < high")
    case True
    then have middle: "?middle < high" "low \<le> ?middle" by auto
    show ?thesis
    proof (cases "below (xs ! ?middle)")
      case below: True
      have "first_not below xs low high = first_not below xs (?middle + 1) high"
        using True below by (subst first_not.simps) (simp add: Let_def)
      moreover have "\<forall>i<?middle + 1. below (xs ! i)"
      proof (intro allI impI)
        fix i assume "i < ?middle + 1"
        then have "i \<le> ?middle" by simp
        moreover have "?middle < length xs" using middle "1.prems"(2) by linarith
        ultimately show "below (xs ! i)" using downwardD [OF "1.prems"(5)] below by blast
      qed
      moreover have "?middle + 1 \<le> high" using middle by linarith
      ultimately show ?thesis
        using "1.IH"(1) [OF True refl below _ "1.prems"(2) _ "1.prems"(4,5)] by metis
    next
      case False
      have "first_not below xs low high = first_not below xs low ?middle"
        using True False by (subst first_not.simps) (simp add: Let_def)
      moreover have "\<forall>i. ?middle \<le> i \<and> i < length xs \<longrightarrow> \<not> below (xs ! i)"
        using downwardD [OF "1.prems"(5), of ?middle] False by blast
      moreover have "?middle \<le> length xs" using middle "1.prems"(2) by linarith
      ultimately show ?thesis
        using "1.IH"(2) [OF True refl False middle(2) _ "1.prems"(3) _ "1.prems"(5)] by metis
    qed
  next
    case False
    then have "first_not below xs low high = low" by (subst first_not.simps) simp
    with False "1.prems"(1-4) show ?thesis by auto
  qed
qed

lemma first_not_takeWhile:
  assumes "downward below xs"
  shows "first_not below xs 0 (length xs) = length (takeWhile below xs)"
proof -
  obtain n where n: "n = first_not below xs 0 (length xs)" by simp
  have c: "n \<le> length xs \<and> (\<forall>i<n. below (xs ! i)) \<and> (\<forall>i. n \<le> i \<and> i < length xs \<longrightarrow> \<not> below (xs ! i))"
    unfolding n by (rule first_not_correct [OF assms]) auto
  have "takeWhile below xs = take n xs"
    by (rule takeWhile_eq_take_P_nth) (use c in blast)+
  then have "length (takeWhile below xs) = n" using c by (simp only: length_take) linarith
  then show ?thesis by (simp only: n)
qed

lemma lower_bound_sorted: "sorted seqs \<Longrightarrow> lower_bound seqs t = length (takeWhile (\<lambda>s. s < t) seqs)"
  unfolding lower_bound_def
  by (rule first_not_takeWhile) (auto simp: downward_def dest: sorted_nth_mono intro: order_le_less_trans)

lemma upper_bound_sorted: "sorted seqs \<Longrightarrow> upper_bound seqs t = length (takeWhile (\<lambda>s. s \<le> t) seqs)"
  unfolding upper_bound_def
  by (rule first_not_takeWhile) (auto simp: downward_def dest: sorted_nth_mono intro: order_trans)

lemma takeWhile_sorted: "sorted (map f es) \<Longrightarrow> (\<And>x y. f x \<le> f y \<Longrightarrow> P y \<Longrightarrow> P x) \<Longrightarrow> takeWhile P es = filter P es"
proof (induction es)
  case (Cons e es)
  then have "\<forall>x\<in>set es. P x \<longrightarrow> P e" by auto
  then have "\<not> P e \<Longrightarrow> filter P es = []" by (auto simp: filter_empty_conv)
  with Cons show ?case by auto
qed simp

text \<open>What a range selects: the entries whose sequence lies in it.\<close>

lemma range_between:
  assumes "sorted (map f es)"
  shows "take (upper_bound (map f es) b - lower_bound (map f es) a) (drop (lower_bound (map f es) a) es) =
    filter (\<lambda>e. a \<le> f e \<and> f e \<le> b) es"
proof -
  have low: "lower_bound (map f es) a = length (takeWhile (\<lambda>e. f e < a) es)"
    and up: "upper_bound (map f es) b = length (takeWhile (\<lambda>e. f e \<le> b) es)"
    using assms by (simp_all add: lower_bound_sorted upper_bound_sorted takeWhile_map o_def)
  have below: "takeWhile (\<lambda>e. f e < a) es = filter (\<lambda>e. f e < a) es"
    using assms by (rule takeWhile_sorted) simp
  have upto: "takeWhile (\<lambda>e. f e \<le> b) es = filter (\<lambda>e. f e \<le> b) es"
    using assms by (rule takeWhile_sorted) simp
  have "take (length (filter (\<lambda>e. f e \<le> b) es) - length (filter (\<lambda>e. f e < a) es)) (drop (length (filter (\<lambda>e. f e < a) es)) es) =
      filter (\<lambda>e. a \<le> f e \<and> f e \<le> b) es"
    using assms
  proof (induction es)
    case (Cons e es)
    then have IH: "take (length (filter (\<lambda>e. f e \<le> b) es) - length (filter (\<lambda>e. f e < a) es)) (drop (length (filter (\<lambda>e. f e < a) es)) es) =
        filter (\<lambda>e. a \<le> f e \<and> f e \<le> b) es" and greater: "\<forall>x\<in>set es. f e \<le> f x" by auto
    consider "f e < a" "f e \<le> b" | "f e < a" "b < f e" | "a \<le> f e" "f e \<le> b" | "a \<le> f e" "b < f e" by linarith
    then show ?case
    proof cases
      case 1
      then show ?thesis using IH by simp
    next
      case 2
      then have "filter (\<lambda>e. f e \<le> b) es = []" "filter (\<lambda>e. a \<le> f e \<and> f e \<le> b) es = []"
        using greater by (auto simp: filter_empty_conv)
      with 2 show ?thesis by simp
    next
      case 3
      then have "filter (\<lambda>e. f e < a) es = []" using greater by (auto simp: filter_empty_conv)
      with 3 IH show ?thesis by simp
    next
      case 4
      then have "filter (\<lambda>e. f e \<le> b) es = []" "filter (\<lambda>e. a \<le> f e \<and> f e \<le> b) es = []"
        using greater by (auto simp: filter_empty_conv)
      with 4 show ?thesis by simp
    qed
  qed simp
  then show ?thesis unfolding low up below upto .
qed

end
