(* ===== verification/Checkpoint_Properties.thy ===== *)
theory Checkpoint_Properties
  imports Checkpoint_Leaves
begin

text \<open>
  What checkpoints promise: signed history cannot change without a finding.
\<close>

section \<open>Entries and leaves of rows\<close>

definition entry_of :: "raw_event \<Rightarrow> checkpoint_entry" where
  "entry_of r =
     \<lparr>ce_seq = dec (nat (re_seq r)), ce_id = re_id r, ce_action_id = re_action_id r, ce_actor = re_actor r, ce_role = re_role r,
      ce_type = re_type r, ce_object = re_object r, ce_objects = re_objects r, ce_recorded = re_recorded r,
      ce_effective = re_effective r, ce_request_id = re_request_id r, ce_reason = re_reason r,
      ce_before = re_before r, ce_after = re_after r, ce_prev = re_prev r, ce_digest = re_digest r,
      ce_format = re_format r\<rparr>"

lemma entry_of_seq [simp]: "ce_seq (entry_of r) = dec (nat (re_seq r))" "ce_digest (entry_of r) = re_digest r"
    "ce_format (entry_of r) = re_format r"
  by (simp_all add: entry_of_def)

abbreviation bigint_positive :: "int \<Rightarrow> bool" where
  "bigint_positive i \<equiv> 1 \<le> i \<and> i \<le> 2 ^ 63 - 1"

lemma int_text_nat: "0 \<le> i \<Longrightarrow> int_text i = dec (nat i)"
  by (simp add: int_text_def)

lemma audit_sequence_int: "audit_sequence (Seq_text (int_text i)) = Inr s \<longleftrightarrow> bigint_positive i \<and> s = dec (nat i)"
proof (cases "0 \<le> i")
  case True
  then have "1 \<le> nat i \<and> nat i \<le> 2 ^ 63 - 1 \<longleftrightarrow> bigint_positive i" by (auto simp: nat_le_iff le_nat_iff)
  with True show ?thesis unfolding audit_sequence_exact int_text_nat [OF True] undec_dec by blast
next
  case False
  then have "hd (int_text i) = CHR ''-''" by (simp add: int_text_def)
  moreover have "hd (dec n) \<noteq> CHR ''-''" for n
    using dec_digits [of "hd (dec n)" n] hd_in_set [OF dec_not_Nil] by (auto simp: is_digit_def)
  ultimately have "int_text i \<noteq> dec n" for n by metis
  with False show ?thesis unfolding audit_sequence_exact by auto
qed

lemma to_entry_Inr: "to_entry r = Inr e \<longleftrightarrow> bigint_positive (re_seq r) \<and> e = entry_of r"
  by (auto simp: to_entry_def bindE_eq_Inr audit_sequence_int entry_of_def)

lemma mapE_to_entry: "mapE to_entry rs = Inr es \<longleftrightarrow> (\<forall>r\<in>set rs. bigint_positive (re_seq r)) \<and> es = map entry_of rs"
  by (induction rs arbitrary: es) (auto simp: bindE_eq_Inr to_entry_Inr)

text \<open>The bytes of the leaves over some entries.\<close>

definition leaf_list :: "checkpoint_entry list \<Rightarrow> bytes list" where
  "leaf_list entries = map (\<lambda>e. projr (leaf_bytes e V3)) entries"

lemma leaf_hashes_V3: "leaf_hashes D V3 entries = Inr hs \<longleftrightarrow>
    list_all (\<lambda>e. \<exists>b. leaf_bytes e V3 = Inr b) entries \<and> hs = map (leaf_hash D) (leaf_list entries)"
proof -
  have "leaf_hashes D V3 entries = Inr hs \<longleftrightarrow>
      list_all2 (\<lambda>e h. \<exists>b. leaf_bytes e V3 = Inr b \<and> leaf_hash D b = h) entries hs"
    by (simp add: leaf_hashes_def mapE_eq_Inr bindE_eq_Inr)
  also have "\<dots> \<longleftrightarrow> list_all (\<lambda>e. \<exists>b. leaf_bytes e V3 = Inr b) entries \<and> hs = map (leaf_hash D) (leaf_list entries)"
    by (induction entries arbitrary: hs) (auto simp: leaf_list_def list_all2_Cons1)
  finally show ?thesis .
qed

lemma leaf_list_inject:
  "list_all (\<lambda>e. \<exists>b. leaf_bytes e V3 = Inr b) xs \<Longrightarrow> list_all (\<lambda>e. \<exists>b. leaf_bytes e V3 = Inr b) ys \<Longrightarrow>
   leaf_list xs = leaf_list ys \<Longrightarrow> map committed xs = map committed ys"
proof (induction xs arbitrary: ys)
  case (Cons x xs)
  then obtain y ys' where ys: "ys = y # ys'" by (cases ys) (auto simp: leaf_list_def)
  with Cons.prems obtain b where "leaf_bytes x V3 = Inr b" "leaf_bytes y V3 = Inr b" by (auto simp: leaf_list_def)
  then have "committed x = committed y" by (rule leaf_bytes_inject)
  with Cons ys show ?case by (simp add: leaf_list_def)
qed (simp add: leaf_list_def)

section \<open>Tamper evidence\<close>

lemma check_rows_member:
  "check_rows D ed keys seqs entries covered rows = Inr [] \<Longrightarrow> row \<in> set rows \<Longrightarrow>
   \<exists>c c'. check_row D ed keys seqs entries c row = Inr ([], c')"
  by (induction rows arbitrary: covered) (fastforce simp: bindE_eq_Inr)+

lemma build_checkpoint_Inr:
  assumes "build_checkpoint D ed entries key expected format = Inr cp"
  shows "format = V3 \<and> entries \<noteq> [] \<and> assert_ed25519_signing_key ed key = Inr () \<and>
    (\<exists>hs payload. leaf_hashes D V3 entries = Inr hs \<and> checkpoint_signature_payload (cp\<lparr>cp_signature := []\<rparr>) = Inr payload \<and>
       cp = \<lparr>cp_format = V3, cp_from = Seq_text (ce_seq (hd entries)), cp_to = Seq_text (ce_seq (last entries)),
             cp_leaf_count = Seq_text (dec (length entries)), cp_root = hex_text (merkle_root D hs), cp_key_id = sk_id key,
             cp_signature = base64_encode (ed_sign ed (sk_private key) payload)\<rparr>) \<and>
    audit_sequence (Seq_text (ce_seq (hd entries))) = Inr (ce_seq (hd entries)) \<and>
    audit_sequence (Seq_text (ce_seq (last entries))) = Inr (ce_seq (last entries))"
proof -
  have seq: "audit_sequence (Seq_text s) = Inr t \<Longrightarrow> t = s" for s t using audit_sequence_exact by blast
  from assms show ?thesis
    unfolding build_checkpoint_def bindE_eq_Inr Let_def unlessE_eq_Inr by (auto dest: seq)
qed

definition covered_events :: "audit_world \<Rightarrow> checkpoint_row \<Rightarrow> raw_event list" where
  "covered_events w row = filter (\<lambda>e. cr_from row \<le> re_seq e \<and> re_seq e \<le> cr_to row) (sort_key re_seq (aw_events w))"

lemma verified_range:
  assumes "verify_ledger D ed keys w = Inr []" and "row \<in> set (aw_checkpoints w)" and "cr_format row = V3"
  shows "\<exists>hs. leaf_hashes D V3 (map entry_of (covered_events w row)) = Inr hs \<and> cr_root row = hex_text (merkle_root D hs)"
proof -
  let ?events = "sort_key re_seq (aw_events w)"
  let ?entries = "map entry_of ?events" and ?seqs = "map (\<lambda>e. undec (ce_seq e)) (map entry_of ?events)"
  from assms(1) have positive: "\<forall>r\<in>set ?events. bigint_positive (re_seq r)"
    and rows: "check_rows D ed keys ?seqs ?entries 0 (sort_key cr_from (aw_checkpoints w)) = Inr []"
    by (auto simp: verify_ledger_def bindE_eq_Inr mapE_to_entry)
  then obtain c c' where row: "check_row D ed keys ?seqs ?entries c row = Inr ([], c')"
    using check_rows_member [OF rows] assms(2) unfolding set_sort by blast
  have sorted: "sorted (map (\<lambda>e. nat (re_seq e)) ?events)"
    using sorted_sort_key [of re_seq "aw_events w"] unfolding sorted_map
    by (rule sorted_wrt_mono_rel [rotated]) (rule nat_mono)
  have range: "take (upper_bound ?seqs b - lower_bound ?seqs a) (drop (lower_bound ?seqs a) ?entries) =
      map entry_of (filter (\<lambda>e. a \<le> nat (re_seq e) \<and> nat (re_seq e) \<le> b) ?events)" for a b
    using range_between [OF sorted, of b a] by (simp add: take_map drop_map o_def)
  from row assms(3) obtain hs where bounds: "bigint_positive (cr_from row)" "bigint_positive (cr_to row)"
    and hs: "leaf_hashes D V3 (take (upper_bound ?seqs (nat (cr_to row)) - lower_bound ?seqs (nat (cr_from row)))
        (drop (lower_bound ?seqs (nat (cr_from row))) ?entries)) = Inr hs" "hex_text (merkle_root D hs) = cr_root row"
    unfolding check_row_def bindE_eq_Inr audit_sequence_int Let_def by (auto simp: bindE_eq_Inr split: if_splits)
  have "filter (\<lambda>e. nat (cr_from row) \<le> nat (re_seq e) \<and> nat (re_seq e) \<le> nat (cr_to row)) ?events = covered_events w row"
    unfolding covered_events_def using positive bounds by (intro filter_cong) auto
  with hs range show ?thesis by auto
qed

text \<open>C8: Signed history cannot change unnoticed. If a ledger verifies without a finding and holds the row
  of a checkpoint that was built over some entries, then the events it has in that checkpoint's range
  are those entries: as many, in the same order and equal in every field, the format of the link
  apart, unless SHA-256 collides on two of the byte strings hashed. No signature has to be trusted for
  this beyond the row itself.\<close>

theorem signed_history_unchanged:
  assumes clean: "verify_ledger D ed keys w = Inr []" and row: "inserted_row cp i uri \<in> set (aw_checkpoints w)"
    and built: "build_checkpoint D ed entries key expected V3 = Inr cp"
    and D: "digests32 D"
      "inj_on D (hashed_inputs D (leaf_list (map entry_of (covered_events w (inserted_row cp i uri)))) \<union> hashed_inputs D (leaf_list entries))"
  shows "map (committed \<circ> entry_of) (covered_events w (inserted_row cp i uri)) = map committed entries"
proof -
  let ?now = "map entry_of (covered_events w (inserted_row cp i uri))"
  obtain hs where hs: "leaf_hashes D V3 entries = Inr hs" "cp_root cp = hex_text (merkle_root D hs)" "cp_format cp = V3"
    using build_checkpoint_Inr [OF built] by auto
  obtain hs' where hs': "leaf_hashes D V3 ?now = Inr hs'" "cp_root cp = hex_text (merkle_root D hs')"
    using verified_range [OF clean row] hs(3) by (auto simp: inserted_row_def)
  have "merkle_root D (map (leaf_hash D) (leaf_list ?now)) = merkle_root D (map (leaf_hash D) (leaf_list entries))"
    using hs hs' by (simp add: leaf_hashes_V3)
  from merkle_root_binds [OF D this] have "leaf_list ?now = leaf_list entries" .
  with hs(1) hs'(1) have "map committed ?now = map committed entries"
    by (intro leaf_list_inject) (simp_all add: leaf_hashes_V3)
  then show ?thesis by simp
qed

end
