(* ===== verification/Checkpoint_Progress.thy ===== *)
theory Checkpoint_Progress
  imports Checkpoint_Properties Canonical_Total
begin

text \<open>
  Ledgers that only grow. Events are appended in the order of their sequence, each linked to the last;
  checkpoint runs come in between, with any key whose public half is kept, with or without an object
  store, committed or not. Such a ledger verifies without a finding, and a run leaves nothing pending.
\<close>

section \<open>Growth\<close>

definition ed25519_correct :: "('k, 'p) ed25519 \<Rightarrow> bool" where
  "ed25519_correct ed \<longleftrightarrow>
     (\<forall>k m. length (ed_sign ed k m) = 64 \<and> ed_verify ed (ed_public ed k) m (ed_sign ed k m))"

definition end_digest :: "raw_event list \<Rightarrow> string" where
  "end_digest events = (if events = [] then genesis_digest else re_digest (last events))"

definition end_format :: "raw_event list \<Rightarrow> string option" where
  "end_format events = (if events = [] then None else Some (re_format (last events)))"

definition may_append :: "hash32 \<Rightarrow> audit_world \<Rightarrow> raw_event \<Rightarrow> bool" where
  "may_append D w e \<longleftrightarrow>
     (\<forall>x\<in>set (aw_events w). re_seq x < re_seq e) \<and> bigint_positive (re_seq e) \<and>
     walk_chain (sha_text D) (end_digest (aw_events w)) (end_format (aw_events w)) [entry_of e] = Inr Chain_ok"

inductive grown :: "hash32 \<Rightarrow> ('k, 'p) ed25519 \<Rightarrow> (string \<rightharpoonup> 'p) \<Rightarrow> audit_world \<Rightarrow> bool" for D ed keys where
  start: "grown D ed keys \<lparr>aw_events = [], aw_checkpoints = [], aw_store = Map.empty\<rparr>"
| append: "grown D ed keys w \<Longrightarrow> may_append D w e \<Longrightarrow> grown D ed keys (w\<lparr>aw_events := aw_events w @ [e]\<rparr>)"
| run: "grown D ed keys w \<Longrightarrow> keys (sk_id key) = Some (sk_public key) \<Longrightarrow>
    grown D ed keys (snd (run_checkpoint D ed key min_events store i commits w))"

section \<open>The invariant\<close>

text \<open>A row and the run of events it signs.\<close>

definition row_signs :: "hash32 \<Rightarrow> ('k, 'p) ed25519 \<Rightarrow> (string \<rightharpoonup> 'p) \<Rightarrow> checkpoint_row \<Rightarrow> raw_event list \<Rightarrow> bool" where
  "row_signs D ed keys row seg \<longleftrightarrow>
     seg \<noteq> [] \<and> cr_format row = V3 \<and> cr_from row = re_seq (hd seg) \<and> cr_to row = re_seq (last seg) \<and>
     cr_leaf_count row = int (length seg) \<and> bigint_positive (cr_leaf_count row) \<and>
     (\<exists>hs. leaf_hashes D V3 (map entry_of seg) = Inr hs \<and> cr_root row = hex_text (merkle_root D hs)) \<and>
     key_findings ed keys row (dec (nat (cr_from row))) (dec (nat (cr_to row))) (dec (nat (cr_leaf_count row))) = []"

definition ordered_events :: "raw_event list \<Rightarrow> bool" where
  "ordered_events events \<longleftrightarrow> sorted_wrt (<) (map re_seq events) \<and> (\<forall>e\<in>set events. bigint_positive (re_seq e))"

definition ledger_inv :: "hash32 \<Rightarrow> ('k, 'p) ed25519 \<Rightarrow> (string \<rightharpoonup> 'p) \<Rightarrow> audit_world \<Rightarrow> raw_event list list \<Rightarrow> raw_event list \<Rightarrow> bool" where
  "ledger_inv D ed keys w segs rest \<longleftrightarrow>
     aw_events w = concat segs @ rest \<and> ordered_events (aw_events w) \<and>
     walk_chain (sha_text D) genesis_digest None (map entry_of (aw_events w)) = Inr Chain_ok \<and>
     list_all2 (row_signs D ed keys) (aw_checkpoints w) segs"

lemma walk_chain_append:
  "walk_chain H p f (xs @ ys) = Inr Chain_ok \<longleftrightarrow>
     walk_chain H p f xs = Inr Chain_ok \<and>
     walk_chain H (if xs = [] then p else ce_digest (last xs)) (if xs = [] then f else Some (ce_format (last xs))) ys = Inr Chain_ok"
  by (induction xs arbitrary: p f) (auto split: sum.splits if_splits)

lemma ordered_events_append:
  "ordered_events (xs @ ys) \<longleftrightarrow> ordered_events xs \<and> ordered_events ys \<and> (\<forall>x\<in>set xs. \<forall>y\<in>set ys. re_seq x < re_seq y)"
  by (auto simp: ordered_events_def sorted_wrt_append)

lemma sorted_events: "ordered_events events \<Longrightarrow> sort_key re_seq events = events"
  by (rule sort_key_id_if_sorted) (simp add: ordered_events_def strict_sorted_imp_sorted)

lemma append_keeps:
  assumes inv: "ledger_inv D ed keys w segs rest" and e: "may_append D w e"
  shows "ledger_inv D ed keys (w\<lparr>aw_events := aw_events w @ [e]\<rparr>) segs (rest @ [e])"
proof -
  have ord: "ordered_events (aw_events w)" and chain: "walk_chain (sha_text D) genesis_digest None (map entry_of (aw_events w)) = Inr Chain_ok"
    and rest: "aw_events w = concat segs @ rest" "list_all2 (row_signs D ed keys) (aw_checkpoints w) segs"
    using inv unfolding ledger_inv_def by blast+
  have "ordered_events [e]" "\<forall>x\<in>set (aw_events w). re_seq x < re_seq e"
    using e by (simp_all add: may_append_def ordered_events_def)
  with ord have "ordered_events (aw_events w @ [e])" unfolding ordered_events_append by simp
  moreover have "walk_chain (sha_text D) genesis_digest None (map entry_of (aw_events w) @ [entry_of e]) = Inr Chain_ok"
    using chain e unfolding walk_chain_append may_append_def end_digest_def end_format_def
    by (cases "aw_events w = []") (simp_all only: list.map last_map entry_of_seq map_is_Nil_conv if_True if_False simp_thms)
  ultimately show ?thesis using rest by (simp add: ledger_inv_def)
qed

section \<open>A ledger in the invariant verifies\<close>

lemma takeWhile_at: "(\<And>x. x \<in> set A \<Longrightarrow> P x) \<Longrightarrow> (\<And>x. x \<in> set B \<Longrightarrow> \<not> P x) \<Longrightarrow> takeWhile P (A @ B) = A"
  by (cases B) (auto simp: takeWhile_append)

lemma bounds_at:
  assumes "sorted (A @ B)"
  shows "(\<And>x. x \<in> set A \<Longrightarrow> x < t) \<Longrightarrow> (\<And>x. x \<in> set B \<Longrightarrow> t \<le> x) \<Longrightarrow> lower_bound (A @ B) t = length A"
    and "(\<And>x. x \<in> set A \<Longrightarrow> x \<le> t) \<Longrightarrow> (\<And>x. x \<in> set B \<Longrightarrow> t < x) \<Longrightarrow> upper_bound (A @ B) t = length A"
  unfolding lower_bound_sorted [OF assms] upper_bound_sorted [OF assms] by (subst takeWhile_at; force)+

abbreviation seq_of :: "raw_event \<Rightarrow> nat" where
  "seq_of e \<equiv> nat (re_seq e)"

lemma ordered_sorted: "ordered_events events \<Longrightarrow> sorted (map seq_of events)"
  by (auto simp: ordered_events_def sorted_wrt_map sorted_map intro: sorted_wrt_mono_rel [rotated])

lemma ordered_ends: "ordered_events seg \<Longrightarrow> e \<in> set seg \<Longrightarrow> re_seq (hd seg) \<le> re_seq e \<and> re_seq e \<le> re_seq (last seg)"
proof (induction seg)
  case (Cons x seg)
  then have "ordered_events seg" "\<forall>y\<in>set seg. re_seq x < re_seq y" by (simp_all add: ordered_events_def)
  with Cons show ?case using last_in_set [of seg] by (cases "seg = []") (auto simp: less_imp_le)
qed simp

text \<open>One row whose events stand between those before and those after.\<close>

lemma check_row_signed:
  assumes events: "ordered_events (pre @ seg @ post)" and row: "row_signs D ed keys row seg"
    and covered: "covered = (if pre = [] then 0 else nat (re_seq (last pre)))"
  shows "check_row D ed keys (map seq_of (pre @ seg @ post)) (map entry_of (pre @ seg @ post)) covered row =
    Inr ([], nat (re_seq (last seg)))"
proof -
  let ?seqs = "map seq_of (pre @ seg @ post)"
  have seg: "seg \<noteq> []" "cr_format row = V3" "cr_from row = re_seq (hd seg)" "cr_to row = re_seq (last seg)"
      "cr_leaf_count row = int (length seg)" "bigint_positive (cr_leaf_count row)"
    and keys: "key_findings ed keys row (dec (nat (cr_from row))) (dec (nat (cr_to row))) (dec (nat (cr_leaf_count row))) = []"
    using row unfolding row_signs_def by blast+
  obtain hs where hs: "leaf_hashes D V3 (map entry_of seg) = Inr hs" "cr_root row = hex_text (merkle_root D hs)"
    using row unfolding row_signs_def by blast
  have parts: "ordered_events pre" "ordered_events seg" "ordered_events post"
    and apart: "\<And>x y. x \<in> set pre \<Longrightarrow> y \<in> set (seg @ post) \<Longrightarrow> re_seq x < re_seq y"
      "\<And>x y. x \<in> set (pre @ seg) \<Longrightarrow> y \<in> set post \<Longrightarrow> re_seq x < re_seq y"
    using events unfolding ordered_events_append by auto
  have positive: "\<And>e. e \<in> set (pre @ seg @ post) \<Longrightarrow> bigint_positive (re_seq e)"
    using events unfolding ordered_events_def by blast
  have hd_seg: "hd seg \<in> set seg" "last seg \<in> set seg" using seg(1) by simp_all
  have ends: "\<And>e. e \<in> set seg \<Longrightarrow> re_seq (hd seg) \<le> re_seq e \<and> re_seq e \<le> re_seq (last seg)"
    using ordered_ends [OF parts(2)] by blast
  have sorted: "sorted ?seqs" by (rule ordered_sorted [OF events])
  then have sorted': "sorted (map seq_of pre @ map seq_of (seg @ post))" "sorted (map seq_of (pre @ seg) @ map seq_of post)"
    by simp_all
  have covered_below: "x \<in> set pre \<Longrightarrow> seq_of x \<le> covered" for x
    using covered ordered_ends [OF parts(1), of x] by (auto simp: nat_mono)
  have covered_above: "y \<in> set (seg @ post) \<Longrightarrow> covered < seq_of y" for y
  proof (cases "pre = []")
    case True
    assume "y \<in> set (seg @ post)"
    with positive [of y] True covered show ?thesis by auto
  next
    case False
    assume "y \<in> set (seg @ post)"
    with apart(1) [of "last pre" y] positive [of y] positive [of "last pre"] False covered show ?thesis by auto
  qed
  have low: "lower_bound ?seqs (seq_of (hd seg)) = length pre"
  proof -
    have "lower_bound (map seq_of pre @ map seq_of (seg @ post)) (seq_of (hd seg)) = length (map seq_of pre)"
    proof (rule bounds_at(1) [OF sorted'(1)])
      fix x assume "x \<in> set (map seq_of pre)"
      then obtain e where "x = seq_of e" "e \<in> set pre" by auto
      with apart(1) [of e "hd seg"] hd_seg positive [of e] show "x < seq_of (hd seg)" by auto
    next
      fix x assume "x \<in> set (map seq_of (seg @ post))"
      then obtain e where "x = seq_of e" "e \<in> set seg \<or> e \<in> set post" by auto
      with ends apart(2) [of "hd seg" e] hd_seg show "seq_of (hd seg) \<le> x" by (auto intro: nat_mono less_imp_le)
    qed
    then show ?thesis by simp
  qed
  have up: "upper_bound ?seqs (seq_of (last seg)) = length pre + length seg"
  proof -
    have "upper_bound (map seq_of (pre @ seg) @ map seq_of post) (seq_of (last seg)) = length (map seq_of (pre @ seg))"
    proof (rule bounds_at(2) [OF sorted'(2)])
      fix x assume "x \<in> set (map seq_of (pre @ seg))"
      then obtain e where "x = seq_of e" "e \<in> set pre \<or> e \<in> set seg" by auto
      with ends apart(1) [of e "last seg"] hd_seg show "x \<le> seq_of (last seg)" by (auto intro: nat_mono less_imp_le)
    next
      fix x assume "x \<in> set (map seq_of post)"
      then obtain e where "x = seq_of e" "e \<in> set post" by auto
      with apart(2) [of "last seg" e] hd_seg positive [of "last seg"] show "seq_of (last seg) < x" by auto
    qed
    then show ?thesis by simp
  qed
  have start: "upper_bound ?seqs covered = length pre"
  proof -
    have "upper_bound (map seq_of pre @ map seq_of (seg @ post)) covered = length (map seq_of pre)"
      by (rule bounds_at(2) [OF sorted'(1)]) (use covered_below covered_above in auto)
    then show ?thesis by simp
  qed
  have above: "covered < seq_of (hd seg)" using covered_above hd_seg by simp
  have "covered \<le> seq_of (last seg)" using covered_above hd_seg by (simp add: less_imp_le)
  moreover have "bigint_positive (re_seq (hd seg))" "bigint_positive (re_seq (last seg))" using positive hd_seg by simp_all
  moreover have "range_findings ?seqs (map entry_of (pre @ seg @ post)) covered row
      (dec (seq_of (hd seg))) (dec (seq_of (last seg))) (dec (nat (cr_leaf_count row))) = []"
    unfolding range_findings_def Let_def undec_dec low up start using above by (simp add: seg(5))
  moreover have "take (length pre + length seg - length pre) (drop (length pre) (map entry_of (pre @ seg @ post))) = map entry_of seg"
    by simp
  ultimately show ?thesis
    unfolding check_row_def audit_sequence_int [THEN iffD2, OF conjI] using keys hs seg
    by (simp only: audit_sequence_int [THEN iffD2, OF conjI, OF _ refl] bindE_Inr seg(2-4) undec_dec low up Let_def simp_thms if_False append_Nil)
      (simp add: max_absorb2)
qed

lemma last_concat_append: "segs \<noteq> [] \<Longrightarrow> last segs \<noteq> [] \<Longrightarrow> last (concat segs) = last (last segs)"
  by (cases segs rule: rev_cases) auto

lemma row_signs_nonempty: "list_all2 (row_signs D ed keys) rows segs \<Longrightarrow> seg \<in> set segs \<Longrightarrow> seg \<noteq> []"
  by (auto simp: list_all2_conv_all_nth in_set_conv_nth row_signs_def)

lemma check_rows_signed:
  "list_all2 (row_signs D ed keys) rows segs \<Longrightarrow> ordered_events (pre @ concat segs @ rest) \<Longrightarrow>
   check_rows D ed keys (map seq_of (pre @ concat segs @ rest)) (map entry_of (pre @ concat segs @ rest))
     (if pre = [] then 0 else nat (re_seq (last pre))) rows = Inr []"
proof (induction rows segs arbitrary: pre rule: list_all2_induct)
  case (Cons row rows seg segs)
  have "seg \<noteq> []" using Cons.hyps(1) by (simp add: row_signs_def)
  moreover have "check_row D ed keys (map seq_of (pre @ seg @ concat segs @ rest)) (map entry_of (pre @ seg @ concat segs @ rest))
      (if pre = [] then 0 else nat (re_seq (last pre))) row = Inr ([], nat (re_seq (last seg)))"
    by (rule check_row_signed [OF _ Cons.hyps(1) refl]) (use Cons.prems in simp)
  moreover have "check_rows D ed keys (map seq_of ((pre @ seg) @ concat segs @ rest)) (map entry_of ((pre @ seg) @ concat segs @ rest))
      (if pre @ seg = [] then 0 else nat (re_seq (last (pre @ seg)))) rows = Inr []"
    by (rule Cons.IH) (use Cons.prems in simp)
  ultimately show ?case by (simp del: check_row_def)
qed simp

lemma signed_rows_sorted:
  "list_all2 (row_signs D ed keys) rows segs \<Longrightarrow> ordered_events (concat segs) \<Longrightarrow>
   sorted (map cr_from rows) \<and> sorted (map cr_to rows)"
proof (induction rows segs rule: list_all2_induct)
  case (Cons row rows seg segs)
  have seg: "seg \<noteq> []" "cr_from row = re_seq (hd seg)" "cr_to row = re_seq (last seg)"
    using Cons.hyps(1) by (simp_all add: row_signs_def)
  have "re_seq x < re_seq (hd seg') \<and> re_seq x < re_seq (last seg')" if "x \<in> set seg" "seg' \<in> set segs" for x seg'
  proof -
    have "seg' \<noteq> []" by (rule row_signs_nonempty [OF Cons.hyps(2) that(2)])
    with that Cons.prems show ?thesis unfolding concat.simps ordered_events_append by (auto intro!: bexI)
  qed
  moreover have "\<exists>seg'\<in>set segs. cr_from r = re_seq (hd seg') \<and> cr_to r = re_seq (last seg')" if "r \<in> set rows" for r
  proof -
    from that obtain i where i: "i < length rows" "r = rows ! i" by (auto simp: in_set_conv_nth)
    then have "row_signs D ed keys r (segs ! i)" "segs ! i \<in> set segs"
      using list_all2_nthD [OF Cons.hyps(2)] list_all2_lengthD [OF Cons.hyps(2)] by simp_all
    then show ?thesis unfolding row_signs_def by blast
  qed
  ultimately have "\<forall>r\<in>set rows. cr_from row \<le> cr_from r \<and> cr_to row \<le> cr_to r"
    using seg by (metis hd_in_set last_in_set less_imp_le)
  moreover have "sorted (map cr_from rows) \<and> sorted (map cr_to rows)"
    using Cons.prems by (intro Cons.IH) (simp add: ordered_events_append)
  ultimately show ?case by simp
qed simp

lemma inv_verifies:
  assumes inv: "ledger_inv D ed keys w segs rest"
  shows "verify_ledger D ed keys w = Inr []"
proof -
  have ord': "ordered_events (aw_events w)" and events: "aw_events w = concat segs @ rest"
    and chain: "walk_chain (sha_text D) genesis_digest None (map entry_of (aw_events w)) = Inr Chain_ok"
    and rows: "list_all2 (row_signs D ed keys) (aw_checkpoints w) segs"
    using inv unfolding ledger_inv_def by blast+
  have ord: "ordered_events (concat segs @ rest)" using ord' by (simp only: events)
  have "mapE to_entry (sort_key re_seq (aw_events w)) = Inr (map entry_of (concat segs @ rest))"
    unfolding events sorted_events [OF ord] mapE_to_entry using ord by (simp add: ordered_events_def)
  moreover have "sort_key cr_from (aw_checkpoints w) = aw_checkpoints w"
    using signed_rows_sorted [OF rows] ord by (simp add: ordered_events_append sort_key_id_if_sorted)
  moreover have "check_rows D ed keys (map seq_of (concat segs @ rest)) (map entry_of (concat segs @ rest)) 0 (aw_checkpoints w) = Inr []"
    using check_rows_signed [OF rows, of "[]" rest] ord by simp
  ultimately show ?thesis
    using chain by (simp add: verify_ledger_def verify_chain_def o_def events)
qed

section \<open>A run keeps the invariant\<close>

lemma find_unique:
  assumes "ordered_events events" and "x \<in> set events"
  shows "find (\<lambda>e. re_seq e = re_seq x) events = Some x"
proof -
  obtain i where i: "i < length events" "x = events ! i" using assms(2) by (auto simp: in_set_conv_nth)
  have "re_seq (events ! j) \<noteq> re_seq (events ! i)" if "j < i" for j
    using assms(1) sorted_wrt_nth_less [of "(<)" "map re_seq events" j i] i that by (simp add: ordered_events_def)
  with i show ?thesis by (auto simp: find_Some_iff intro!: exI [of _ i])
qed

lemma inv_parts:
  assumes "ledger_inv D ed keys w segs rest"
  shows "aw_events w = concat segs @ rest" "ordered_events (concat segs @ rest)" "ordered_events (aw_events w)"
    "list_all2 (row_signs D ed keys) (aw_checkpoints w) segs"
    "walk_chain (sha_text D) genesis_digest None (map entry_of (concat segs @ rest)) = Inr Chain_ok"
  using assms unfolding ledger_inv_def by auto

lemma inv_segs_last:
  assumes "ledger_inv D ed keys w segs rest" and "segs \<noteq> []"
  shows "concat segs \<noteq> []" "last (concat segs) = last (last segs)"
  using row_signs_nonempty [OF inv_parts(4) [OF assms(1)], of "last segs"] assms(2) last_in_set [of segs]
  by (auto simp: last_concat_append)

lemma latest_of_inv:
  assumes inv: "ledger_inv D ed keys w segs rest"
  shows "latest_checkpoint w = Inr (if segs = [] then None
    else Some (dec (seq_of (last (concat segs))), re_digest (last (concat segs))))"
proof (cases "segs = []")
  case True
  then show ?thesis using inv_parts(4) [OF inv] by (simp add: latest_checkpoint_def)
next
  case False
  note rows = inv_parts(4) [OF inv] and events = inv_parts(1) [OF inv] and ord = inv_parts(2) [OF inv]
  have ne: "aw_checkpoints w \<noteq> []" using rows False by auto
  have "row_signs D ed keys (last (aw_checkpoints w)) (last segs)"
    using list_all2_nthD [OF rows, of "length segs - 1"] list_all2_lengthD [OF rows] False ne by (simp add: last_conv_nth)
  then have row: "cr_format (last (aw_checkpoints w)) = V3" "cr_to (last (aw_checkpoints w)) = re_seq (last (concat segs))"
    using inv_segs_last [OF inv False] by (simp_all add: row_signs_def)
  have in_events: "last (concat segs) \<in> set (aw_events w)" using last_in_set [OF inv_segs_last(1) [OF inv False]] unfolding events set_append by blast
  then have bound: "bigint_positive (re_seq (last (concat segs)))"
    using inv_parts(3) [OF inv] unfolding ordered_events_def by blast
  have sorted: "sort_key cr_to (aw_checkpoints w) = aw_checkpoints w"
    using signed_rows_sorted [OF rows] ord by (simp add: ordered_events_append sort_key_id_if_sorted)
  have found: "find (\<lambda>e. re_seq e = int (undec (dec (seq_of (last (concat segs)))))) (aw_events w) = Some (last (concat segs))"
    using find_unique [OF inv_parts(3) [OF inv] in_events] bound by simp
  have seq: "audit_sequence (Seq_text (int_text (re_seq (last (concat segs))))) = Inr (dec (seq_of (last (concat segs))))"
    using bound by (simp add: audit_sequence_int)
  show ?thesis
    unfolding latest_checkpoint_def Let_def sorted row seq bindE_Inr found using ne False by simp
qed

lemma pending_of_inv:
  assumes inv: "ledger_inv D ed keys w segs rest"
  shows "pending_checkpoint D ed key min_events w =
    (if length rest < min_events then Inr (None, length rest)
     else bindE (verify_chain (sha_text D) (map entry_of rest) (end_digest (concat segs))) (\<lambda>verdict.
          bindE (require_chain verdict) (\<lambda>_.
          bindE (build_checkpoint D ed (map entry_of rest) key (end_digest (concat segs)) V3) (\<lambda>cp.
          Inr (Some cp, length rest)))))"
proof -
  note events = inv_parts(1) [OF inv] and ord = inv_parts(2) [OF inv]
  have parts: "ordered_events (concat segs)" "ordered_events rest" "\<forall>x\<in>set (concat segs). \<forall>y\<in>set rest. re_seq x < re_seq y"
    using ord unfolding ordered_events_append by blast+
  have positive: "\<forall>e\<in>set (concat segs @ rest). bigint_positive (re_seq e)" using ord unfolding ordered_events_def by blast
  define after where "after = (if segs = [] then 0 else seq_of (last (concat segs)))"
  have "filter (\<lambda>e. int after < re_seq e) (concat segs) = []"
  proof (cases "segs = []")
    case False
    then have "re_seq e \<le> int after" if "e \<in> set (concat segs)" for e
      using ordered_ends [OF parts(1) that] positive by (auto simp: after_def)
    then show ?thesis by (auto simp: filter_empty_conv not_less)
  qed simp
  moreover have "filter (\<lambda>e. int after < re_seq e) rest = rest"
  proof (cases "segs = []")
    case False
    then have "last (concat segs) \<in> set (concat segs)" using inv_segs_last(1) [OF inv] by (intro last_in_set)
    then have "re_seq (last (concat segs)) < re_seq y" if "y \<in> set rest" for y
      using parts(3) that by blast
    moreover have "0 < re_seq y" if "y \<in> set rest" for y
    proof -
      have "y \<in> set (concat segs @ rest)" using that by simp
      with positive have "bigint_positive (re_seq y)" by blast
      then show ?thesis by simp
    qed
    ultimately show ?thesis using False by (auto simp: after_def intro!: filter_True)
  qed (use positive in \<open>auto simp: after_def intro!: filter_True\<close>)
  ultimately have pending: "sort_key re_seq (filter (\<lambda>e. int after < re_seq e) (aw_events w)) = rest"
    unfolding events filter_append by (simp add: sorted_events [OF parts(2)])
  have entries: "mapE to_entry rest = Inr (map entry_of rest)" using positive by (simp add: mapE_to_entry)
  show ?thesis
  proof (cases "segs = []")
    case True
    with pending entries show ?thesis
      by (simp add: pending_checkpoint_def latest_of_inv [OF inv] after_def end_digest_def)
  next
    case False
    then have "end_digest (concat segs) = re_digest (last (concat segs))"
      using inv_segs_last(1) [OF inv] unfolding end_digest_def by metis
    with False pending entries show ?thesis
      by (simp add: pending_checkpoint_def latest_of_inv [OF inv] after_def Let_def)
  qed
qed

lemma inserted_row_signs:
  assumes built: "build_checkpoint D ed (map entry_of seg) key expected V3 = Inr cp"
    and ed: "ed25519_correct ed" and key: "keys (sk_id key) = Some (sk_public key)"
    and positive: "\<forall>e\<in>set seg. bigint_positive (re_seq e)"
  shows "row_signs D ed keys (inserted_row cp i uri) seg"
proof -
  obtain hs payload where ne: "seg \<noteq> []" and pair: "assert_ed25519_signing_key ed key = Inr ()"
    and hs: "leaf_hashes D V3 (map entry_of seg) = Inr hs"
    and payload: "checkpoint_signature_payload (cp\<lparr>cp_signature := []\<rparr>) = Inr payload"
    and cp: "cp = \<lparr>cp_format = V3, cp_from = Seq_text (ce_seq (hd (map entry_of seg))), cp_to = Seq_text (ce_seq (last (map entry_of seg))),
             cp_leaf_count = Seq_text (dec (length seg)), cp_root = hex_text (merkle_root D hs), cp_key_id = sk_id key,
             cp_signature = base64_encode (ed_sign ed (sk_private key) payload)\<rparr>"
    using build_checkpoint_Inr [OF built] by auto
  have ends: "hd (map entry_of seg) = entry_of (hd seg)" "last (map entry_of seg) = entry_of (last seg)"
    using ne by (simp_all add: hd_map last_map)
  have bounds: "bigint_positive (re_seq (hd seg))" "bigint_positive (re_seq (last seg))" using positive ne by simp_all
  have count: "bigint_positive (int (length seg))"
  proof -
    from payload obtain v where "wire_value V3 (Seq_text (dec (length seg))) = Inr v"
      by (auto simp: checkpoint_signature_payload_def bindE_eq_Inr cp)
    then obtain t where "audit_sequence (Seq_text (dec (length seg))) = Inr t" by (auto simp: wire_value_def bindE_eq_Inr)
    then show ?thesis by (simp add: audit_sequence_exact)
  qed
  have public: "ed_public ed (sk_private key) = sk_public key"
    using pair by (simp add: assert_ed25519_signing_key_def bindE_eq_Inr)
  have sig: "canonical_ed25519_signature (cp_signature cp) = Some (ed_sign ed (sk_private key) payload)"
    "ed_verify ed (sk_public key) payload (ed_sign ed (sk_private key) payload)"
    using ed public [symmetric] by (simp_all add: ed25519_correct_def signature_text_canonical cp)
  let ?row = "inserted_row cp i uri"
  have row: "cr_from ?row = re_seq (hd seg)" "cr_to ?row = re_seq (last seg)" "cr_leaf_count ?row = int (length seg)"
      "cr_format ?row = V3" "cr_root ?row = hex_text (merkle_root D hs)" "cr_key_id ?row = sk_id key" "cr_signature ?row = cp_signature cp"
    using bounds by (simp_all add: inserted_row_def cp seq_text_def ends)
  have same: "stored_checkpoint ?row (dec (seq_of (hd seg))) (dec (seq_of (last seg))) (dec (length seg)) = cp"
    by (simp add: stored_checkpoint_def row) (simp add: cp ends)
  have "checkpoint_signature_payload cp = Inr payload"
    using payload by (simp add: checkpoint_signature_payload_def cong: if_cong)
  then have "verify_checkpoint ed cp (sk_public key)"
    using sig by (simp add: verify_checkpoint_def is_checkpoint_format_def) (simp add: cp)
  then show ?thesis
    unfolding row_signs_def using ne count hs by (simp add: row key_findings_def same key)
qed

lemma run_keeps:
  assumes inv: "ledger_inv D ed keys w segs rest"
    and ed: "ed25519_correct ed" and key: "keys (sk_id key) = Some (sk_public key)"
  shows "\<exists>segs' rest'. ledger_inv D ed keys (snd (run_checkpoint D ed key min_events store i commits w)) segs' rest'"
proof (cases "pending_checkpoint D ed key min_events w")
  case (Inr r)
  obtain found n where r: "r = (found, n)" by (cases r)
  show ?thesis
  proof (cases found)
    case (Some cp)
    have built: "build_checkpoint D ed (map entry_of rest) key (end_digest (concat segs)) V3 = Inr cp"
      using Inr unfolding pending_of_inv [OF inv] by (auto simp: r Some bindE_eq_Inr split: if_splits)
    have positive: "\<forall>e\<in>set rest. bigint_positive (re_seq e)"
      using inv_parts(2) [OF inv] by (simp add: ordered_events_def)
    let ?row = "inserted_row cp i (if store then Some (object_key cp) else None)"
    have "row_signs D ed keys ?row rest" by (rule inserted_row_signs) (fact built ed key positive)+
    then have new: "ledger_inv D ed keys (w\<lparr>aw_checkpoints := aw_checkpoints w @ [?row], aw_store := objects\<rparr>) (segs @ [rest]) []" for objects
      using inv_parts [OF inv] by (simp add: ledger_inv_def list_all2_appendI)
    have same: "ledger_inv D ed keys (w\<lparr>aw_store := objects\<rparr>) segs rest" for objects
      using inv unfolding ledger_inv_def by (elim conjE) simp
    let ?objects = "put_if_absent (object_key cp) (checkpoint_body cp) (aw_store w)"
    show ?thesis
      using new [of ?objects] new [of "aw_store w"] same [of ?objects] inv
      unfolding run_checkpoint_def Inr r Some Let_def sum.case prod.case option.case
      by (cases store; cases commits) (simp_all, blast+)
  qed (use inv in \<open>auto simp: run_checkpoint_def Inr r\<close>)
qed (use inv in \<open>auto simp: run_checkpoint_def\<close>)

lemma grown_inv: "grown D ed keys w \<Longrightarrow> ed25519_correct ed \<Longrightarrow> \<exists>segs rest. ledger_inv D ed keys w segs rest"
proof (induction rule: grown.induct)
  case start
  have "ledger_inv D ed keys \<lparr>aw_events = [], aw_checkpoints = [], aw_store = Map.empty\<rparr> [] []"
    by (simp add: ledger_inv_def ordered_events_def)
  then show ?case by blast
next
  case (append w e)
  then show ?case using append_keeps by blast
next
  case (run w key min_events store i commits)
  then show ?case using run_keeps by blast
qed

text \<open>C9: A ledger that only grows verifies. However appending events and checkpoint runs follow each
  other, whatever keys sign (as long as their public halves are kept), with an object store or without,
  with minimum sizes or without, committed or rolled back: \<open>verifyLedger\<close> ends without an error and
  without a finding. So a finding always means that something else happened to the tables.\<close>

theorem grown_ledger_verifies:
  assumes "grown D ed keys w" and "ed25519_correct ed"
  shows "verify_ledger D ed keys w = Inr []"
  using grown_inv [OF assms] inv_verifies by blast

section \<open>A run signs what is pending\<close>

definition pending_events :: "audit_world \<Rightarrow> raw_event list" where
  "pending_events w = filter (\<lambda>e. \<forall>r\<in>set (aw_checkpoints w). cr_to r < re_seq e) (aw_events w)"

lemma pending_events_inv:
  assumes inv: "ledger_inv D ed keys w segs rest"
  shows "pending_events w = rest"
proof -
  note rows = inv_parts(4) [OF inv] and ord = inv_parts(2) [OF inv]
  have parts: "ordered_events (concat segs)" "\<forall>x\<in>set (concat segs). \<forall>y\<in>set rest. re_seq x < re_seq y"
    using ord unfolding ordered_events_append by blast+
  have "\<exists>r\<in>set (aw_checkpoints w). \<not> cr_to r < re_seq e" if e: "e \<in> set (concat segs)" for e
  proof -
    from e obtain seg where seg: "seg \<in> set segs" "e \<in> set seg" by auto
    then obtain k where k: "k < length segs" "e \<in> set (segs ! k)" unfolding in_set_conv_nth [of seg] by blast
    have sign: "row_signs D ed keys (aw_checkpoints w ! k) (segs ! k)"
      using list_all2_nthD2 [OF rows k(1)] .
    have "concat segs = concat (take k segs) @ segs ! k @ concat (drop (Suc k) segs)"
      by (metis append_assoc concat.simps(2) concat_append id_take_nth_drop k(1))
    then have "ordered_events (segs ! k)" using parts(1) by (simp add: ordered_events_append)
    from ordered_ends [OF this k(2)] sign have "re_seq e \<le> cr_to (aw_checkpoints w ! k)" by (simp add: row_signs_def)
    moreover have "aw_checkpoints w ! k \<in> set (aw_checkpoints w)" using k(1) list_all2_lengthD [OF rows] by simp
    ultimately show ?thesis using not_less by blast
  qed
  moreover have "cr_to r < re_seq y" if r: "r \<in> set (aw_checkpoints w)" and y: "y \<in> set rest" for r y
  proof -
    obtain k where k: "k < length (aw_checkpoints w)" "r = aw_checkpoints w ! k" using r unfolding in_set_conv_nth by blast
    then have sign: "row_signs D ed keys r (segs ! k)" "segs ! k \<in> set segs"
      using list_all2_nthD [OF rows] list_all2_lengthD [OF rows] by simp_all
    from sign(1) have "cr_to r = re_seq (last (segs ! k))" "segs ! k \<noteq> []" unfolding row_signs_def by blast+
    moreover from this(2) sign(2) have "last (segs ! k) \<in> set (concat segs)" using last_in_set by fastforce
    ultimately have "last (segs ! k) \<in> set (concat segs)" "cr_to r = re_seq (last (segs ! k))" by blast+
    with parts(2) y show ?thesis by metis
  qed
  ultimately show ?thesis unfolding pending_events_def inv_parts(1) [OF inv] filter_append
    by (subst filter_False) (auto intro!: filter_True)
qed

lemma walk_chain_fresh: "walk_chain H p f xs = Inr Chain_ok \<Longrightarrow> walk_chain H p None xs = Inr Chain_ok"
  by (cases xs) (auto simp: audit_link_format_may_follow_def split: sum.splits if_splits)

lemma increasing_ordered:
  "ordered_events seg \<Longrightarrow> (\<forall>e\<in>set seg. previous < seq_of e) \<Longrightarrow> increasing_from previous (map entry_of seg) = Inr ()"
proof (induction seg arbitrary: previous)
  case (Cons e seg)
  then have "bigint_positive (re_seq e)" "\<forall>x\<in>set seg. re_seq e < re_seq x" by (simp_all add: ordered_events_def)
  moreover from this have "sequence_number (entry_of e) = Inr (seq_of e)"
    using audit_sequence_int [of "re_seq e" "dec (seq_of e)"] by (simp add: sequence_number_def int_text_def)
  moreover have "increasing_from (seq_of e) (map entry_of seg) = Inr ()"
    using calculation Cons by (intro Cons.IH) (auto simp: ordered_events_def)
  ultimately show ?case using Cons.prems(2) by simp
qed simp

lemma ordered_length:
  assumes "ordered_events seg"
  shows "int (length seg) \<le> 2 ^ 63 - 1"
proof -
  have "distinct (map re_seq seg)" using assms by (simp add: ordered_events_def strict_sorted_iff)
  then have "length seg = card (re_seq ` set seg)" by (metis distinct_card length_map set_map)
  also have "\<dots> \<le> card {1..(2 :: int) ^ 63 - 1}"
    using assms by (intro card_mono) (auto simp: ordered_events_def)
  finally show ?thesis by simp
qed

lemma canonical_or_total: "canonicalizable v \<Longrightarrow> \<exists>b. canonical_or v = Inr b"
  using canonicalize_total [of v] by (auto simp: canonical_or_def canonical_bytes_def)

lemma canonicalizable_texts [simp]: "canonicalizable (text_value s)" "canonicalizable (nullable_text x)" "canonicalizable (text_list xs)"
  by (auto simp: text_value_def nullable_text_def text_list_def units_scalar list_all_iff split: option.splits)

definition scalar_reason :: "raw_event \<Rightarrow> bool" where
  "scalar_reason e \<longleftrightarrow> (case re_reason e of None \<Rightarrow> True | Some s \<Rightarrow> surrogate_failure s = None)"

lemma leaf_bytes_total:
  assumes "bigint_positive (re_seq e)" and "scalar_reason e"
  shows "\<exists>b. leaf_bytes (entry_of e) V3 = Inr b"
proof -
  have "audit_sequence (Seq_text (dec (seq_of e))) = Inr (dec (seq_of e))"
    using assms(1) audit_sequence_int [of "re_seq e" "dec (seq_of e)"] by (simp add: int_text_def)
  moreover have "canonicalizable (JObj (leaf_members V3 (text_value (dec (seq_of e))) (entry_of e)))"
    using assms(2)
    by (auto simp: leaf_members_V3 units_scalar entry_of_def nullable_jstr_def scalar_reason_def units_inject split: option.splits)
  ultimately show ?thesis
    using canonical_or_total by (simp add: leaf_bytes_def is_checkpoint_format_def wire_value_def)
qed

lemma build_total:
  assumes "ordered_events seg" and "seg \<noteq> []" and "\<forall>e\<in>set seg. scalar_reason e"
    and "assert_ed25519_signing_key ed key = Inr ()"
    and "walk_chain (sha_text D) expected None (map entry_of seg) = Inr Chain_ok"
  shows "\<exists>cp. build_checkpoint D ed (map entry_of seg) key expected V3 = Inr cp"
proof -
  have positive: "bigint_positive (re_seq e)" if "e \<in> set seg" for e using assms(1) that by (simp add: ordered_events_def)
  have ends: "hd (map entry_of seg) = entry_of (hd seg)" "last (map entry_of seg) = entry_of (last seg)"
    using assms(2) by (simp_all add: hd_map last_map)
  have seqs: "audit_sequence (Seq_text (dec (seq_of (hd seg)))) = Inr (dec (seq_of (hd seg)))"
    "audit_sequence (Seq_text (dec (seq_of (last seg)))) = Inr (dec (seq_of (last seg)))"
    using positive [of "hd seg"] positive [of "last seg"] assms(2)
      audit_sequence_int [of "re_seq (hd seg)" "dec (seq_of (hd seg))"] audit_sequence_int [of "re_seq (last seg)" "dec (seq_of (last seg))"]
    by (simp_all add: int_text_def)
  have count: "audit_sequence (Seq_text (dec (length seg))) = Inr (dec (length seg))"
    using ordered_length [OF assms(1)] assms(2) by (simp add: audit_sequence_exact Suc_le_eq)
  obtain hs where hs: "leaf_hashes D V3 (map entry_of seg) = Inr hs"
    using leaf_bytes_total positive assms(3) by (auto simp: leaf_hashes_V3 list_all_iff)
  have increasing: "assert_strictly_increasing (map entry_of seg) = Inr ()"
    unfolding assert_strictly_increasing_def using positive by (intro increasing_ordered [OF assms(1)]) fastforce
  have payload: "\<exists>b. checkpoint_signature_payload cp = Inr b"
    if "cp_format cp = V3" "cp_from cp = Seq_text (dec (seq_of (hd seg)))" "cp_to cp = Seq_text (dec (seq_of (last seg)))"
      "cp_leaf_count cp = Seq_text (dec (length seg))" for cp
    unfolding checkpoint_signature_payload_def that wire_value_def using canonical_or_total
    by (simp add: seqs count V1_def V3_def units_scalar)
  show ?thesis
    unfolding build_checkpoint_def verify_chain_def assms(4,5) increasing hs ends entry_of_seq seqs Let_def
    using assms(2) payload [of "\<lparr>cp_format = V3, cp_from = Seq_text (dec (seq_of (hd seg))), cp_to = Seq_text (dec (seq_of (last seg))),
      cp_leaf_count = Seq_text (dec (length seg)), cp_root = hex_text (merkle_root D hs), cp_key_id = sk_id key, cp_signature = []\<rparr>"]
    by (auto simp: require_chain_def)
qed

text \<open>The key the object of a run over the pending events gets.\<close>

definition pending_object_key :: "audit_world \<Rightarrow> string" where
  "pending_object_key w = ''audit/checkpoints/'' @ pad_start 12 (int_text (re_seq (hd (pending_events w)))) @ ''-'' @
     pad_start 12 (int_text (re_seq (last (pending_events w)))) @ ''.json''"

lemma pending_chain:
  assumes "ledger_inv D ed keys w segs rest"
  shows "walk_chain (sha_text D) (end_digest (concat segs)) None (map entry_of rest) = Inr Chain_ok"
proof -
  have "walk_chain (sha_text D) genesis_digest None (map entry_of (concat segs) @ map entry_of rest) = Inr Chain_ok"
    using inv_parts(5) [OF assms] by simp
  then have "walk_chain (sha_text D) (end_digest (concat segs))
      (if map entry_of (concat segs) = [] then None else Some (ce_format (last (map entry_of (concat segs))))) (map entry_of rest) = Inr Chain_ok"
    unfolding walk_chain_append end_digest_def
    by (cases "concat segs = []") (simp_all only: last_map entry_of_seq map_is_Nil_conv list.map if_True if_False simp_thms)
  then show ?thesis
    by (cases "map entry_of (concat segs) = []") (simp_all only: if_True if_False walk_chain_fresh)
qed

lemma pending_of_grown:
  assumes inv: "ledger_inv D ed keys w segs rest" and key: "assert_ed25519_signing_key ed key = Inr ()"
    and rest: "rest \<noteq> []" "min_events \<le> length rest" "\<forall>e\<in>set rest. scalar_reason e"
  shows "\<exists>cp. pending_checkpoint D ed key min_events w = Inr (Some cp, length rest) \<and>
    cp_from cp = Seq_text (dec (seq_of (hd rest))) \<and> cp_to cp = Seq_text (dec (seq_of (last rest))) \<and>
    cp_leaf_count cp = Seq_text (dec (length rest))"
proof -
  have "ordered_events rest" using inv_parts(2) [OF inv] by (simp add: ordered_events_append)
  then obtain cp where cp: "build_checkpoint D ed (map entry_of rest) key (end_digest (concat segs)) V3 = Inr cp"
    using build_total [OF _ rest(1,3) key pending_chain [OF inv]] by blast
  then have "verify_chain (sha_text D) (map entry_of rest) (end_digest (concat segs)) = Inr Chain_ok"
    using pending_chain [OF inv] by (auto simp: verify_chain_def build_checkpoint_def bindE_eq_Inr)
  moreover have "hd (map entry_of rest) = entry_of (hd rest)" "last (map entry_of rest) = entry_of (last rest)"
    using rest(1) by (simp_all add: hd_map last_map)
  ultimately show ?thesis
    using rest(2) cp build_checkpoint_Inr [OF cp]
    by (auto simp: pending_of_inv [OF inv] require_chain_def)
qed

text \<open>C10: A run signs what is pending. On a ledger that only grew, with a signing key whose halves belong
  together, at least one and at least \<open>minEvents\<close> events after the last checkpoint, no unpaired
  surrogate in a reason and no other object under the key the run would use, a run whose commit succeeds signs
  all of them: the row it inserts starts at the first and ends at the last pending event, counts all,
  and afterwards no event is pending.\<close>

theorem run_signs_pending:
  assumes grown: "grown D ed keys w" and ed: "ed25519_correct ed" and key: "assert_ed25519_signing_key ed key = Inr ()"
    and pending: "pending_events w \<noteq> []" "min_events \<le> length (pending_events w)" "\<forall>e\<in>set (pending_events w). scalar_reason e"
    and free: "store \<longrightarrow> aw_store w (pending_object_key w) = None"
  shows "\<exists>row w'. run_checkpoint D ed key min_events store i True w = (Inr (Signed row (length (pending_events w))), w') \<and>
    cr_from row = re_seq (hd (pending_events w)) \<and> cr_to row = re_seq (last (pending_events w)) \<and>
    cr_leaf_count row = int (length (pending_events w)) \<and>
    aw_events w' = aw_events w \<and> aw_checkpoints w' = aw_checkpoints w @ [row] \<and> pending_events w' = []"
proof -
  obtain segs rest where inv: "ledger_inv D ed keys w segs rest" using grown_inv [OF grown ed] by blast
  note rest = pending_events_inv [OF inv]
  have ord: "ordered_events (concat segs @ rest)" using inv_parts(2) [OF inv] .
  then have positive: "\<forall>e\<in>set rest. bigint_positive (re_seq e)" by (simp add: ordered_events_def)
  obtain cp where cp: "pending_checkpoint D ed key min_events w = Inr (Some cp, length rest)"
      "cp_from cp = Seq_text (dec (seq_of (hd rest)))" "cp_to cp = Seq_text (dec (seq_of (last rest)))"
      "cp_leaf_count cp = Seq_text (dec (length rest))"
    using pending_of_grown [OF inv key] pending unfolding rest by blast
  have ends: "bigint_positive (re_seq (hd rest))" "bigint_positive (re_seq (last rest))" using positive pending(1) by (simp_all add: rest)
  have name: "object_key cp = pending_object_key w"
    using ends by (simp add: object_key_def pending_object_key_def rest cp seq_text_def int_text_def)
  let ?row = "inserted_row cp i (if store then Some (object_key cp) else None)"
  let ?w = "w\<lparr>aw_checkpoints := aw_checkpoints w @ [?row],
    aw_store := (if store then put_if_absent (object_key cp) (checkpoint_body cp) (aw_store w) else aw_store w)\<rparr>"
  have run: "run_checkpoint D ed key min_events store i True w = (Inr (Signed ?row (length rest)), ?w)"
    using free by (simp add: run_checkpoint_def cp(1) put_if_absent_def name Let_def)
  have row: "cr_from ?row = re_seq (hd rest)" "cr_to ?row = re_seq (last rest)" "cr_leaf_count ?row = int (length rest)"
    using ends by (simp_all add: inserted_row_def cp seq_text_def)
  have "re_seq e \<le> cr_to ?row" if e: "e \<in> set (aw_events w)" for e
    unfolding row(2) using ordered_ends [OF ord, of e] e pending(1) by (simp add: inv_parts(1) [OF inv] rest)
  then have "pending_events ?w = []" by (auto simp: pending_events_def filter_empty_conv not_less intro!: bexI [of _ ?row])
  with run row show ?thesis unfolding rest by (intro exI [of _ ?row] exI [of _ ?w]) simp
qed

end
