(* ===== verification/Checkpoint_Samples.thy ===== *)
theory Checkpoint_Samples
  imports Checkpoint_Progress Merkle_Properties
begin

text \<open>
  A ledger of one event, signed by one run: the concrete case at which the properties of checkpoints hold.
  The signature scheme accepts one text for every message, which is correct in the sense the theorems ask for.
\<close>

definition sample_ed :: "(unit, unit) ed25519" where
  "sample_ed = \<lparr>ed_sign = (\<lambda>_ _. replicate 64 0), ed_verify = (\<lambda>_ _ s. s = replicate 64 0), ed_public = (\<lambda>_. ())\<rparr>"

definition sample_key :: "(unit, unit) signing_key" where
  "sample_key = \<lparr>sk_id = ''k1'', sk_private = (), sk_private_ed25519 = True, sk_public = (), sk_public_ed25519 = True\<rparr>"

definition sample_keys :: "string \<rightharpoonup> unit" where
  "sample_keys = [''k1'' \<mapsto> ()]"

definition unlinked_event :: raw_event where
  "unlinked_event = \<lparr>re_seq = 1, re_id = ''e1'', re_action_id = ''a1'', re_actor = ''p1'', re_role = ''owner'',
     re_type = ''create'', re_object = Some ''o1'', re_objects = [''o1''], re_recorded = ''2024-01-01T00:00:00.000Z'',
     re_effective = ''2024-01-01T00:00:00.000Z'', re_request_id = None, re_reason = None, re_before = None, re_after = None,
     re_prev = genesis_digest, re_digest = [], re_format = CURRENT_AUDIT_LINK_FORMAT\<rparr>"

definition sample_event :: raw_event where
  "sample_event = unlinked_event\<lparr>re_digest :=
     sha_text sum_digest (link_preimage genesis_digest (chain_entry (entry_of unlinked_event)) CURRENT_AUDIT_LINK_FORMAT)\<rparr>"

definition empty_world :: audit_world where
  "empty_world = \<lparr>aw_events = [], aw_checkpoints = [], aw_store = Map.empty\<rparr>"

definition sample_world1 :: audit_world where
  "sample_world1 = \<lparr>aw_events = [sample_event], aw_checkpoints = [], aw_store = Map.empty\<rparr>"

lemma sample_ed_correct: "ed25519_correct sample_ed"
  by (simp add: ed25519_correct_def sample_ed_def)

lemma sample_key_ok: "assert_ed25519_signing_key sample_ed sample_key = Inr ()" "sample_keys (sk_id sample_key) = Some (sk_public sample_key)"
proof -
  have "checkpoint_signing_key_id ''k1'' = Inr ''k1''" by code_simp
  then show "assert_ed25519_signing_key sample_ed sample_key = Inr ()" by (simp add: assert_ed25519_signing_key_def sample_ed_def sample_key_def)
qed (simp add: sample_keys_def sample_key_def)

lemma sample_may_append: "may_append sum_digest empty_world sample_event"
proof -
  have "audit_chain_digest (sha_text sum_digest) genesis_digest (chain_entry (entry_of unlinked_event)) CURRENT_AUDIT_LINK_FORMAT =
      Inr (re_digest sample_event)"
    by (simp add: audit_chain_digest_eq hex64_genesis current_format_known sample_event_def)
  moreover have "chain_entry (entry_of unlinked_event) = chain_entry (entry_of sample_event)"
    by (simp add: chain_entry_def entry_of_def sample_event_def)
  moreover have "ce_prev (entry_of sample_event) = genesis_digest" "re_format sample_event = CURRENT_AUDIT_LINK_FORMAT"
    "re_seq sample_event = 1"
    by (simp_all add: entry_of_def sample_event_def unlinked_event_def)
  ultimately show ?thesis
    by (simp add: may_append_def empty_world_def end_digest_def end_format_def current_format_known
        audit_link_format_may_follow_def)
qed

lemma sample_grown: "grown sum_digest sample_ed sample_keys sample_world1"
  using grown.append [OF grown.start sample_may_append [unfolded empty_world_def]] by (simp add: sample_world1_def)

lemma sample_pending: "pending_events sample_world1 = [sample_event]" "scalar_reason sample_event"
  by (simp_all add: pending_events_def sample_world1_def scalar_reason_def sample_event_def unlinked_event_def)

lemma sample_inv: "ledger_inv sum_digest sample_ed sample_keys sample_world1 [] [sample_event]"
proof -
  have "ledger_inv sum_digest sample_ed sample_keys empty_world [] []" by (simp add: ledger_inv_def ordered_events_def empty_world_def)
  from append_keeps [OF this sample_may_append] show ?thesis by (simp add: sample_world1_def empty_world_def)
qed

theorem grown_ledger_verifies_witness:
  "verify_ledger sum_digest sample_ed sample_keys
     (snd (run_checkpoint sum_digest sample_ed sample_key 1 True ''c1'' True sample_world1)) = Inr []"
  by (rule grown_ledger_verifies [OF grown.run [OF sample_grown sample_key_ok(2)] sample_ed_correct])

theorem run_signs_pending_witness:
  "\<exists>row w'. run_checkpoint sum_digest sample_ed sample_key 1 True ''c1'' True sample_world1 = (Inr (Signed row 1), w') \<and>
     cr_to row = 1 \<and> pending_events w' = []"
proof -
  have "1 \<le> length (pending_events sample_world1)" "pending_events sample_world1 \<noteq> []"
    "\<forall>e\<in>set (pending_events sample_world1). scalar_reason e"
    "True \<longrightarrow> aw_store sample_world1 (pending_object_key sample_world1) = None"
    by (simp_all add: sample_pending) (simp add: sample_world1_def)
  from run_signs_pending [OF sample_grown sample_ed_correct sample_key_ok(1) this(2,1,3,4), of "''c1''"]
  show ?thesis by (auto simp: sample_pending) (simp add: sample_event_def unlinked_event_def)
qed

theorem signed_history_unchanged_witness:
  "\<exists>cp w. build_checkpoint sum_digest sample_ed [entry_of sample_event] sample_key genesis_digest V3 = Inr cp \<and>
     verify_ledger sum_digest sample_ed sample_keys w = Inr [] \<and> inserted_row cp ''c1'' None \<in> set (aw_checkpoints w) \<and>
     map (committed \<circ> entry_of) (covered_events w (inserted_row cp ''c1'' None)) = map committed [entry_of sample_event]"
proof -
  have ord: "ordered_events [sample_event]" using inv_parts(2) [OF sample_inv] by simp
  have chain: "walk_chain (sha_text sum_digest) genesis_digest None (map entry_of [sample_event]) = Inr Chain_ok"
    using inv_parts(5) [OF sample_inv] by simp
  obtain cp where cp: "build_checkpoint sum_digest sample_ed (map entry_of [sample_event]) sample_key genesis_digest V3 = Inr cp"
    using build_total [OF ord _ _ sample_key_ok(1) chain] sample_pending(2) by auto
  let ?row = "inserted_row cp ''c1'' None" and ?w = "sample_world1\<lparr>aw_checkpoints := [inserted_row cp ''c1'' None]\<rparr>"
  have signs: "row_signs sum_digest sample_ed sample_keys ?row [sample_event]"
    using ord by (intro inserted_row_signs [where seg = "[sample_event]" and keys = sample_keys, OF cp sample_ed_correct sample_key_ok(2)]) (simp add: ordered_events_def)
  then have "ledger_inv sum_digest sample_ed sample_keys ?w [[sample_event]] []"
    using sample_inv by (simp add: ledger_inv_def sample_world1_def)
  then have clean: "verify_ledger sum_digest sample_ed sample_keys ?w = Inr []" by (rule inv_verifies)
  have covered: "covered_events ?w ?row = [sample_event]"
    using signs by (simp add: covered_events_def row_signs_def sample_world1_def)
  have "inj_on sum_digest (hashed_inputs sum_digest (leaf_list (map entry_of (covered_events ?w ?row))) \<union>
      hashed_inputs sum_digest (leaf_list (map entry_of [sample_event])))"
    unfolding covered by (simp add: leaf_list_def hashed_inputs_def rfc_tree.simps)
  then have "map (committed \<circ> entry_of) (covered_events ?w ?row) = map committed (map entry_of [sample_event])"
    by (intro signed_history_unchanged [OF clean _ cp sum_digest_length]) simp_all
  then show ?thesis using cp clean by (intro exI [of _ cp] exI [of _ ?w]) simp
qed

end
