(* ===== verification/Qualification_Pack.thy ===== *)
theory Qualification_Pack
  imports Projection_Engine
begin

text \<open>
  The qualification pack document, its validator and its composition
  (\<open>packages/qualification/src/pack.ts\<close>). A document arrives as an arbitrary value (\<open>jval\<close>, members in
  the order \<open>Object.keys\<close> gives them); what other packs hold is a parameter, as in the code. A problem
  keeps its code and its path, its message for people is left out. A validator appends to a list of
  problems in the code; here it returns the problems it appends, in order. Arrays of validated
  documents are read as what they hold; no parser yields one with holes.
\<close>

section \<open>Vocabulary\<close>

definition PACK_FORMAT :: string where "PACK_FORMAT = ''kf-qualification-pack-v1''"
definition REQUIREMENT_FORMAT :: string where "REQUIREMENT_FORMAT = ''kf-qualification-requirement-v1''"

datatype stage = Read_in | Role_read_in | References | Execution | First_contribution
datatype evidence_mode = Acknowledge | Locate | Demonstrate
datatype authority_class = Normative | Reference | Learning
datatype part = Common_part | Role_part | Scope_part
datatype consequence_kind = Unsafe | Unauthorized | Unreliable
datatype closing_rule = On_evidence | On_acceptance

definition STAGES :: "(stage \<times> string) list" where
  "STAGES = [(Read_in, ''read_in''), (Role_read_in, ''role_read_in''), (References, ''references''),
     (Execution, ''execution''), (First_contribution, ''first_contribution'')]"

definition EVIDENCE_MODES :: "(evidence_mode \<times> string) list" where
  "EVIDENCE_MODES = [(Acknowledge, ''acknowledge''), (Locate, ''locate''), (Demonstrate, ''demonstrate'')]"

definition AUTHORITY_CLASSES :: "(authority_class \<times> string) list" where
  "AUTHORITY_CLASSES = [(Normative, ''normative''), (Reference, ''reference''), (Learning, ''learning'')]"

definition PARTS :: "(part \<times> string) list" where
  "PARTS = [(Common_part, ''common''), (Role_part, ''role''), (Scope_part, ''scope'')]"

definition CONSEQUENCE_KINDS :: "(consequence_kind \<times> string) list" where
  "CONSEQUENCE_KINDS = [(Unsafe, ''unsafe''), (Unauthorized, ''unauthorized''), (Unreliable, ''unreliable'')]"

definition CLOSING_RULES :: "(closing_rule \<times> string) list" where
  "CLOSING_RULES = [(On_evidence, ''on_evidence''), (On_acceptance, ''on_acceptance'')]"

text \<open>The word of a list a value is, \<open>WORDS.includes(value)\<close>.\<close>

definition one_of :: "('e \<times> string) list \<Rightarrow> jval option \<Rightarrow> 'e option" where
  "one_of words v = map_option fst (find (\<lambda>(e, w). v = Some (text_value w)) words)"

section \<open>Documents\<close>

record resource_ref =
  rr_id :: jstr
  rr_revision :: jstr
  rr_class :: authority_class
  rr_label :: "jstr option"

datatype requirement_scope = Organization_scope | Object_scope jstr

text \<open>A requirement's definition: a requirement of a document without the part it belongs to.\<close>

record requirement_definition =
  rd_key :: jstr
  rd_revision :: nat
  rd_stage :: stage
  rd_outcome :: jstr
  rd_mode :: evidence_mode
  rd_accepted_by :: jstr
  rd_mandatory :: bool
  rd_consequence :: "(consequence_kind \<times> jstr) option"
  rd_impact :: "bool option"
  rd_scope :: "requirement_scope option"
  rd_resources :: "resource_ref list option"
  rd_prerequisites :: "jstr list option"
  rd_gates :: "jstr list option"
  rd_equivalent_to :: "jstr list option"
  rd_formats :: "jstr list option"

record part_ref =
  pr_pack :: jstr
  pr_revision :: nat

record composed_requirement =
  cq_key :: jstr
  cq_revision :: nat
  cq_part :: part
  cq_via :: "part_ref option"
  cq_definition :: requirement_definition
  cq_digest :: string

record resolved_part =
  rp_approved :: bool
  rp_composes_parts :: bool
  rp_requirements :: "composed_requirement list"

datatype pack_problem_code =
    Format
  | Unknown_key
  | Missing_owner
  | Missing_field
  | Invalid_value
  | Duplicate_requirement
  | Conflicting_requirement
  | Dead_reference
  | Composition_cycle
  | Nested_composition
  | Prerequisite_cycle
  | Mandatory_without_consequence
  | Undeclared_behavioural_impact
  | Self_acceptance

record pack_problem =
  pp_code :: pack_problem_code
  pp_path :: jstr

definition problem_if :: "bool \<Rightarrow> pack_problem_code \<Rightarrow> jstr \<Rightarrow> pack_problem list" where
  "problem_if condition code path = (if condition then [\<lparr>pp_code = code, pp_path = path\<rparr>] else [])"

lemma problem_if_Nil [simp]: "problem_if condition code path = [] \<longleftrightarrow> \<not> condition"
  by (simp add: problem_if_def)

definition under :: "jstr \<Rightarrow> string \<Rightarrow> jstr" where
  "under path key = path @ units (''.'' @ key)"

section \<open>Shapes\<close>

definition lower_or_digit :: "16 word \<Rightarrow> bool" where
  "lower_or_digit u \<longleftrightarrow> unit_between u CHR ''a'' CHR ''z'' \<or> unit_between u CHR ''0'' CHR ''9''"

definition is_unit :: "char \<Rightarrow> 16 word \<Rightarrow> bool" where
  "is_unit c u \<longleftrightarrow> unat u = of_char c"

text \<open>\<open>/^[a-z0-9][a-z0-9._-]{0,n}$/\<close>.\<close>

definition key_shape :: "nat \<Rightarrow> jstr \<Rightarrow> bool" where
  "key_shape n s =
     (case s of [] \<Rightarrow> False
      | u # us \<Rightarrow> lower_or_digit u \<and> length us \<le> n \<and>
          list_all (\<lambda>x. lower_or_digit x \<or> is_unit CHR ''.'' x \<or> is_unit CHR ''_'' x \<or> is_unit CHR ''-'' x) us)"

definition KEY :: "jstr \<Rightarrow> bool" where "KEY = key_shape 159"
definition PACK_KEY :: "jstr \<Rightarrow> bool" where "PACK_KEY = key_shape 119"

definition word_tail :: "jstr \<Rightarrow> bool" where
  "word_tail = list_all (\<lambda>x. lower_or_digit x \<or> is_unit CHR ''_'' x)"

text \<open>\<open>/^role:[a-z_][a-z0-9_]*$/\<close>.\<close>

definition ROLE_AUTHORITY :: "jstr \<Rightarrow> bool" where
  "ROLE_AUTHORITY s \<longleftrightarrow> take 5 s = units ''role:'' \<and>
     (case drop 5 s of [] \<Rightarrow> False
      | u # us \<Rightarrow> (unit_between u CHR ''a'' CHR ''z'' \<or> is_unit CHR ''_'' u) \<and> word_tail us)"

text \<open>\<open>/^[a-z][a-z0-9_]*$/\<close> and \<open>/^[a-z][a-z_]{0,31}$/\<close>.\<close>

definition ACTION :: "jstr \<Rightarrow> bool" where
  "ACTION s \<longleftrightarrow> (case s of [] \<Rightarrow> False | u # us \<Rightarrow> unit_between u CHR ''a'' CHR ''z'' \<and> word_tail us)"

definition FORMAT_WORD :: "jstr \<Rightarrow> bool" where
  "FORMAT_WORD s \<longleftrightarrow> (case s of [] \<Rightarrow> False
     | u # us \<Rightarrow> unit_between u CHR ''a'' CHR ''z'' \<and> length us \<le> 31 \<and>
         list_all (\<lambda>x. unit_between x CHR ''a'' CHR ''z'' \<or> is_unit CHR ''_'' x) us)"

text \<open>A UUID whose version is 1 to 8 and whose variant is 8, 9, a or b.\<close>

definition UUID :: "jstr \<Rightarrow> bool" where
  "UUID s \<longleftrightarrow> is_uuid s \<and> unit_between (s ! 14) CHR ''1'' CHR ''8'' \<and>
     (unit_between (s ! 19) CHR ''8'' CHR ''9'' \<or> unit_between (s ! 19) CHR ''a'' CHR ''b'')"

fun is_record :: "jval \<Rightarrow> bool" where
  "is_record (JObj ps) = True"
| "is_record (JInst v) = True"
| "is_record _ = False"

definition member :: "jval \<Rightarrow> string \<Rightarrow> jval option" where
  "member v k = (case property_of v k of Some JUndefined \<Rightarrow> None | m \<Rightarrow> m)"

definition closed_keys :: "jval \<Rightarrow> string list \<Rightarrow> jstr \<Rightarrow> pack_problem list" where
  "closed_keys v allowed path =
     map (\<lambda>(k, _). \<lparr>pp_code = Unknown_key, pp_path = path @ units ''.'' @ k\<rparr>)
       (filter (\<lambda>(k, _). k \<notin> units ` set allowed) (own_members v))"

text \<open>\<open>text(value, min)\<close>, and the positive safe integer a value is.\<close>

definition has_text :: "jval option \<Rightarrow> nat \<Rightarrow> bool" where
  "has_text v least = (case v of Some (JStr s) \<Rightarrow> least \<le> length (trim_units s) | _ \<Rightarrow> False)"

definition positive_integer :: "jval option \<Rightarrow> nat option" where
  "positive_integer v =
     (case v of
        Some (JNum k) \<Rightarrow> (case safe_integer k of Some i \<Rightarrow> if 1 \<le> i then Some (nat i) else None | None \<Rightarrow> None)
      | _ \<Rightarrow> None)"

definition matching :: "(jstr \<Rightarrow> bool) \<Rightarrow> jval option \<Rightarrow> bool" where
  "matching pattern v = (case v of Some (JStr s) \<Rightarrow> pattern s | _ \<Rightarrow> False)"

fun item_problems :: "(jstr \<Rightarrow> bool) \<Rightarrow> jstr \<Rightarrow> nat \<Rightarrow> jval option list \<Rightarrow> pack_problem list" where
  "item_problems pattern path i [] = []"
| "item_problems pattern path i (item # items) =
     problem_if (item \<noteq> None \<and> \<not> matching pattern item) Invalid_value (index_path path i) @
     item_problems pattern path (i + 1) items"

definition string_list :: "(jstr \<Rightarrow> bool) \<Rightarrow> jstr \<Rightarrow> jval option \<Rightarrow> pack_problem list" where
  "string_list pattern path v =
     (case v of
        None \<Rightarrow> []
      | Some (JArr items) \<Rightarrow> item_problems pattern path 0 items
      | _ \<Rightarrow> [\<lparr>pp_code = Invalid_value, pp_path = path\<rparr>])"

section \<open>One requirement\<close>

definition PACK_KEYS :: "string list" where
  "PACK_KEYS = [''format'', ''key'', ''revision'', ''title'', ''owner'', ''closing'', ''acceptor'', ''parts'', ''requirements'']"

definition PART_REF_KEYS :: "string list" where
  "PART_REF_KEYS = [''pack'', ''revision'']"

definition REQUIREMENT_KEYS :: "string list" where
  "REQUIREMENT_KEYS =
     [''key'', ''revision'', ''part'', ''stage'', ''outcome'', ''evidence_mode'', ''accepted_by'', ''mandatory'', ''consequence'',
      ''behavioural_impact'', ''scope'', ''resources'', ''prerequisites'', ''gates'', ''equivalent_to'', ''formats'']"

definition RESOURCE_KEYS :: "string list" where
  "RESOURCE_KEYS = [''id'', ''revision'', ''authority_class'', ''label'']"

definition CONSEQUENCE_KEYS :: "string list" where
  "CONSEQUENCE_KEYS = [''kind'', ''statement'']"

definition acceptance_problems :: "jval \<Rightarrow> jstr \<Rightarrow> pack_problem list" where
  "acceptance_problems raw path =
     (let by_whom = member raw ''accepted_by''; at_path = under path ''accepted_by'' in
      if by_whom = None \<or> by_whom = Some JNull \<or> by_whom = Some (JStr []) then [\<lparr>pp_code = Missing_owner, pp_path = at_path\<rparr>]
      else if \<not> matching (\<lambda>s. s = units ''self'' \<or> s = units ''contact'' \<or> ROLE_AUTHORITY s) by_whom
      then [\<lparr>pp_code = Invalid_value, pp_path = at_path\<rparr>]
      else problem_if (by_whom = Some (text_value ''self'') \<and>
             member raw ''evidence_mode'' \<noteq> Some (text_value ''acknowledge'')) Self_acceptance at_path)"

definition consequence_kind_of :: "jval \<Rightarrow> consequence_kind option" where
  "consequence_kind_of c = one_of CONSEQUENCE_KINDS (member c ''kind'')"

definition consequence_problems :: "jval \<Rightarrow> jstr \<Rightarrow> pack_problem list" where
  "consequence_problems raw path =
     (let at_path = under path ''consequence'' in
      (case member raw ''consequence'' of
         None \<Rightarrow> []
       | Some c \<Rightarrow>
           if \<not> is_record c then [\<lparr>pp_code = Invalid_value, pp_path = at_path\<rparr>]
           else closed_keys c CONSEQUENCE_KEYS at_path @
                problem_if (consequence_kind_of c = None) Invalid_value (under at_path ''kind'')) @
      problem_if (member raw ''mandatory'' = Some (JBool True) \<and>
          (case member raw ''consequence'' of
             None \<Rightarrow> True
           | Some c \<Rightarrow> \<not> is_record c \<or> consequence_kind_of c = None \<or> \<not> has_text (member c ''statement'') 8))
        Mandatory_without_consequence at_path)"

fun is_boolean :: "jval option \<Rightarrow> bool" where
  "is_boolean (Some (JBool b)) = True"
| "is_boolean _ = False"

definition impact_problems :: "jval \<Rightarrow> jstr \<Rightarrow> pack_problem list" where
  "impact_problems raw path =
     (let impact = member raw ''behavioural_impact''; at_path = under path ''behavioural_impact'' in
      problem_if (impact \<noteq> None \<and> \<not> is_boolean impact) Invalid_value at_path @
      problem_if ((case positive_integer (member raw ''revision'') of None \<Rightarrow> False | Some n \<Rightarrow> 1 < n) \<and> \<not> is_boolean impact)
        Undeclared_behavioural_impact at_path)"

definition scope_of :: "jval \<Rightarrow> requirement_scope option" where
  "scope_of v =
     (if v = text_value ''organization'' then Some Organization_scope
      else if is_record v \<and> length (own_members v) = 1 \<and> matching UUID (member v ''object'')
      then map_option Object_scope (text_of (member v ''object''))
      else None)"

definition resource_problems :: "jstr \<Rightarrow> jstr list \<Rightarrow> jval \<Rightarrow> pack_problem list \<times> jstr list" where
  "resource_problems path seen r =
     (if \<not> is_record r then ([\<lparr>pp_code = Invalid_value, pp_path = path\<rparr>], seen)
      else
        (let known = matching UUID (member r ''id'');
             twice = (case text_of (member r ''id'') of Some s \<Rightarrow> s \<in> set seen | None \<Rightarrow> False) in
         (closed_keys r RESOURCE_KEYS path @
          problem_if (\<not> known) Dead_reference (under path ''id'') @
          problem_if (known \<and> twice) Duplicate_requirement (under path ''id'') @
          problem_if (\<not> has_text (member r ''revision'') 1) Missing_field (under path ''revision'') @
          problem_if (one_of AUTHORITY_CLASSES (member r ''authority_class'') = None) Missing_field (under path ''authority_class''),
          if known \<and> \<not> twice then seen @ (case text_of (member r ''id'') of Some s \<Rightarrow> [s] | None \<Rightarrow> []) else seen)))"

fun resource_list_problems :: "jstr \<Rightarrow> nat \<Rightarrow> jstr list \<Rightarrow> jval option list \<Rightarrow> pack_problem list \<times> jstr list" where
  "resource_list_problems path i seen [] = ([], seen)"
| "resource_list_problems path i seen (None # rs) = resource_list_problems path (i + 1) seen rs"
| "resource_list_problems path i seen (Some r # rs) =
     (let (ps, seen') = resource_problems (index_path path i) seen r;
          (qs, seen'') = resource_list_problems path (i + 1) seen' rs in
      (ps @ qs, seen''))"

definition resources_problems :: "jval \<Rightarrow> jstr \<Rightarrow> pack_problem list \<times> jstr list" where
  "resources_problems raw path =
     (case member raw ''resources'' of
        None \<Rightarrow> ([], [])
      | Some (JArr rs) \<Rightarrow> resource_list_problems (under path ''resources'') 0 [] rs
      | Some _ \<Rightarrow> ([\<lparr>pp_code = Invalid_value, pp_path = under path ''resources''\<rparr>], []))"

text \<open>The checks after that of the keys, in the order of the code.\<close>

definition requirement_problems :: "jval \<Rightarrow> jstr \<Rightarrow> pack_problem list" where
  "requirement_problems raw path =
     (let (on_resources, named) = resources_problems raw path in
      problem_if (\<not> matching KEY (member raw ''key'')) Missing_field (under path ''key'') @
      problem_if (positive_integer (member raw ''revision'') = None) Missing_field (under path ''revision'') @
      problem_if (one_of PARTS (member raw ''part'') = None) Missing_field (under path ''part'') @
      problem_if (one_of STAGES (member raw ''stage'') = None) Missing_field (under path ''stage'') @
      problem_if (\<not> has_text (member raw ''outcome'') 8) Missing_field (under path ''outcome'') @
      problem_if (one_of EVIDENCE_MODES (member raw ''evidence_mode'') = None) Missing_field (under path ''evidence_mode'') @
      acceptance_problems raw path @
      problem_if (\<not> is_boolean (member raw ''mandatory'')) Missing_field (under path ''mandatory'') @
      consequence_problems raw path @
      impact_problems raw path @
      problem_if (case member raw ''scope'' of None \<Rightarrow> False | Some v \<Rightarrow> scope_of v = None) Invalid_value (under path ''scope'') @
      on_resources @
      problem_if (member raw ''evidence_mode'' = Some (text_value ''acknowledge'') \<and> named = []) Missing_field (under path ''resources'') @
      string_list KEY (under path ''prerequisites'') (member raw ''prerequisites'') @
      string_list ACTION (under path ''gates'') (member raw ''gates'') @
      string_list KEY (under path ''equivalent_to'') (member raw ''equivalent_to'') @
      string_list FORMAT_WORD (under path ''formats'') (member raw ''formats''))"

text \<open>\<open>validateRequirement\<close>: what it appends, and whether the value is then taken as a requirement.\<close>

definition validate_requirement :: "jval \<Rightarrow> jstr \<Rightarrow> pack_problem list \<times> bool" where
  "validate_requirement raw path =
     (if \<not> is_record raw then ([\<lparr>pp_code = Invalid_value, pp_path = path\<rparr>], False)
      else (closed_keys raw REQUIREMENT_KEYS path @ requirement_problems raw path, requirement_problems raw path = []))"

section \<open>Reading a validated requirement\<close>

text \<open>The typed reading of a value \<open>validateRequirement\<close> took; defaults stand where it would not have.\<close>

definition text_or_empty :: "jval option \<Rightarrow> jstr" where
  "text_or_empty v = (case v of Some (JStr s) \<Rightarrow> s | _ \<Rightarrow> [])"

definition present_items :: "jval option \<Rightarrow> jval list option" where
  "present_items v = (case v of Some (JArr items) \<Rightarrow> Some (map the (filter (\<lambda>x. x \<noteq> None) items)) | _ \<Rightarrow> None)"

definition read_texts :: "jval option \<Rightarrow> jstr list option" where
  "read_texts v = map_option (map (\<lambda>x. text_or_empty (Some x))) (present_items v)"

definition read_resource :: "jval \<Rightarrow> resource_ref" where
  "read_resource r =
     \<lparr>rr_id = text_or_empty (member r ''id''), rr_revision = text_or_empty (member r ''revision''),
      rr_class = (case one_of AUTHORITY_CLASSES (member r ''authority_class'') of Some c \<Rightarrow> c | None \<Rightarrow> Normative),
      rr_label = text_of (member r ''label'')\<rparr>"

definition read_boolean :: "jval option \<Rightarrow> bool option" where
  "read_boolean v = (case v of Some (JBool b) \<Rightarrow> Some b | _ \<Rightarrow> None)"

definition read_definition :: "jval \<Rightarrow> requirement_definition" where
  "read_definition raw =
     \<lparr>rd_key = text_or_empty (member raw ''key''),
      rd_revision = (case positive_integer (member raw ''revision'') of Some n \<Rightarrow> n | None \<Rightarrow> 0),
      rd_stage = (case one_of STAGES (member raw ''stage'') of Some s \<Rightarrow> s | None \<Rightarrow> Read_in),
      rd_outcome = text_or_empty (member raw ''outcome''),
      rd_mode = (case one_of EVIDENCE_MODES (member raw ''evidence_mode'') of Some m \<Rightarrow> m | None \<Rightarrow> Acknowledge),
      rd_accepted_by = text_or_empty (member raw ''accepted_by''),
      rd_mandatory = (member raw ''mandatory'' = Some (JBool True)),
      rd_consequence = (case member raw ''consequence'' of
         None \<Rightarrow> None
       | Some c \<Rightarrow> map_option (\<lambda>k. (k, text_or_empty (member c ''statement''))) (consequence_kind_of c)),
      rd_impact = read_boolean (member raw ''behavioural_impact''),
      rd_scope = (case member raw ''scope'' of None \<Rightarrow> None | Some v \<Rightarrow> scope_of v),
      rd_resources = map_option (map read_resource) (present_items (member raw ''resources'')),
      rd_prerequisites = read_texts (member raw ''prerequisites''),
      rd_gates = read_texts (member raw ''gates''),
      rd_equivalent_to = read_texts (member raw ''equivalent_to''),
      rd_formats = read_texts (member raw ''formats'')\<rparr>"

text \<open>\<open>requirementDefinition\<close> as members, and \<open>requirementDigest\<close> of it.\<close>

definition requirement_members :: "jval \<Rightarrow> (jstr \<times> jval) list" where
  "requirement_members raw = filter (\<lambda>(k, _). k \<noteq> units ''part'') (own_members raw)"

definition requirement_digest :: "sha256 \<Rightarrow> jval \<Rightarrow> canon_error + string" where
  "requirement_digest H raw = tagged_digest H REQUIREMENT_FORMAT (JObj (requirement_members raw))"

definition read_requirement :: "jval \<Rightarrow> string \<Rightarrow> composed_requirement" where
  "read_requirement raw digest =
     \<lparr>cq_key = rd_key (read_definition raw), cq_revision = rd_revision (read_definition raw),
      cq_part = (case one_of PARTS (member raw ''part'') of Some p \<Rightarrow> p | None \<Rightarrow> Common_part), cq_via = None,
      cq_definition = read_definition raw, cq_digest = digest\<rparr>"

end
