(* ===== verification/Qualification_Composition.thy ===== *)
theory Qualification_Composition
  imports Qualification_Pack
begin

text \<open>
  Composing a pack with its parts and validating the whole (\<open>validatePackDocument\<close> of
  \<open>packages/qualification/src/pack.ts\<close>), with the depth-first search for a cycle of prerequisites.
  The composition is a \<open>Map\<close>: the list of its values in the order their keys were first set.
\<close>

section \<open>Cycles of prerequisites\<close>

datatype mark = Visiting | Finished

datatype walk = Cycle_found "jstr list" | Clear "jstr \<rightharpoonup> mark" | Out_of_fuel

text \<open>
  \<open>visit\<close> and its loop over the prerequisites of a key. \<open>stack\<close> is what the code pushes and pops;
  \<open>fuel\<close> bounds how deep calls nest and is enough when it exceeds the number of keys not yet marked.
\<close>

fun visit :: "(jstr \<rightharpoonup> jstr list) \<Rightarrow> nat \<Rightarrow> jstr list \<Rightarrow> jstr \<Rightarrow> (jstr \<rightharpoonup> mark) \<Rightarrow> walk"
  and visit_each :: "(jstr \<rightharpoonup> jstr list) \<Rightarrow> nat \<Rightarrow> jstr list \<Rightarrow> jstr list \<Rightarrow> (jstr \<rightharpoonup> mark) \<Rightarrow> walk" where
  "visit edges 0 stack key marks = Out_of_fuel"
| "visit edges (Suc fuel) stack key marks =
     (if marks key = Some Finished then Clear marks
      else if marks key = Some Visiting then Cycle_found (dropWhile (\<lambda>k. k \<noteq> key) stack @ [key])
      else (case visit_each edges fuel (stack @ [key]) (case edges key of None \<Rightarrow> [] | Some ns \<Rightarrow> ns) (marks(key \<mapsto> Visiting)) of
              Clear marks' \<Rightarrow> Clear (marks'(key \<mapsto> Finished))
            | other \<Rightarrow> other))"
| "visit_each edges fuel stack [] marks = Clear marks"
| "visit_each edges fuel stack (next # ns) marks =
     (if edges next = None then visit_each edges fuel stack ns marks
      else (case visit edges fuel stack next marks of
              Clear marks' \<Rightarrow> visit_each edges fuel stack ns marks'
            | other \<Rightarrow> other))"

definition prerequisites_of :: "composed_requirement \<Rightarrow> jstr list" where
  "prerequisites_of r = (case rd_prerequisites (cq_definition r) of None \<Rightarrow> [] | Some ps \<Rightarrow> ps)"

definition prerequisite_edges :: "composed_requirement list \<Rightarrow> (jstr \<rightharpoonup> jstr list)" where
  "prerequisite_edges rs = map_of (rev (map (\<lambda>r. (cq_key r, prerequisites_of r)) rs))"

text \<open>The search starts at every key in turn; at the top no key is being visited.\<close>

definition prerequisite_walk :: "composed_requirement list \<Rightarrow> walk" where
  "prerequisite_walk rs =
     visit_each (prerequisite_edges rs) (length rs + 1) [] (sort (remdups (map cq_key rs))) Map.empty"

definition prerequisite_cycle :: "composed_requirement list \<Rightarrow> jstr list option" where
  "prerequisite_cycle rs = (case prerequisite_walk rs of Cycle_found c \<Rightarrow> Some c | _ \<Rightarrow> None)"

section \<open>Composition\<close>

definition add_requirement :: "jstr \<Rightarrow> composed_requirement \<Rightarrow> composed_requirement list \<Rightarrow>
    pack_problem list \<times> composed_requirement list" where
  "add_requirement path r composition =
     (case find (\<lambda>c. cq_key c = cq_key r) composition of
        None \<Rightarrow> ([], composition @ [r])
      | Some c \<Rightarrow> (problem_if (cq_revision c \<noteq> cq_revision r \<or> cq_digest c \<noteq> cq_digest r) Conflicting_requirement path, composition))"

fun add_requirements :: "jstr \<Rightarrow> composed_requirement list \<Rightarrow> composed_requirement list \<Rightarrow>
    pack_problem list \<times> composed_requirement list" where
  "add_requirements path [] composition = ([], composition)"
| "add_requirements path (r # rs) composition =
     (let (ps, composition') = add_requirement path r composition;
          (qs, composition'') = add_requirements path rs composition' in
      (ps @ qs, composition''))"

type_synonym part_resolver = "part_ref \<Rightarrow> resolved_part option"

definition read_part_ref :: "jval \<Rightarrow> part_ref option" where
  "read_part_ref ref =
     (case positive_integer (member ref ''revision'') of
        Some n \<Rightarrow> if matching PACK_KEY (member ref ''pack'')
                  then Some \<lparr>pr_pack = text_or_empty (member ref ''pack''), pr_revision = n\<rparr> else None
      | None \<Rightarrow> None)"

definition compose_resolved :: "part \<Rightarrow> part_ref \<Rightarrow> resolved_part \<Rightarrow> jstr \<Rightarrow> composed_requirement list \<Rightarrow>
    pack_problem list \<times> composed_requirement list" where
  "compose_resolved part ref resolved path composition =
     (if \<not> rp_approved resolved then ([\<lparr>pp_code = Dead_reference, pp_path = path\<rparr>], composition)
      else if rp_composes_parts resolved then ([\<lparr>pp_code = Nested_composition, pp_path = path\<rparr>], composition)
      else if list_ex (\<lambda>r. cq_via r \<noteq> None) (rp_requirements resolved)
      then ([\<lparr>pp_code = Nested_composition, pp_path = path\<rparr>], composition)
      else add_requirements path (map (\<lambda>r. r\<lparr>cq_part := part, cq_via := Some ref\<rparr>) (rp_requirements resolved)) composition)"

definition compose_part :: "part_resolver \<Rightarrow> jval option \<Rightarrow> part \<Rightarrow> jval \<Rightarrow> jstr \<Rightarrow> composed_requirement list \<Rightarrow>
    pack_problem list \<times> composed_requirement list" where
  "compose_part parts own_key part ref path composition =
     (if \<not> is_record ref then ([\<lparr>pp_code = Invalid_value, pp_path = path\<rparr>], composition)
      else
        (let (ps, composition') =
           (case read_part_ref ref of
              None \<Rightarrow> ([\<lparr>pp_code = Dead_reference, pp_path = path\<rparr>], composition)
            | Some r \<Rightarrow>
                if own_key = Some (JStr (pr_pack r)) then ([\<lparr>pp_code = Composition_cycle, pp_path = path\<rparr>], composition)
                else (case parts r of
                        None \<Rightarrow> ([\<lparr>pp_code = Dead_reference, pp_path = path\<rparr>], composition)
                      | Some resolved \<Rightarrow> compose_resolved part r resolved path composition)) in
         (closed_keys ref PART_REF_KEYS path @ ps, composition')))"

fun compose_part_list :: "part_resolver \<Rightarrow> jval option \<Rightarrow> part \<Rightarrow> jstr \<Rightarrow> nat \<Rightarrow> jval option list \<Rightarrow>
    composed_requirement list \<Rightarrow> pack_problem list \<times> composed_requirement list" where
  "compose_part_list parts own_key part path i [] composition = ([], composition)"
| "compose_part_list parts own_key part path i (None # refs) composition =
     compose_part_list parts own_key part path (i + 1) refs composition"
| "compose_part_list parts own_key part path i (Some ref # refs) composition =
     (let (ps, composition') = compose_part parts own_key part ref (index_path path i) composition;
          (qs, composition'') = compose_part_list parts own_key part path (i + 1) refs composition' in
      (ps @ qs, composition''))"

definition compose_kind :: "part_resolver \<Rightarrow> jval option \<Rightarrow> jval \<Rightarrow> part \<Rightarrow> string \<Rightarrow> composed_requirement list \<Rightarrow>
    pack_problem list \<times> composed_requirement list" where
  "compose_kind parts own_key raw_parts part word composition =
     (let path = units (''$.parts.'' @ word) in
      case member raw_parts word of
        None \<Rightarrow> ([], composition)
      | Some (JArr refs) \<Rightarrow> compose_part_list parts own_key part path 0 refs composition
      | Some _ \<Rightarrow> ([\<lparr>pp_code = Invalid_value, pp_path = path\<rparr>], composition))"

fun compose_kinds :: "part_resolver \<Rightarrow> jval option \<Rightarrow> jval \<Rightarrow> (part \<times> string) list \<Rightarrow> composed_requirement list \<Rightarrow>
    pack_problem list \<times> composed_requirement list" where
  "compose_kinds parts own_key raw_parts [] composition = ([], composition)"
| "compose_kinds parts own_key raw_parts ((part, word) # kinds) composition =
     (let (ps, composition') = compose_kind parts own_key raw_parts part word composition;
          (qs, composition'') = compose_kinds parts own_key raw_parts kinds composition' in
      (ps @ qs, composition''))"

definition compose_parts :: "part_resolver \<Rightarrow> jval \<Rightarrow> pack_problem list \<times> composed_requirement list" where
  "compose_parts parts raw =
     (case member raw ''parts'' of
        None \<Rightarrow> ([], [])
      | Some raw_parts \<Rightarrow>
          if \<not> is_record raw_parts then ([\<lparr>pp_code = Invalid_value, pp_path = units ''$.parts''\<rparr>], [])
          else (let (ps, composition) = compose_kinds parts (member raw ''key'') raw_parts PARTS [] in
                (closed_keys raw_parts (map snd PARTS) (units ''$.parts'') @ ps, composition)))"

section \<open>The pack's own requirements\<close>

text \<open>One declaration: the keys declared so far, the problems it adds and the composition after it.\<close>

definition own_requirement :: "sha256 \<Rightarrow> jstr \<Rightarrow> jval \<Rightarrow> jstr list \<Rightarrow> composed_requirement list \<Rightarrow>
    canon_error + jstr list \<times> pack_problem list \<times> composed_requirement list" where
  "own_requirement H path raw declared composition =
     (let raw_key = (if is_record raw then text_of (member raw ''key'') else None) in
      if (case raw_key of Some k \<Rightarrow> k \<in> set declared | None \<Rightarrow> False)
      then Inr (declared, [\<lparr>pp_code = Duplicate_requirement, pp_path = under path ''key''\<rparr>], composition)
      else
        (let declared' = (case raw_key of Some k \<Rightarrow> declared @ [k] | None \<Rightarrow> declared);
             (ps, taken) = validate_requirement raw path in
         if \<not> taken then Inr (declared', ps, composition)
         else bindE (requirement_digest H raw) (\<lambda>digest.
              (let (qs, composition') = add_requirement path (read_requirement raw digest) composition in
               Inr (declared', ps @ qs, composition')))))"

fun own_requirements :: "sha256 \<Rightarrow> nat \<Rightarrow> jval option list \<Rightarrow> jstr list \<Rightarrow> composed_requirement list \<Rightarrow>
    canon_error + pack_problem list \<times> composed_requirement list" where
  "own_requirements H i [] declared composition = Inr ([], composition)"
| "own_requirements H i (None # raws) declared composition = own_requirements H (i + 1) raws declared composition"
| "own_requirements H i (Some raw # raws) declared composition =
     bindE (own_requirement H (index_path (units ''$.requirements'') i) raw declared composition)
       (\<lambda>(declared', ps, composition').
     bindE (own_requirements H (i + 1) raws declared' composition') (\<lambda>(qs, composition'').
     Inr (ps @ qs, composition'')))"

section \<open>The document\<close>

definition header_problems :: "jval \<Rightarrow> pack_problem list" where
  "header_problems raw =
     closed_keys raw PACK_KEYS (units ''$'') @
     problem_if (member raw ''format'' \<noteq> Some (text_value PACK_FORMAT)) Format (units ''$.format'') @
     problem_if (\<not> matching PACK_KEY (member raw ''key'')) Missing_field (units ''$.key'') @
     problem_if (positive_integer (member raw ''revision'') = None) Missing_field (units ''$.revision'') @
     problem_if (\<not> has_text (member raw ''title'') 1) Missing_field (units ''$.title'') @
     problem_if (\<not> matching ROLE_AUTHORITY (member raw ''owner'')) Missing_owner (units ''$.owner'') @
     problem_if (one_of CLOSING_RULES (member raw ''closing'') = None) Missing_field (units ''$.closing'') @
     (if member raw ''closing'' = Some (text_value ''on_acceptance'')
      then problem_if (\<not> matching ROLE_AUTHORITY (member raw ''acceptor'')) Missing_owner (units ''$.acceptor'')
      else problem_if (member raw ''acceptor'' \<noteq> None) Invalid_value (units ''$.acceptor''))"

text \<open>\<open>packDigest\<close>: the document without its format, under the format's tag.\<close>

definition pack_digest :: "sha256 \<Rightarrow> jval \<Rightarrow> canon_error + string" where
  "pack_digest H document =
     tagged_digest H PACK_FORMAT (JObj (filter (\<lambda>(k, _). k \<noteq> units ''format'') (own_members document)))"

record pack_validation =
  pv_problems :: "pack_problem list"
  pv_document :: "jval option"
  pv_composition :: "composed_requirement list"

definition dead_prerequisites :: "composed_requirement list \<Rightarrow> pack_problem list" where
  "dead_prerequisites composed =
     concat (map (\<lambda>r. concat (map (\<lambda>p. problem_if (p \<notin> cq_key ` set composed) Dead_reference (units ''requirement '' @ cq_key r))
       (prerequisites_of r))) composed)"

definition cycle_problems :: "composed_requirement list \<Rightarrow> pack_problem list" where
  "cycle_problems composed =
     (case prerequisite_cycle composed of
        None \<Rightarrow> []
      | Some c \<Rightarrow> [\<lparr>pp_code = Prerequisite_cycle, pp_path = units ''requirement '' @ (case c of [] \<Rightarrow> units ''?'' | k # _ \<Rightarrow> k)\<rparr>])"

definition validate_pack_document :: "sha256 \<Rightarrow> (jstr \<Rightarrow> jstr \<Rightarrow> bool) \<Rightarrow> part_resolver \<Rightarrow> jval \<Rightarrow> canon_error + pack_validation" where
  "validate_pack_document H locale_le parts raw =
     (if \<not> is_record raw
      then Inr \<lparr>pv_problems = [\<lparr>pp_code = Format, pp_path = units ''$''\<rparr>], pv_document = None, pv_composition = []\<rparr>
      else
        (let (part_problems, from_parts) = compose_parts parts raw in
         bindE (case member raw ''requirements'' of
                  Some (JArr raws) \<Rightarrow> own_requirements H 0 raws [] from_parts
                | _ \<Rightarrow> Inr ([\<lparr>pp_code = Missing_field, pp_path = units ''$.requirements''\<rparr>], from_parts)) (\<lambda>(own_problems, composition).
         (let composed = sort_by (\<lambda>a b. locale_le (cq_key a) (cq_key b)) composition;
              problems = header_problems raw @ part_problems @ own_problems @ dead_prerequisites composed @ cycle_problems composed @
                problem_if (member raw ''requirements'' = Some (JArr []) \<and> composed = []) Missing_field (units ''$.requirements'') in
          Inr \<lparr>pv_problems = problems, pv_document = (if problems = [] then Some raw else None), pv_composition = composed\<rparr>))))"

end
