(* ===== verification/Qualification_Graph.thy ===== *)
theory Qualification_Graph
  imports Qualification_Composition
begin

text \<open>
  The search for a cycle of prerequisites is exact: it always ends with its fuel, what it returns is a
  cycle, and it returns nothing only when the prerequisites have none.
\<close>

section \<open>Edges and cycles\<close>

definition edge_rel :: "(jstr \<rightharpoonup> jstr list) \<Rightarrow> (jstr \<times> jstr) set" where
  "edge_rel edges = {(a, b). \<exists>ns. edges a = Some ns \<and> b \<in> set ns \<and> b \<in> dom edges}"

definition is_cycle :: "(jstr \<times> jstr) set \<Rightarrow> jstr list \<Rightarrow> bool" where
  "is_cycle R c \<longleftrightarrow> 2 \<le> length c \<and> hd c = last c \<and> successively (\<lambda>a b. (a, b) \<in> R) c"

lemma successively_trancl: "successively (\<lambda>a b. (a, b) \<in> R) (x # c) \<Longrightarrow> c \<noteq> [] \<Longrightarrow> (x, last c) \<in> R\<^sup>+"
proof (induction c arbitrary: x)
  case (Cons y c)
  then show ?case by (cases "c = []") (auto intro: trancl_into_trancl2)
qed simp

lemma cycle_not_acyclic: "is_cycle R c \<Longrightarrow> \<not> acyclic R"
proof -
  assume c: "is_cycle R c"
  then obtain x y ys where "c = x # y # ys" by (cases c; cases "tl c") (auto simp: is_cycle_def)
  with c successively_trancl [of R x "y # ys"] have "(x, x) \<in> R\<^sup>+" by (auto simp: is_cycle_def)
  then show ?thesis by (auto simp: acyclic_def)
qed

section \<open>The invariant of the search\<close>

definition finished :: "(jstr \<rightharpoonup> mark) \<Rightarrow> jstr set" where
  "finished marks = {k. marks k = Some Finished}"

definition search_inv :: "(jstr \<rightharpoonup> jstr list) \<Rightarrow> jstr list \<Rightarrow> (jstr \<rightharpoonup> mark) \<Rightarrow> bool" where
  "search_inv edges stack marks \<longleftrightarrow>
     (\<forall>k. marks k = Some Visiting \<longleftrightarrow> k \<in> set stack) \<and> distinct stack \<and> dom marks \<subseteq> dom edges \<and>
     successively (\<lambda>a b. (a, b) \<in> edge_rel edges) stack \<and>
     edge_rel edges `` finished marks \<subseteq> finished marks \<and>
     (\<forall>k\<in>finished marks. (k, k) \<notin> (edge_rel edges)\<^sup>+)"

definition leads_to :: "(jstr \<rightharpoonup> jstr list) \<Rightarrow> jstr list \<Rightarrow> jstr \<Rightarrow> bool" where
  "leads_to edges stack key \<longleftrightarrow> (stack = [] \<or> (last stack, key) \<in> edge_rel edges)"

text \<open>What a call promises, given the keys it has to finish.\<close>

definition walk_ok :: "(jstr \<rightharpoonup> jstr list) \<Rightarrow> jstr list \<Rightarrow> (jstr \<rightharpoonup> mark) \<Rightarrow> jstr set \<Rightarrow> walk \<Rightarrow> bool" where
  "walk_ok edges stack marks keys w =
     (case w of
        Out_of_fuel \<Rightarrow> False
      | Cycle_found c \<Rightarrow> is_cycle (edge_rel edges) c
      | Clear marks' \<Rightarrow> search_inv edges stack marks' \<and> keys \<subseteq> finished marks' \<and>
          finished marks \<subseteq> finished marks' \<and> dom marks \<subseteq> dom marks')"

lemma walk_ok_after:
  assumes "walk_ok edges stack marks' keys w" and "finished marks \<subseteq> finished marks'" and "dom marks \<subseteq> dom marks'"
    and "keys' \<subseteq> keys \<union> finished marks'"
  shows "walk_ok edges stack marks keys' w"
proof (cases w)
  case (Clear marks'')
  with assms show ?thesis by (simp add: walk_ok_def) blast
qed (use assms in \<open>simp_all add: walk_ok_def\<close>)

lemma successively_snoc: "successively P (xs @ [x]) \<longleftrightarrow> successively P xs \<and> (xs = [] \<or> P (last xs) x)"
  by (auto simp: successively_append_iff)

lemma search_inv_push:
  assumes inv: "search_inv edges stack marks" and key: "key \<in> dom edges" "marks key = None" "leads_to edges stack key"
  shows "search_inv edges (stack @ [key]) (marks(key \<mapsto> Visiting))"
proof -
  have "finished (marks(key \<mapsto> Visiting)) = finished marks" using key(2) by (auto simp: finished_def)
  moreover have "key \<notin> set stack" using inv key(2) unfolding search_inv_def by (metis option.distinct(1))
  ultimately show ?thesis
    using inv key unfolding search_inv_def leads_to_def successively_snoc by auto
qed

lemma search_inv_finish:
  assumes inv: "search_inv edges (stack @ [key]) marks"
    and succ: "edge_rel edges `` {key} \<subseteq> finished marks"
  shows "search_inv edges stack (marks(key \<mapsto> Finished))"
proof -
  let ?R = "edge_rel edges" and ?F = "finished marks"
  have fin: "finished (marks(key \<mapsto> Finished)) = insert key ?F" by (auto simp: finished_def)
  have key: "marks key = Some Visiting" "key \<notin> set stack" using inv by (auto simp: search_inv_def)
  then have "key \<notin> ?F" by (simp add: finished_def)
  have closed: "?R `` ?F \<subseteq> ?F" and none: "\<forall>k\<in>?F. (k, k) \<notin> ?R\<^sup>+" using inv by (simp_all add: search_inv_def)
  have "(key, key) \<notin> ?R\<^sup>+"
  proof
    assume "(key, key) \<in> ?R\<^sup>+"
    then obtain y where "(key, y) \<in> ?R" "(y, key) \<in> ?R\<^sup>*" by (meson tranclD)
    with succ have "y \<in> ?F" "(y, key) \<in> ?R\<^sup>*" by auto
    with Image_closed_trancl [OF closed] have "key \<in> ?F" by blast
    with \<open>key \<notin> ?F\<close> show False ..
  qed
  with fin none have "\<forall>k\<in>finished (marks(key \<mapsto> Finished)). (k, k) \<notin> ?R\<^sup>+" by simp
  moreover have "?R `` finished (marks(key \<mapsto> Finished)) \<subseteq> finished (marks(key \<mapsto> Finished))"
    unfolding fin using closed succ by blast
  moreover have "\<forall>k. (marks(key \<mapsto> Finished)) k = Some Visiting \<longleftrightarrow> k \<in> set stack"
    using inv key(2) by (auto simp: search_inv_def)
  moreover have "distinct stack" "successively (\<lambda>a b. (a, b) \<in> ?R) stack" "dom (marks(key \<mapsto> Finished)) \<subseteq> dom edges"
    using inv key(1) by (auto simp: search_inv_def successively_snoc)
  ultimately show ?thesis unfolding search_inv_def by blast
qed

lemma cycle_of_stack:
  assumes inv: "search_inv edges stack marks" and key: "key \<in> set stack" "leads_to edges stack key"
  shows "is_cycle (edge_rel edges) (dropWhile (\<lambda>k. k \<noteq> key) stack @ [key])"
proof -
  let ?R = "edge_rel edges" and ?c = "dropWhile (\<lambda>k. k \<noteq> key) stack"
  obtain ys zs where stack: "stack = ys @ key # zs" "key \<notin> set ys" using split_list_first [OF key(1)] by blast
  have c: "?c = key # zs"
  proof -
    have "dropWhile (\<lambda>k. k \<noteq> key) (ys @ key # zs) = dropWhile (\<lambda>k. k \<noteq> key) (key # zs)"
      by (rule dropWhile_append2) (use stack(2) in auto)
    then show ?thesis by (simp add: stack(1))
  qed
  have "successively (\<lambda>a b. (a, b) \<in> ?R) (ys @ key # zs)" using inv by (simp add: search_inv_def stack(1))
  then have "successively (\<lambda>a b. (a, b) \<in> ?R) (key # zs)" by (simp only: successively_append_iff)
  moreover have "(last (key # zs), key) \<in> ?R" using key(2) by (simp add: leads_to_def stack(1))
  ultimately have "successively (\<lambda>a b. (a, b) \<in> ?R) ((key # zs) @ [key])" unfolding successively_snoc by blast
  then show ?thesis unfolding c is_cycle_def by simp
qed

section \<open>The search\<close>

lemma search_ok:
  assumes fin: "finite (dom edges)"
  shows "search_inv edges stack marks \<Longrightarrow> key \<in> dom edges \<Longrightarrow> leads_to edges stack key \<Longrightarrow>
      card (dom edges - dom marks) < fuel \<Longrightarrow> walk_ok edges stack marks {key} (visit edges fuel stack key marks)"
    and "search_inv edges stack marks \<Longrightarrow> (\<forall>n\<in>set ns \<inter> dom edges. leads_to edges stack n) \<Longrightarrow>
      card (dom edges - dom marks) < fuel \<Longrightarrow> walk_ok edges stack marks (set ns \<inter> dom edges) (visit_each edges fuel stack ns marks)"
  using fin
proof (induction edges fuel stack key marks and edges fuel stack ns marks rule: visit_visit_each.induct)
  case (2 edges fuel stack key marks)
  show ?case
  proof (cases "marks key")
    case None
    let ?ns = "case edges key of None \<Rightarrow> [] | Some ns \<Rightarrow> ns" and ?marks = "marks(key \<mapsto> Visiting)"
    have succ: "edge_rel edges `` {key} = set ?ns \<inter> dom edges"
      by (cases "edges key") (auto simp: edge_rel_def)
    have "dom edges - dom ?marks = dom edges - dom marks - {key}" by auto
    moreover have "key \<in> dom edges - dom marks" using 2 None by auto
    moreover from this "2.prems"(5) have "0 < card (dom edges - dom marks)" by (auto simp: card_gt_0_iff)
    ultimately have "card (dom edges - dom ?marks) < fuel"
      using "2.prems"(4,5) by (simp add: card_Diff_singleton)
    moreover have inv: "search_inv edges (stack @ [key]) ?marks" using 2 None by (intro search_inv_push) auto
    moreover have "\<forall>n\<in>set ?ns \<inter> dom edges. leads_to edges (stack @ [key]) n" using succ by (auto simp: leads_to_def)
    ultimately have ok: "walk_ok edges (stack @ [key]) ?marks (set ?ns \<inter> dom edges) (visit_each edges fuel (stack @ [key]) ?ns ?marks)"
      using "2.IH" "2.prems"(5) None by (simp del: fun_upd_apply)
    show ?thesis
    proof (cases "visit_each edges fuel (stack @ [key]) ?ns ?marks")
      case (Clear marks')
      with ok have after: "search_inv edges (stack @ [key]) marks'" "edge_rel edges `` {key} \<subseteq> finished marks'"
        "finished ?marks \<subseteq> finished marks'" "dom ?marks \<subseteq> dom marks'"
        unfolding succ by (simp_all add: walk_ok_def)
      have "search_inv edges stack (marks'(key \<mapsto> Finished))" using after by (intro search_inv_finish)
      moreover have "finished marks \<subseteq> finished (marks'(key \<mapsto> Finished))" "key \<in> finished (marks'(key \<mapsto> Finished))"
        "dom marks \<subseteq> dom (marks'(key \<mapsto> Finished))"
        using after(3,4) None by (auto simp: finished_def)
      ultimately show ?thesis using None Clear by (simp add: walk_ok_def)
    qed (use ok None in \<open>simp_all add: walk_ok_def\<close>)
  next
    case (Some m)
    then show ?thesis
    proof (cases m)
      case Visiting
      with Some "2.prems"(1) have "key \<in> set stack" by (simp add: search_inv_def)
      with "2.prems" Some Visiting cycle_of_stack show ?thesis by (simp add: walk_ok_def)
    qed (use "2.prems" Some in \<open>auto simp: walk_ok_def finished_def\<close>)
  qed
next
  case (4 edges fuel stack n ns marks)
  show ?case
  proof (cases "edges n")
    case None
    with 4 show ?thesis by (auto simp: domIff)
  next
    case (Some e)
    then have first: "walk_ok edges stack marks {n} (visit edges fuel stack n marks)"
      using 4 by (auto simp: domIff)
    show ?thesis
    proof (cases "visit edges fuel stack n marks")
      case (Clear marks')
      with first have after: "search_inv edges stack marks'" "n \<in> finished marks'" "finished marks \<subseteq> finished marks'" "dom marks \<subseteq> dom marks'"
        by (simp_all add: walk_ok_def)
      have "card (dom edges - dom marks') \<le> card (dom edges - dom marks)"
        using after(4) "4.prems"(4) by (intro card_mono) auto
      then have rest: "walk_ok edges stack marks' (set ns \<inter> dom edges) (visit_each edges fuel stack ns marks')"
        using "4.IH"(3) [OF _ Clear after(1)] "4.prems" Some by simp
      have "set (n # ns) \<inter> dom edges \<subseteq> (set ns \<inter> dom edges) \<union> finished marks'" using after(2) by auto
      from walk_ok_after [OF rest after(3,4) this] show ?thesis using Some Clear by simp
    qed (use first Some in \<open>simp_all add: walk_ok_def\<close>)
  qed
qed (simp_all add: walk_ok_def)

lemma prerequisite_edges_dom: "dom (prerequisite_edges rs) = cq_key ` set rs"
  by (force simp: prerequisite_edges_def dom_map_of_conv_image_fst)

lemma prerequisite_edges_Some:
  "distinct (map cq_key rs) \<Longrightarrow> r \<in> set rs \<Longrightarrow> prerequisite_edges rs (cq_key r) = Some (prerequisites_of r)"
  unfolding prerequisite_edges_def by (intro map_of_is_SomeI) (auto simp: rev_map o_def distinct_map)

lemma prerequisite_walk_ok:
  "walk_ok (prerequisite_edges rs) [] Map.empty (cq_key ` set rs) (prerequisite_walk rs)"
proof -
  let ?edges = "prerequisite_edges rs"
  have "finite (dom ?edges)" by (simp add: prerequisite_edges_dom)
  moreover have "search_inv ?edges [] Map.empty" by (simp add: search_inv_def finished_def)
  moreover have "card (cq_key ` set rs) < length rs + 1" using card_image_le [OF finite_set, of cq_key rs] card_length [of rs] by linarith
  ultimately show ?thesis
    using search_ok(2) [of ?edges "[]" Map.empty "sort (remdups (map cq_key rs))" "length rs + 1"]
    by (simp add: prerequisite_walk_def prerequisite_edges_dom leads_to_def)
qed

text \<open>C19: The search for cyclic prerequisites is exact and always ends. It finds a cycle if and only if the
  prerequisites of the composed requirements have one, what it returns is such a cycle, written from a
  key back to the same key along prerequisites of the composition, and it never uses up the depth
  the model allows it, one more than the number of requirements.\<close>

theorem prerequisite_cycle_exact:
  "prerequisite_walk rs \<noteq> Out_of_fuel \<and>
   (prerequisite_cycle rs = None \<longleftrightarrow> acyclic (edge_rel (prerequisite_edges rs))) \<and>
   (case prerequisite_cycle rs of None \<Rightarrow> True | Some c \<Rightarrow> is_cycle (edge_rel (prerequisite_edges rs)) c)"
proof -
  let ?edges = "prerequisite_edges rs"
  note ok = prerequisite_walk_ok [of rs]
  have "acyclic (edge_rel ?edges)" if "prerequisite_walk rs = Clear marks" for marks
  proof -
    have clear: "search_inv ?edges [] marks" "dom ?edges \<subseteq> finished marks"
      using ok that by (simp_all add: walk_ok_def prerequisite_edges_dom)
    have "k \<in> dom ?edges" if "(k, l) \<in> (edge_rel ?edges)\<^sup>+" for k l
      using tranclD [OF that] by (auto simp: edge_rel_def)
    moreover have "\<forall>k\<in>finished marks. (k, k) \<notin> (edge_rel ?edges)\<^sup>+" using clear(1) by (simp add: search_inv_def)
    ultimately show ?thesis using clear(2) unfolding acyclic_def by blast
  qed
  with ok show ?thesis
    by (auto simp: walk_ok_def prerequisite_cycle_def dest: cycle_not_acyclic split: walk.splits)
qed

end
