(* ===== verification/Qualification_Evaluation.thy ===== *)
theory Qualification_Evaluation
  imports Qualification_Pack
begin

text \<open>
  What a person still needs for a record, and why (\<open>packages/qualification/src/evaluate.ts\<close>). All of it is
  pure: the record, the requirements of its composition with their definitions in force, every credit
  of the person, what they submitted and two facts of the organization. \<open>localeCompare\<close> is a parameter.
\<close>

section \<open>Facts\<close>

datatype record_state = Assigned | Qualified | Withdrawn | Superseded

record record_facts =
  rf_id :: jstr
  rf_person :: jstr
  rf_contact :: jstr
  rf_contact_name :: "jstr option"
  rf_scope_object :: "jstr option"
  rf_scope_title :: "jstr option"
  rf_state :: record_state
  rf_pack_id :: jstr
  rf_pack_key :: jstr
  rf_pack_title :: jstr
  rf_pack_revision :: nat
  rf_closing :: closing_rule

record requirement_in_force =
  if_key :: jstr
  if_part :: part
  if_pinned :: nat
  if_revision :: nat
  if_floor :: nat
  if_definition :: requirement_definition

record credit_facts =
  cf_id :: jstr
  cf_record :: jstr
  cf_record_state :: record_state
  cf_key :: jstr
  cf_revision :: nat
  cf_mode :: evidence_mode
  cf_evidence :: "jstr option"
  cf_prior :: "jstr option"
  cf_by :: jstr
  cf_at :: jstr

record submission_facts =
  sf_id :: jstr
  sf_key :: jstr
  sf_evidence :: jstr
  sf_at :: jstr
  sf_agent :: "jstr option"

datatype resource_reach = Readable | Not_granted | Missing_resource

record organization_facts =
  of_reach :: "jstr \<rightharpoonup> resource_reach"
  of_reviewer :: "jstr \<Rightarrow> bool"

datatype requirement_status = Satisfied | Gap_revised | Submitted | Open | Blocked_on_organization

datatype blocker = Resource_not_granted jstr | Resource_missing jstr | Reviewer_unavailable jstr

text \<open>A resource as the evaluation shows it: no reach stands for \<open>unknown\<close>.\<close>

record resource_view =
  rv_id :: jstr
  rv_revision :: jstr
  rv_class :: authority_class
  rv_label :: "jstr option"
  rv_reach :: "resource_reach option"

record requirement_evaluation =
  re_key :: jstr
  re_part :: part
  re_stage :: stage
  re_outcome :: jstr
  re_mode :: evidence_mode
  re_accepted_by :: jstr
  re_mandatory :: bool
  re_consequence :: "(consequence_kind \<times> jstr) option"
  re_revision :: nat
  re_floor :: nat
  re_status :: requirement_status
  re_credit :: "credit_facts option"
  re_submissions :: "submission_facts list"
  re_blockers :: "blocker list"
  re_resources :: "resource_view list"
  re_awaiting :: "jstr list"
  re_gates :: "jstr list"

datatype currency = Currency_qualified | Qualified_with_gap | Currency_open | Currency_withdrawn | Currency_superseded

record record_evaluation =
  ev_record :: record_facts
  ev_requirements :: "requirement_evaluation list"
  ev_complete :: bool
  ev_missing :: "jstr list"
  ev_gaps :: "jstr list"
  ev_blocked :: "jstr list"
  ev_currency :: currency

section \<open>Credits\<close>

definition list_or_empty :: "'a list option \<Rightarrow> 'a list" where
  "list_or_empty xs = (case xs of None \<Rightarrow> [] | Some ys \<Rightarrow> ys)"

definition applies :: "requirement_definition \<Rightarrow> jstr option \<Rightarrow> bool" where
  "applies d scope_object =
     (case rd_scope d of
        None \<Rightarrow> True
      | Some Organization_scope \<Rightarrow> True
      | Some (Object_scope object) \<Rightarrow> Some object = scope_object)"

definition counts :: "requirement_in_force \<Rightarrow> credit_facts \<Rightarrow> bool" where
  "counts r c \<longleftrightarrow> cf_key c = if_key r \<and> cf_mode c = rd_mode (if_definition r) \<and> if_floor r \<le> cf_revision c \<and>
     cf_record_state c \<noteq> Withdrawn"

definition below_floor :: "requirement_in_force \<Rightarrow> credit_facts \<Rightarrow> bool" where
  "below_floor r c \<longleftrightarrow> cf_key c = if_key r \<and> cf_mode c = rd_mode (if_definition r) \<and> cf_revision c < if_floor r \<and>
     cf_record_state c \<noteq> Withdrawn"

text \<open>\<open>b.revision - a.revision || a.creditedAt.localeCompare(b.creditedAt)\<close>.\<close>

definition newest_credit :: "(jstr \<Rightarrow> jstr \<Rightarrow> bool) \<Rightarrow> credit_facts \<Rightarrow> credit_facts \<Rightarrow> bool" where
  "newest_credit locale_le a b \<longleftrightarrow>
     cf_revision b < cf_revision a \<or> cf_revision b = cf_revision a \<and> locale_le (cf_at a) (cf_at b)"

definition first_of :: "'a list \<Rightarrow> 'a option" where
  "first_of xs = (case xs of [] \<Rightarrow> None | x # _ \<Rightarrow> Some x)"

definition current_credit :: "(jstr \<Rightarrow> jstr \<Rightarrow> bool) \<Rightarrow> requirement_in_force \<Rightarrow> credit_facts list \<Rightarrow> credit_facts option" where
  "current_credit locale_le r credits = first_of (sort_by (newest_credit locale_le) (filter (counts r) credits))"

definition stale_credit :: "requirement_in_force \<Rightarrow> credit_facts list \<Rightarrow> credit_facts option" where
  "stale_credit r credits =
     first_of (sort_by (\<lambda>a b. cf_revision b \<le> cf_revision a) (filter (below_floor r) credits))"

section \<open>One requirement\<close>

definition waiting_submissions :: "requirement_in_force \<Rightarrow> credit_facts list \<Rightarrow> submission_facts list \<Rightarrow> submission_facts list" where
  "waiting_submissions r credits submissions =
     filter (\<lambda>s. sf_key s = if_key r \<and>
       \<not> list_ex (\<lambda>c. cf_key c = if_key r \<and> if_floor r \<le> cf_revision c) credits) submissions"

definition resource_views :: "organization_facts \<Rightarrow> requirement_definition \<Rightarrow> resource_view list" where
  "resource_views org d =
     map (\<lambda>x. \<lparr>rv_id = rr_id x, rv_revision = rr_revision x, rv_class = rr_class x, rv_label = rr_label x,
               rv_reach = of_reach org (rr_id x)\<rparr>) (list_or_empty (rd_resources d))"

definition resource_blockers :: "resource_view list \<Rightarrow> blocker list" where
  "resource_blockers resources =
     concat (map (\<lambda>x. case rv_reach x of
       Some Not_granted \<Rightarrow> [Resource_not_granted (rv_id x)]
     | Some Missing_resource \<Rightarrow> [Resource_missing (rv_id x)]
     | _ \<Rightarrow> []) resources)"

definition blockers_of :: "organization_facts \<Rightarrow> requirement_definition \<Rightarrow> credit_facts option \<Rightarrow> blocker list" where
  "blockers_of org d credit =
     (if credit \<noteq> None then []
      else resource_blockers (resource_views org d) @
           (if of_reviewer org (rd_accepted_by d) then [] else [Reviewer_unavailable (rd_accepted_by d)]))"

definition status_of :: "credit_facts option \<Rightarrow> blocker list \<Rightarrow> credit_facts option \<Rightarrow> submission_facts list \<Rightarrow> requirement_status" where
  "status_of credit blockers stale waiting =
     (if credit \<noteq> None then Satisfied
      else if blockers \<noteq> [] then Blocked_on_organization
      else if stale \<noteq> None then Gap_revised
      else if waiting \<noteq> [] then Submitted
      else Open)"

definition evaluate_requirement :: "(jstr \<Rightarrow> jstr \<Rightarrow> bool) \<Rightarrow> credit_facts list \<Rightarrow> submission_facts list \<Rightarrow> organization_facts \<Rightarrow>
    jstr list \<Rightarrow> requirement_in_force \<Rightarrow> requirement_evaluation" where
  "evaluate_requirement locale_le credits submissions org satisfied r =
     (let d = if_definition r;
          credit = current_credit locale_le r credits;
          stale = stale_credit r credits;
          waiting = waiting_submissions r credits submissions;
          blockers = blockers_of org d credit in
      \<lparr>re_key = if_key r, re_part = if_part r, re_stage = rd_stage d, re_outcome = rd_outcome d, re_mode = rd_mode d,
       re_accepted_by = rd_accepted_by d, re_mandatory = rd_mandatory d, re_consequence = rd_consequence d,
       re_revision = if_revision r, re_floor = if_floor r,
       re_status = status_of credit blockers stale waiting,
       re_credit = (if credit \<noteq> None then credit else stale),
       re_submissions = waiting, re_blockers = blockers, re_resources = resource_views org d,
       re_awaiting = sort (filter (\<lambda>p. p \<notin> set satisfied) (list_or_empty (rd_prerequisites d))),
       re_gates = sort (list_or_empty (rd_gates d))\<rparr>)"

section \<open>The record\<close>

definition applicable :: "(jstr \<Rightarrow> jstr \<Rightarrow> bool) \<Rightarrow> record_facts \<Rightarrow> requirement_in_force list \<Rightarrow> requirement_in_force list" where
  "applicable locale_le rec reqs =
     sort_by (\<lambda>a b. locale_le (if_key a) (if_key b)) (filter (\<lambda>r. applies (if_definition r) (rf_scope_object rec)) reqs)"

definition satisfied_keys :: "(jstr \<Rightarrow> jstr \<Rightarrow> bool) \<Rightarrow> credit_facts list \<Rightarrow> requirement_in_force list \<Rightarrow> jstr list" where
  "satisfied_keys locale_le credits reqs = map if_key (filter (\<lambda>r. current_credit locale_le r credits \<noteq> None) reqs)"

definition currency_of :: "record_state \<Rightarrow> bool \<Rightarrow> currency" where
  "currency_of state all_done =
     (case state of
        Withdrawn \<Rightarrow> Currency_withdrawn
      | Superseded \<Rightarrow> Currency_superseded
      | Qualified \<Rightarrow> if all_done then Currency_qualified else Qualified_with_gap
      | Assigned \<Rightarrow> Currency_open)"

definition evaluate_record :: "(jstr \<Rightarrow> jstr \<Rightarrow> bool) \<Rightarrow> record_facts \<Rightarrow> requirement_in_force list \<Rightarrow> credit_facts list \<Rightarrow>
    submission_facts list \<Rightarrow> organization_facts \<Rightarrow> record_evaluation" where
  "evaluate_record locale_le rec reqs credits submissions org =
     (let app = applicable locale_le rec reqs;
          evaluated = map (evaluate_requirement locale_le credits submissions org (satisfied_keys locale_le credits app)) app;
          lacking = map re_key (filter (\<lambda>r. re_mandatory r \<and> re_status r \<noteq> Satisfied) evaluated);
          all_done = (lacking = []) in
      \<lparr>ev_record = rec, ev_requirements = evaluated, ev_complete = all_done, ev_missing = lacking,
       ev_gaps = map re_key (filter (\<lambda>r. re_status r = Gap_revised) evaluated),
       ev_blocked = map re_key (filter (\<lambda>r. re_status r = Blocked_on_organization) evaluated),
       ev_currency = currency_of (rf_state rec) all_done\<rparr>)"

section \<open>Acts\<close>

definition scope_covers :: "requirement_definition \<Rightarrow> jstr list \<Rightarrow> bool" where
  "scope_covers d targets =
     (case rd_scope d of
        None \<Rightarrow> True
      | Some Organization_scope \<Rightarrow> True
      | Some (Object_scope object) \<Rightarrow> object \<in> set targets)"

definition gaps_for_act :: "(jstr \<Rightarrow> jstr \<Rightarrow> bool) \<Rightarrow> jstr \<Rightarrow> jstr list \<Rightarrow> requirement_in_force list \<Rightarrow> credit_facts list \<Rightarrow>
    requirement_in_force list" where
  "gaps_for_act locale_le act targets in_force credits =
     sort_by (\<lambda>a b. locale_le (if_key a) (if_key b))
       (filter (\<lambda>r. current_credit locale_le r credits = None)
         (filter (\<lambda>r. scope_covers (if_definition r) targets)
           (filter (\<lambda>r. act \<in> set (list_or_empty (rd_gates (if_definition r)))) in_force)))"

definition as_in_force :: "composed_requirement list \<Rightarrow> requirement_in_force list" where
  "as_in_force composition =
     map (\<lambda>r. \<lparr>if_key = cq_key r, if_part = cq_part r, if_pinned = cq_revision r, if_revision = cq_revision r,
               if_floor = cq_revision r, if_definition = cq_definition r\<rparr>) composition"

end
