(* ===== verification/Qualification_Properties.thy ===== *)
theory Qualification_Properties
  imports Qualification_Graph Qualification_Evaluation
begin

text \<open>
  What a validated pack promises: one requirement per key, each requirement of a part once and as its
  part states it, prerequisites that resolve and do not go in circles.
\<close>

section \<open>Composition\<close>

lemma find_None_key: "find (\<lambda>c. cq_key c = k) cs = None \<longleftrightarrow> k \<notin> cq_key ` set cs"
  by (auto simp: find_None_iff)

text \<open>What one or more additions keep, whatever they report.\<close>

definition extends :: "composed_requirement set \<Rightarrow> composed_requirement list \<Rightarrow> composed_requirement list \<Rightarrow> bool" where
  "extends new cs cs' \<longleftrightarrow> set cs \<subseteq> set cs' \<and> set cs' \<subseteq> set cs \<union> new \<and> (distinct (map cq_key cs) \<longrightarrow> distinct (map cq_key cs'))"

lemma extends_refl [simp]: "extends new cs cs"
  by (simp add: extends_def)

lemma extends_trans: "extends new cs cs' \<Longrightarrow> extends new' cs' cs'' \<Longrightarrow> extends (new \<union> new') cs cs''"
  unfolding extends_def by blast

lemma extends_mono: "extends new cs cs' \<Longrightarrow> new \<subseteq> new' \<Longrightarrow> extends new' cs cs'"
  unfolding extends_def by blast

text \<open>The composition holds a requirement as a part has it.\<close>

definition holds :: "composed_requirement list \<Rightarrow> composed_requirement \<Rightarrow> bool" where
  "holds cs r \<longleftrightarrow> (\<exists>c\<in>set cs. cq_key c = cq_key r \<and> cq_revision c = cq_revision r \<and> cq_digest c = cq_digest r)"

lemma holds_mono: "holds cs r \<Longrightarrow> extends new cs cs' \<Longrightarrow> holds cs' r"
  unfolding holds_def extends_def by blast

lemma add_requirement_ok:
  assumes "add_requirement path r cs = (ps, cs')"
  shows "extends {r} cs cs'" and "ps = [] \<Longrightarrow> holds cs' r"
proof -
  consider "find (\<lambda>c. cq_key c = cq_key r) cs = None" | c where "find (\<lambda>c. cq_key c = cq_key r) cs = Some c" by fastforce
  then have "extends {r} cs cs' \<and> (ps = [] \<longrightarrow> holds cs' r)"
  proof cases
    case 1
    with assms show ?thesis by (auto simp: add_requirement_def extends_def holds_def find_None_key image_iff)
  next
    case (2 c)
    then have "c \<in> set cs" "cq_key c = cq_key r" by (auto simp: find_Some_iff)
    with assms 2 show ?thesis by (auto simp: add_requirement_def holds_def)
  qed
  then show "extends {r} cs cs'" "ps = [] \<Longrightarrow> holds cs' r" by blast+
qed

lemma add_requirements_ok:
  "add_requirements path rs cs = (ps, cs') \<Longrightarrow> extends (set rs) cs cs' \<and> (ps = [] \<longrightarrow> (\<forall>r\<in>set rs. holds cs' r))"
proof (induction rs arbitrary: cs ps cs')
  case (Cons r rs)
  obtain qs cs1 where 1: "add_requirement path r cs = (qs, cs1)" by fastforce
  obtain os cs2 where 2: "add_requirements path rs cs1 = (os, cs2)" by fastforce
  from Cons.prems 1 2 have eq: "ps = qs @ os" "cs' = cs2" by simp_all
  note first = add_requirement_ok [OF 1] and rest = Cons.IH [OF 2]
  have "extends (set (r # rs)) cs cs'" using extends_trans [OF first(1)] rest eq by simp
  moreover have "holds cs' r" if "ps = []" using first(2) rest that eq holds_mono by auto
  ultimately show ?case using rest eq by auto
qed simp

section \<open>Parts\<close>

text \<open>A part the composition was made with: approved, and all of its requirements are held.\<close>

definition taken_from :: "composed_requirement list \<Rightarrow> resolved_part \<Rightarrow> bool" where
  "taken_from cs resolved \<longleftrightarrow> rp_approved resolved \<and> \<not> rp_composes_parts resolved \<and> (\<forall>q\<in>set (rp_requirements resolved). holds cs q)"

lemma taken_from_mono: "taken_from cs resolved \<Longrightarrow> extends new cs cs' \<Longrightarrow> taken_from cs' resolved"
  unfolding taken_from_def using holds_mono by blast

definition from_part :: "composed_requirement \<Rightarrow> bool" where
  "from_part c \<longleftrightarrow> cq_via c \<noteq> None"

lemma compose_resolved_ok:
  assumes "compose_resolved part ref resolved path cs = (ps, cs')"
  shows "extends {c. from_part c} cs cs' \<and> (ps = [] \<longrightarrow> taken_from cs' resolved)"
proof (cases "rp_approved resolved \<and> \<not> rp_composes_parts resolved \<and> \<not> list_ex (\<lambda>r. cq_via r \<noteq> None) (rp_requirements resolved)")
  case True
  let ?rs = "map (\<lambda>r. r\<lparr>cq_part := part, cq_via := Some ref\<rparr>) (rp_requirements resolved)"
  from True assms have "add_requirements path ?rs cs = (ps, cs')" by (simp add: compose_resolved_def)
  note ok = add_requirements_ok [OF this]
  have "holds cs' r" if "ps = []" "r \<in> set (rp_requirements resolved)" for r
  proof -
    from ok that have "holds cs' (r\<lparr>cq_part := part, cq_via := Some ref\<rparr>)" by simp
    then show ?thesis by (simp add: holds_def)
  qed
  moreover have "extends {c. from_part c} cs cs'"
    by (rule extends_mono [OF conjunct1 [OF ok]]) (auto simp: from_part_def)
  ultimately show ?thesis using True unfolding taken_from_def by blast
next
  case False
  then have "\<exists>p. compose_resolved part ref resolved path cs = ([p], cs)"
    unfolding compose_resolved_def by (cases "rp_approved resolved"; cases "rp_composes_parts resolved") simp_all
  with assms show ?thesis by auto
qed

lemma compose_part_ok:
  assumes "compose_part parts own part ref path cs = (ps, cs')"
  shows "extends {c. from_part c} cs cs' \<and>
    (ps = [] \<longrightarrow> (\<exists>r resolved. read_part_ref ref = Some r \<and> parts r = Some resolved \<and>
       taken_from cs' resolved))"
proof (cases "is_record ref")
  case rec: True
  show ?thesis
  proof (cases "read_part_ref ref")
    case None
    with assms rec show ?thesis by (simp add: compose_part_def) auto
  next
    case (Some r)
    show ?thesis
    proof (cases "own = Some (JStr (pr_pack r)) \<or> parts r = None")
      case True
      then have "\<exists>p. compose_part parts own part ref path cs = (closed_keys ref PART_REF_KEYS path @ [p], cs)"
        using rec Some by (cases "own = Some (JStr (pr_pack r))") (simp_all add: compose_part_def)
      with assms show ?thesis by auto
    next
      case False
      then obtain resolved where r: "parts r = Some resolved" "own \<noteq> Some (JStr (pr_pack r))" by auto
      obtain qs cs1 where 1: "compose_resolved part r resolved path cs = (qs, cs1)" by fastforce
      with assms rec r Some have "ps = closed_keys ref PART_REF_KEYS path @ qs" "cs' = cs1" by (simp_all add: compose_part_def)
      with compose_resolved_ok [OF 1] r Some show ?thesis by auto
    qed
  qed
qed (use assms in \<open>simp add: compose_part_def, auto\<close>)

lemma compose_part_list_ok:
  "compose_part_list parts own part path i refs cs = (ps, cs') \<Longrightarrow>
   extends {c. from_part c} cs cs' \<and>
   (ps = [] \<longrightarrow> (\<forall>ref. Some ref \<in> set refs \<longrightarrow> (\<exists>r resolved. read_part_ref ref = Some r \<and> parts r = Some resolved \<and>
       taken_from cs' resolved)))"
proof (induction parts own part path i refs cs arbitrary: ps cs' rule: compose_part_list.induct)
  case (3 parts own part path i ref refs cs)
  obtain qs cs1 where 1: "compose_part parts own part ref (index_path path i) cs = (qs, cs1)" by fastforce
  obtain os cs2 where 2: "compose_part_list parts own part path (i + 1) refs cs1 = (os, cs2)" by fastforce
  from 3 1 2 have eq: "ps = qs @ os" "cs' = cs2" by simp_all
  note first = compose_part_ok [OF 1] and rest = "3.IH" [OF 1 [symmetric] refl 2]
  have "extends {c. from_part c} cs cs'" using extends_trans first rest eq by fastforce
  moreover have "\<exists>r resolved. read_part_ref x = Some r \<and> parts r = Some resolved \<and> taken_from cs' resolved"
    if "ps = []" "Some x \<in> set (Some ref # refs)" for x
    using that first rest eq taken_from_mono by fastforce
  ultimately show ?case by blast
qed auto

lemma compose_kinds_ok:
  "compose_kinds parts own raw_parts kinds cs = (ps, cs') \<Longrightarrow>
   extends {c. from_part c} cs cs' \<and>
   (ps = [] \<longrightarrow> (\<forall>(part, word)\<in>set kinds. \<forall>refs ref. member raw_parts word = Some (JArr refs) \<longrightarrow> Some ref \<in> set refs \<longrightarrow>
      (\<exists>r resolved. read_part_ref ref = Some r \<and> parts r = Some resolved \<and> taken_from cs' resolved)))"
proof (induction parts own raw_parts kinds cs arbitrary: ps cs' rule: compose_kinds.induct)
  case (2 parts own raw_parts part word kinds cs)
  obtain qs cs1 where 1: "compose_kind parts own raw_parts part word cs = (qs, cs1)" by fastforce
  obtain os cs2 where 2: "compose_kinds parts own raw_parts kinds cs1 = (os, cs2)" by fastforce
  from "2.prems" 1 2 have eq: "ps = qs @ os" "cs' = cs2" by simp_all
  have first: "extends {c. from_part c} cs cs1 \<and> (qs = [] \<longrightarrow> (\<forall>refs ref. member raw_parts word = Some (JArr refs) \<longrightarrow> Some ref \<in> set refs \<longrightarrow>
      (\<exists>r resolved. read_part_ref ref = Some r \<and> parts r = Some resolved \<and> taken_from cs1 resolved)))"
  proof (cases "\<exists>refs. member raw_parts word = Some (JArr refs)")
    case True
    then obtain refs where refs: "member raw_parts word = Some (JArr refs)" by blast
    with 1 have "compose_part_list parts own part (units (''$.parts.'' @ word)) 0 refs cs = (qs, cs1)" by (simp add: compose_kind_def)
    from compose_part_list_ok [OF this] refs show ?thesis by simp
  next
    case False
    with 1 have "cs1 = cs" by (auto simp: compose_kind_def Let_def split: option.splits jval.splits)
    with False show ?thesis by simp
  qed
  note rest = "2.IH" [OF 1 [symmetric] refl 2]
  have "extends {c. from_part c} cs cs'" using extends_trans first rest eq by fastforce
  moreover have "taken_from cs1 resolved \<Longrightarrow> taken_from cs' resolved" for resolved using rest eq taken_from_mono by blast
  ultimately show ?case using first rest eq by (simp split: prod.split) blast
qed simp

lemma compose_parts_ok:
  assumes "compose_parts parts raw = (ps, cs)"
  shows "extends {c. from_part c} [] cs \<and>
    (ps = [] \<longrightarrow> (\<forall>raw_parts part word refs ref. member raw ''parts'' = Some raw_parts \<longrightarrow> (part, word) \<in> set PARTS \<longrightarrow>
       member raw_parts word = Some (JArr refs) \<longrightarrow> Some ref \<in> set refs \<longrightarrow>
       (\<exists>r resolved. read_part_ref ref = Some r \<and> parts r = Some resolved \<and> taken_from cs resolved)))"
proof (cases "member raw ''parts''")
  case (Some raw_parts)
  show ?thesis
  proof (cases "is_record raw_parts")
    case True
    obtain qs cs1 where 1: "compose_kinds parts (member raw ''key'') raw_parts PARTS [] = (qs, cs1)" by fastforce
    with assms Some True have "ps = closed_keys raw_parts (map snd PARTS) (units ''$.parts'') @ qs" "cs = cs1"
      by (simp_all add: compose_parts_def)
    with compose_kinds_ok [OF 1] Some show ?thesis by fastforce
  qed (use assms Some in \<open>auto simp: compose_parts_def\<close>)
qed (use assms in \<open>auto simp: compose_parts_def\<close>)

section \<open>The pack's own requirements\<close>

text \<open>What RQ-255, RQ-259 and RQ-260 ask of one requirement.\<close>

definition well_stated :: "requirement_definition \<Rightarrow> bool" where
  "well_stated d \<longleftrightarrow>
     KEY (rd_key d) \<and> 1 \<le> rd_revision d \<and> 8 \<le> length (trim_units (rd_outcome d)) \<and>
     (rd_accepted_by d = units ''self'' \<or> rd_accepted_by d = units ''contact'' \<or> ROLE_AUTHORITY (rd_accepted_by d)) \<and>
     (rd_accepted_by d = units ''self'' \<longrightarrow> rd_mode d = Acknowledge) \<and>
     (rd_mandatory d \<longrightarrow> (\<exists>kind statement. rd_consequence d = Some (kind, statement) \<and> 8 \<le> length (trim_units statement))) \<and>
     (1 < rd_revision d \<longrightarrow> rd_impact d \<noteq> None) \<and>
     (rd_mode d = Acknowledge \<longrightarrow> (\<exists>r rs. rd_resources d = Some (r # rs)))"

lemma one_of_Some: "one_of words v = Some e \<Longrightarrow> \<exists>w. (e, w) \<in> set words \<and> v = Some (text_value w)"
  by (auto simp: one_of_def find_Some_iff) (metis nth_mem)

lemma resource_named: "snd (resource_list_problems path i seen rs) \<noteq> [] \<Longrightarrow> seen = [] \<Longrightarrow> \<exists>r. Some r \<in> set rs"
proof (induction path i seen rs rule: resource_list_problems.induct)
  case (3 path i seen r rs)
  then show ?case by auto
qed auto

lemma requirement_problems_Nil:
  assumes "requirement_problems raw path = []"
  shows "well_stated (read_definition raw)"
proof -
  obtain rps named where rs: "resources_problems raw path = (rps, named)" by fastforce
  note clean = assms [unfolded requirement_problems_def rs Let_def prod.case append_is_Nil_conv problem_if_Nil not_not]
  have key: "KEY (rd_key (read_definition raw))" "8 \<le> length (trim_units (rd_outcome (read_definition raw)))"
    using clean by (auto simp: read_definition_def text_or_empty_def matching_def has_text_def split: option.splits jval.splits)
  have revision: "1 \<le> rd_revision (read_definition raw)"
    using clean by (auto simp: read_definition_def positive_integer_def split: option.splits jval.splits if_splits)
  have mode: "one_of EVIDENCE_MODES (member raw ''evidence_mode'') = Some (rd_mode (read_definition raw))"
    using clean by (auto simp: read_definition_def)
  have acknowledged: "rd_mode (read_definition raw) = Acknowledge \<longleftrightarrow> member raw ''evidence_mode'' = Some (text_value ''acknowledge'')"
    using mode by (auto simp: one_of_def EVIDENCE_MODES_def text_value_def split: if_splits)
  have acceptance: "acceptance_problems raw path = []" using clean by blast
  then have "matching (\<lambda>s. s = units ''self'' \<or> s = units ''contact'' \<or> ROLE_AUTHORITY s) (member raw ''accepted_by'')"
    "\<not> (member raw ''accepted_by'' = Some (text_value ''self'') \<and> member raw ''evidence_mode'' \<noteq> Some (text_value ''acknowledge''))"
    by (simp_all add: acceptance_problems_def Let_def split: if_splits)
  then have accepted: "rd_accepted_by (read_definition raw) = units ''self'' \<or> rd_accepted_by (read_definition raw) = units ''contact'' \<or>
      ROLE_AUTHORITY (rd_accepted_by (read_definition raw))"
    "rd_accepted_by (read_definition raw) = units ''self'' \<longrightarrow> rd_mode (read_definition raw) = Acknowledge"
    unfolding acknowledged
    by (auto simp: matching_def read_definition_def text_or_empty_def text_value_def split: option.splits jval.splits)
  have "consequence_problems raw path = []" using clean by blast
  then have consequence: "rd_mandatory (read_definition raw) \<longrightarrow>
      (\<exists>kind statement. rd_consequence (read_definition raw) = Some (kind, statement) \<and> 8 \<le> length (trim_units statement))"
    by (auto simp: consequence_problems_def Let_def read_definition_def has_text_def text_or_empty_def split: option.splits jval.splits)
  have "impact_problems raw path = []" using clean by blast
  then have impact: "1 < rd_revision (read_definition raw) \<longrightarrow> rd_impact (read_definition raw) \<noteq> None"
    using revision unfolding impact_problems_def Let_def append_is_Nil_conv problem_if_Nil
    by (cases "member raw ''behavioural_impact''" rule: is_boolean.cases)
       (auto simp: read_definition_def read_boolean_def split: option.splits)
  have "\<exists>r rs. rd_resources (read_definition raw) = Some (r # rs)" if "rd_mode (read_definition raw) = Acknowledge"
  proof -
    have "named \<noteq> []" using that clean unfolding acknowledged by blast
    then obtain items where "member raw ''resources'' = Some (JArr items)" "snd (resource_list_problems (under path ''resources'') 0 [] items) \<noteq> []"
      using rs by (auto simp: resources_problems_def split: option.splits jval.splits)
    moreover from this(2) obtain r where "Some r \<in> set items" using resource_named by blast
    then have "filter (\<lambda>x. x \<noteq> None) items \<noteq> []" unfolding filter_empty_conv by fastforce
    ultimately show ?thesis
      by (cases "filter (\<lambda>x. x \<noteq> None) items") (simp_all add: read_definition_def present_items_def)
  qed
  with key revision accepted consequence impact show ?thesis unfolding well_stated_def by blast
qed

definition sound_own :: "composed_requirement \<Rightarrow> bool" where
  "sound_own c \<longleftrightarrow> cq_via c = None \<and> well_stated (cq_definition c) \<and> cq_key c = rd_key (cq_definition c) \<and>
     cq_revision c = rd_revision (cq_definition c)"

lemma own_requirement_ok:
  assumes "own_requirement H path raw declared cs = Inr (declared', ps, cs')"
  shows "extends {c. sound_own c} cs cs'"
proof -
  obtain qs taken where v: "validate_requirement raw path = (qs, taken)" by fastforce
  show ?thesis
  proof (cases "taken \<and> cs' \<noteq> cs")
    case True
    with assms v obtain digest os where add: "add_requirement path (read_requirement raw digest) cs = (os, cs')"
      by (auto simp: own_requirement_def Let_def bindE_eq_Inr split: if_splits prod.splits)
    have "requirement_problems raw path = []" using v True by (auto simp: validate_requirement_def split: if_splits)
    then have "sound_own (read_requirement raw digest)" using requirement_problems_Nil by (simp add: sound_own_def read_requirement_def)
    with add_requirement_ok(1) [OF add] show ?thesis by (auto intro: extends_mono)
  next
    case False
    with assms v have "cs' = cs" by (auto simp: own_requirement_def Let_def split: if_splits)
    then show ?thesis by simp
  qed
qed

lemma own_requirements_ok:
  "own_requirements H i raws declared cs = Inr (ps, cs') \<Longrightarrow> extends {c. sound_own c} cs cs'"
proof (induction H i raws declared cs arbitrary: ps cs' rule: own_requirements.induct)
  case (3 H i raw raws declared cs)
  then obtain declared1 qs cs1 os where 1: "own_requirement H (index_path (units ''$.requirements'') i) raw declared cs = Inr (declared1, qs, cs1)"
    and 2: "own_requirements H (i + 1) raws declared1 cs1 = Inr (os, cs')"
    by (auto simp: bindE_eq_Inr)
  from extends_trans [OF own_requirement_ok [OF 1] "3.IH" [OF 1 refl refl 2]] show ?case by simp
qed auto

section \<open>Validated packs\<close>

lemma filter_key_unique: "distinct (map f xs) \<Longrightarrow> c \<in> set xs \<Longrightarrow> f c = k \<Longrightarrow> filter (\<lambda>x. f x = k) xs = [c]"
  by (induction xs) (auto simp: filter_empty_conv image_iff)

lemma validated:
  assumes "validate_pack_document H locale_le parts raw = Inr v" and "pv_problems v = []"
  obtains from_parts composition raws where "compose_parts parts raw = ([], from_parts)"
    and "member raw ''requirements'' = Some (JArr raws)" and "own_requirements H 0 raws [] from_parts = Inr ([], composition)"
    and "pv_composition v = sort_by (\<lambda>a b. locale_le (cq_key a) (cq_key b)) composition"
    and "dead_prerequisites (pv_composition v) = []" and "prerequisite_cycle (pv_composition v) = None"
proof -
  obtain part_problems from_parts where parts: "compose_parts parts raw = (part_problems, from_parts)" by fastforce
  have rec: "is_record raw" using assms by (auto simp: validate_pack_document_def split: if_splits)
  let ?own = "case member raw ''requirements'' of
                  Some (JArr raws) \<Rightarrow> own_requirements H 0 raws [] from_parts
                | _ \<Rightarrow> Inr ([\<lparr>pp_code = Missing_field, pp_path = units ''$.requirements''\<rparr>], from_parts)"
  obtain own_problems composition where own: "?own = Inr (own_problems, composition)"
    and v: "pv_composition v = sort_by (\<lambda>a b. locale_le (cq_key a) (cq_key b)) composition"
      "part_problems = []" "own_problems = []" "dead_prerequisites (pv_composition v) = []" "cycle_problems (pv_composition v) = []"
    using assms rec parts unfolding validate_pack_document_def
    by (auto simp: Let_def bindE_eq_Inr)
  have "prerequisite_cycle (pv_composition v) = None" using v(5) by (simp add: cycle_problems_def split: option.splits)
  moreover obtain raws where "member raw ''requirements'' = Some (JArr raws)" "own_requirements H 0 raws [] from_parts = Inr ([], composition)"
    using own v(3) by (auto split: option.splits jval.splits)
  ultimately show ?thesis using that parts v by simp
qed

lemma validated_extends:
  assumes "validate_pack_document H locale_le parts raw = Inr v" and "pv_problems v = []"
  shows "distinct (map cq_key (pv_composition v))" and "\<forall>c\<in>set (pv_composition v). from_part c \<or> sound_own c"
    and "\<forall>r\<in>set (pv_composition v). set (prerequisites_of r) \<subseteq> cq_key ` set (pv_composition v)"
    and "acyclic (edge_rel (prerequisite_edges (pv_composition v)))"
proof -
  obtain from_parts composition raws where parts: "compose_parts parts raw = ([], from_parts)"
    and own: "own_requirements H 0 raws [] from_parts = Inr ([], composition)"
    and v: "pv_composition v = sort_by (\<lambda>a b. locale_le (cq_key a) (cq_key b)) composition"
      "dead_prerequisites (pv_composition v) = []" "prerequisite_cycle (pv_composition v) = None"
    using validated [OF assms] by metis
  have "extends {c. from_part c \<or> sound_own c} [] composition"
    by (rule extends_mono [OF extends_trans [OF conjunct1 [OF compose_parts_ok [OF parts]] own_requirements_ok [OF own]]]) auto
  then show "distinct (map cq_key (pv_composition v))" "\<forall>c\<in>set (pv_composition v). from_part c \<or> sound_own c"
    by (auto simp: v(1) distinct_map_sort_by extends_def)
  show "\<forall>r\<in>set (pv_composition v). set (prerequisites_of r) \<subseteq> cq_key ` set (pv_composition v)"
    using v(2) by (auto simp: dead_prerequisites_def)
  show "acyclic (edge_rel (prerequisite_edges (pv_composition v)))" using v(3) prerequisite_cycle_exact by blast
qed

text \<open>C20: A pack without problems is well founded. Its composition has one requirement per key; every
  prerequisite is a requirement of the composition and the prerequisites never go in a circle; and every
  requirement the pack declares itself is stated as the rules ask: a stable key and a positive revision, an
  outcome, an authority, self acceptance only of an acknowledgement, a consequence when it is
  mandatory, a declared impact from the second revision on and a named resource to acknowledge.\<close>

theorem valid_pack_well_founded:
  assumes "validate_pack_document H locale_le parts raw = Inr v" and "pv_problems v = []"
  shows "distinct (map cq_key (pv_composition v)) \<and>
    (\<forall>r\<in>set (pv_composition v). set (prerequisites_of r) \<subseteq> cq_key ` set (pv_composition v)) \<and>
    acyclic (edge_rel (prerequisite_edges (pv_composition v))) \<and>
    (\<forall>r\<in>set (pv_composition v). cq_via r = None \<longrightarrow> well_stated (cq_definition r))"
  using validated_extends [OF assms] by (auto simp: from_part_def sound_own_def)

text \<open>C39: A shared requirement is one requirement and a part is never cut short. In a pack without problems
  every part listed under \<open>common\<close>, \<open>role\<close> or \<open>scope\<close> resolves to an approved pack that composes nothing itself, and
  each requirement of that part is in the composition at the part's own revision and with its digest: two
  parts that disagree cannot both be listed, and nothing the pack declares itself replaces what a part asks.\<close>

theorem shared_requirement_once:
  assumes "validate_pack_document H locale_le parts raw = Inr v" and "pv_problems v = []"
    and "member raw ''parts'' = Some raw_parts" and "(part, word) \<in> set PARTS" and "member raw_parts word = Some (JArr refs)"
    and "Some ref \<in> set refs"
  shows "\<exists>r resolved. read_part_ref ref = Some r \<and> parts r = Some resolved \<and> rp_approved resolved \<and> \<not> rp_composes_parts resolved \<and>
    (\<forall>q\<in>set (rp_requirements resolved). \<exists>c. filter (\<lambda>c. cq_key c = cq_key q) (pv_composition v) = [c] \<and>
       cq_revision c = cq_revision q \<and> cq_digest c = cq_digest q)"
proof -
  from assms(1,2) obtain from_parts composition raws where parts: "compose_parts parts raw = ([], from_parts)"
    and own: "own_requirements H 0 raws [] from_parts = Inr ([], composition)"
    and v: "pv_composition v = sort_by (\<lambda>a b. locale_le (cq_key a) (cq_key b)) composition"
    by (rule validated)
  obtain r resolved where r: "read_part_ref ref = Some r" "parts r = Some resolved" "taken_from from_parts resolved"
    using compose_parts_ok [OF parts] assms(3-6) by blast
  have "taken_from composition resolved" by (rule taken_from_mono [OF r(3) own_requirements_ok [OF own]])
  then have "taken_from (pv_composition v) resolved" by (simp add: taken_from_def holds_def v)
  then have flags: "rp_approved resolved" "\<not> rp_composes_parts resolved"
    and held: "\<forall>q\<in>set (rp_requirements resolved). holds (pv_composition v) q" by (simp_all add: taken_from_def)
  have "\<exists>c. filter (\<lambda>c. cq_key c = cq_key q) (pv_composition v) = [c] \<and> cq_revision c = cq_revision q \<and> cq_digest c = cq_digest q"
    if "q \<in> set (rp_requirements resolved)" for q
  proof -
    from held that obtain c where c: "c \<in> set (pv_composition v)" "cq_key c = cq_key q" "cq_revision c = cq_revision q"
      "cq_digest c = cq_digest q" unfolding holds_def by blast
    from filter_key_unique [OF validated_extends(1) [OF assms(1,2)] c(1,2)] c(3,4) show ?thesis by blast
  qed
  with r(1,2) flags show ?thesis by blast
qed

end
