(* ===== verification/Qualification_Progress.thy ===== *)
theory Qualification_Progress
  imports Qualification_Properties
begin

text \<open>
  What the evaluation of a record promises: there is always something to work on, the gates of acts agree
  with what the page shows, and earning more credit never takes a satisfied requirement away.
\<close>

section \<open>Statuses\<close>

lemma sort_by_eq_Nil [simp]: "sort_by le xs = [] \<longleftrightarrow> xs = []"
  by (metis length_0_conv length_sort_by)

lemma first_of_None: "first_of xs = None \<longleftrightarrow> xs = []"
  by (simp add: first_of_def split: list.splits)

lemma current_credit_None: "current_credit locale_le r credits = None \<longleftrightarrow> (\<forall>c\<in>set credits. \<not> counts r c)"
  by (simp add: current_credit_def first_of_None filter_empty_conv)

lemma stale_credit_None: "stale_credit r credits = None \<longleftrightarrow> (\<forall>c\<in>set credits. \<not> below_floor r c)"
  by (simp add: stale_credit_def first_of_None filter_empty_conv)

lemma status_Satisfied:
  "re_status (evaluate_requirement locale_le credits submissions org sat r) = Satisfied \<longleftrightarrow> (\<exists>c\<in>set credits. counts r c)"
  using current_credit_None [of locale_le r credits] by (auto simp: evaluate_requirement_def Let_def status_of_def)

lemma evaluated_key [simp]: "re_key (evaluate_requirement locale_le credits submissions org sat r) = if_key r"
  "re_mandatory (evaluate_requirement locale_le credits submissions org sat r) = rd_mandatory (if_definition r)"
  by (simp_all add: evaluate_requirement_def Let_def)

lemma evaluated: "ev_requirements (evaluate_record locale_le rec reqs credits submissions org) =
    map (evaluate_requirement locale_le credits submissions org (satisfied_keys locale_le credits (applicable locale_le rec reqs)))
      (applicable locale_le rec reqs)"
  by (simp add: evaluate_record_def Let_def)

lemma set_applicable: "set (applicable locale_le rec reqs) = {r \<in> set reqs. applies (if_definition r) (rf_scope_object rec)}"
  by (auto simp: applicable_def)

lemma complete_iff: "ev_complete (evaluate_record locale_le rec reqs credits submissions org) \<longleftrightarrow>
    (\<forall>r\<in>set reqs. applies (if_definition r) (rf_scope_object rec) \<longrightarrow> rd_mandatory (if_definition r) \<longrightarrow> (\<exists>c\<in>set credits. counts r c))"
  by (auto simp: evaluate_record_def Let_def filter_empty_conv status_Satisfied set_applicable)

section \<open>Progress\<close>

text \<open>C18: Work on a record is never stuck. For a pack without problems whose requirements all apply to the
  record, as long as some requirement is not satisfied there is one that is not satisfied and awaits nothing:
  the prerequisites order the work and never lock it. This joins the validator, whose search for
  circles is what makes it true, with the evaluator.\<close>

theorem work_never_stuck:
  assumes valid: "validate_pack_document H locale_le parts raw = Inr v" "pv_problems v = []"
    and all: "\<forall>c\<in>set (pv_composition v). applies (cq_definition c) (rf_scope_object rec)"
    and evaluation: "ev = evaluate_record locale_le rec (as_in_force (pv_composition v)) credits submissions org"
    and lacking: "e \<in> set (ev_requirements ev)" "re_status e \<noteq> Satisfied"
  shows "\<exists>e'\<in>set (ev_requirements ev). re_status e' \<noteq> Satisfied \<and> re_awaiting e' = []"
proof -
  let ?cs = "pv_composition v"
  let ?R = "edge_rel (prerequisite_edges ?cs)"
  define force :: "composed_requirement \<Rightarrow> requirement_in_force" where "force c = \<lparr>if_key = cq_key c, if_part = cq_part c, if_pinned = cq_revision c, if_revision = cq_revision c,
      if_floor = cq_revision c, if_definition = cq_definition c\<rparr>" for c
  define app where "app = applicable locale_le rec (as_in_force ?cs)"
  define eval where "eval = evaluate_requirement locale_le credits submissions org (satisfied_keys locale_le credits app)"
  have key: "if_key (force c) = cq_key c" "if_definition (force c) = cq_definition c" for c by (simp_all add: force_def)
  have app: "set app = force ` set ?cs"
    using all by (auto simp: app_def set_applicable as_in_force_def force_def)
  have ev: "ev_requirements ev = map eval app" by (simp add: evaluation evaluated app_def eval_def)
  define lacks where "lacks c \<longleftrightarrow> (\<forall>x\<in>set credits. \<not> counts (force c) x)" for c
  have status: "re_status (eval (force c)) \<noteq> Satisfied \<longleftrightarrow> lacks c" for c by (simp add: eval_def status_Satisfied lacks_def)
  obtain c where c: "c \<in> set ?cs" "lacks c" using lacking status unfolding ev by (auto simp: app)
  have dom: "dom (prerequisite_edges ?cs) = cq_key ` set ?cs" by (rule prerequisite_edges_dom)
  have "finite (cq_key ` set ?cs \<times> cq_key ` set ?cs)" by simp
  moreover have "?R \<subseteq> cq_key ` set ?cs \<times> cq_key ` set ?cs" unfolding dom [symmetric] by (auto simp: edge_rel_def)
  ultimately have "finite ?R" by (rule finite_subset [rotated])
  then have "wf (?R\<inverse>)" using validated_extends(4) [OF valid] by (rule finite_acyclic_wf_converse)
  moreover have "cq_key c \<in> cq_key ` {c \<in> set ?cs. lacks c}" using c by blast
  ultimately obtain k where k: "k \<in> cq_key ` {c \<in> set ?cs. lacks c}"
    and least: "\<And>p. (k, p) \<in> ?R \<Longrightarrow> p \<notin> cq_key ` {c \<in> set ?cs. lacks c}"
    by (rule wfE_min) blast
  then obtain d where d: "d \<in> set ?cs" "lacks d" "cq_key d = k" by blast
  have "p \<in> set (satisfied_keys locale_le credits app)" if p: "p \<in> set (prerequisites_of d)" for p
  proof -
    from p d(1) validated_extends(3) [OF valid] obtain b where b: "b \<in> set ?cs" "cq_key b = p" by blast
    have "(k, p) \<in> ?R"
      using prerequisite_edges_Some [OF validated_extends(1) [OF valid] d(1)] p b d(3) dom by (auto simp: edge_rel_def)
    from least [OF this] b have "\<not> lacks b" by blast
    then have "current_credit locale_le (force b) credits \<noteq> None" by (auto simp: lacks_def current_credit_None)
    moreover have "force b \<in> set app" using b(1) app by simp
    ultimately have "if_key (force b) \<in> set (satisfied_keys locale_le credits app)" by (auto simp: satisfied_keys_def)
    then show ?thesis by (simp add: key b(2))
  qed
  then have "re_awaiting (eval (force d)) = []"
    by (simp add: eval_def evaluate_requirement_def Let_def key list_or_empty_def prerequisites_of_def filter_empty_conv split: option.splits)
  moreover have "eval (force d) \<in> set (ev_requirements ev)" using d(1) app by (simp add: ev)
  ultimately show ?thesis using status [of d] d(2) by blast
qed

section \<open>Gates\<close>

text \<open>C21: The gates agree with the page. For an act on the object a record is scoped to, the requirements
  \<open>gapsForAct\<close> says the person lacks are, in the same order, those the evaluation of the record shows as gating the
  act and not satisfied. So a page that shows every gating requirement satisfied promises an act that no gap
  refuses, and the other way round.\<close>

theorem gates_agree_with_record:
  assumes "comparator_order locale_le" and "rf_scope_object rec = Some object"
  shows "map if_key (gaps_for_act locale_le act [object] reqs credits) =
    map re_key (filter (\<lambda>e. act \<in> set (re_gates e) \<and> re_status e \<noteq> Satisfied)
      (ev_requirements (evaluate_record locale_le rec reqs credits submissions org)))"
proof -
  have order: "comparator_order (\<lambda>a b. locale_le (if_key a) (if_key b))"
    using assms(1) by (auto simp: comparator_order_def)
  have "applies d (Some object) = scope_covers d [object]" for d
    by (simp add: applies_def scope_covers_def split: option.splits requirement_scope.splits)
  then have app: "applicable locale_le rec reqs =
      sort_by (\<lambda>a b. locale_le (if_key a) (if_key b)) (filter (\<lambda>r. scope_covers (if_definition r) [object]) reqs)"
    by (simp add: applicable_def assms(2))
  let ?eval = "evaluate_requirement locale_le credits submissions org (satisfied_keys locale_le credits (applicable locale_le rec reqs))"
  have gate: "act \<in> set (re_gates (?eval r)) \<longleftrightarrow> act \<in> set (list_or_empty (rd_gates (if_definition r)))" for r
    by (simp add: evaluate_requirement_def Let_def)
  have lacks: "re_status (?eval r) \<noteq> Satisfied \<longleftrightarrow> current_credit locale_le r credits = None" for r
    by (simp add: status_Satisfied current_credit_None)
  have "map re_key (filter (\<lambda>e. act \<in> set (re_gates e) \<and> re_status e \<noteq> Satisfied) (map ?eval (applicable locale_le rec reqs))) =
      map if_key (filter (\<lambda>r. act \<in> set (list_or_empty (rd_gates (if_definition r))) \<and> current_credit locale_le r credits = None)
        (applicable locale_le rec reqs))"
    by (simp add: filter_map o_def gate lacks)
  also have "\<dots> = map if_key (gaps_for_act locale_le act [object] reqs credits)"
    unfolding app comparator_order.filter_sort_by [OF order] gaps_for_act_def filter_filter by (simp add: conj_commute conj_left_commute)
  finally show ?thesis by (simp add: evaluated)
qed

text \<open>C40: Credit is never lost by earning more. When the credits of a person grow, every requirement that
  was satisfied stays satisfied, a complete record stays complete, and no act gains a gap.\<close>

theorem more_credit_keeps:
  assumes "set credits \<subseteq> set credits'"
  shows "(ev_complete (evaluate_record locale_le rec reqs credits submissions org) \<longrightarrow>
      ev_complete (evaluate_record locale_le rec reqs credits' submissions' org')) \<and>
    (re_status (evaluate_requirement locale_le credits submissions org sat r) = Satisfied \<longrightarrow>
      re_status (evaluate_requirement locale_le credits' submissions' org' sat' r) = Satisfied) \<and>
    set (gaps_for_act locale_le act targets reqs credits') \<subseteq> set (gaps_for_act locale_le act targets reqs credits)"
proof -
  have "set (gaps_for_act locale_le act targets reqs credits') \<subseteq> set (gaps_for_act locale_le act targets reqs credits)"
    using assms by (auto simp: gaps_for_act_def current_credit_None)
  then show ?thesis using assms unfolding complete_iff status_Satisfied by blast
qed

end
