(* ===== verification/Qualification_Samples.thy ===== *)
theory Qualification_Samples
  imports Qualification_Progress Canonical_Total
begin

text \<open>
  A small pack on which the theorems about packs apply, composed of a part and one requirement of its own,
  and two concrete findings: a misnamed key that the validator answers with an exception, and a
  submission that credit from a withdrawn record hides.
\<close>

section \<open>A pack of two steps\<close>

definition sample_requirement :: "string \<Rightarrow> (jstr \<times> jval) list \<Rightarrow> jval" where
  "sample_requirement key extra = JObj
     ([(units ''key'', text_value key), (units ''revision'', JNum (Finite False 1 1)), (units ''part'', text_value ''role''),
       (units ''stage'', text_value ''execution''), (units ''outcome'', text_value ''can do it alone''),
       (units ''evidence_mode'', text_value ''demonstrate''), (units ''accepted_by'', text_value ''contact''),
       (units ''mandatory'', JBool False)] @ extra)"

definition sample_pack :: "(jstr \<times> jval) list \<Rightarrow> jval list \<Rightarrow> jval" where
  "sample_pack extra requirements = JObj
     ([(units ''format'', text_value PACK_FORMAT), (units ''key'', text_value ''welder''), (units ''revision'', JNum (Finite False 1 1)),
       (units ''title'', text_value ''Welder''), (units ''owner'', text_value ''role:quality''), (units ''closing'', text_value ''on_evidence''),
       (units ''requirements'', JArr (map Some requirements))] @ extra)"

definition first_requirement :: jval where
  "first_requirement = sample_requirement ''first'' []"

definition second_requirement :: jval where
  "second_requirement = sample_requirement ''second'' [(units ''prerequisites'', JArr [Some (text_value ''first'')])]"

definition sample_ref :: jval where
  "sample_ref = JObj [(units ''pack'', text_value ''safety''), (units ''revision'', JNum (Finite False 1 1))]"

definition raw_sample_parts :: jval where
  "raw_sample_parts = JObj [(units ''common'', JArr [Some sample_ref])]"

definition two_step_pack :: jval where
  "two_step_pack = sample_pack [(units ''parts'', raw_sample_parts)] [second_requirement]"

definition sample_parts :: part_resolver where
  "sample_parts r = Some \<lparr>rp_approved = True, rp_composes_parts = False, rp_requirements = [read_requirement first_requirement ''d'']\<rparr>"

definition sample_hash :: sha256 where
  "sample_hash b = replicate 64 CHR ''a''"

lemma sample_digest:
  assumes "canonicalizable (JObj (requirement_members raw))" and "units ''format'' \<notin> fst ` set (requirement_members raw)"
  shows "requirement_digest sample_hash raw = Inr (replicate 64 CHR ''a'')"
proof -
  have "is_format_tag REQUIREMENT_FORMAT" by code_simp
  from canonicalizable_digest [OF this assms] obtain d where "requirement_digest sample_hash raw = Inr d"
    by (auto simp: requirement_digest_def)
  then show ?thesis
    by (auto simp: requirement_digest_def tagged_digest_def json_digest_def bindE_eq_Inr sample_hash_def split: if_splits)
qed

lemmas reading = read_requirement_def read_definition_def sample_requirement_def first_requirement_def second_requirement_def
  member_def property_of_def text_value_def text_or_empty_def read_texts_def present_items_def prerequisites_of_def
  positive_integer_def one_of_def EVIDENCE_MODES_def

lemma one_safe: "safe_integer (Finite False (Suc 0) 1) = Some 1"
  by code_simp

lemma sample_shapes:
  "KEY (units ''first'')" "KEY (units ''second'')" "PACK_KEY (units ''welder'')" "PACK_KEY (units ''safety'')"
  "ROLE_AUTHORITY (units ''role:quality'')" "trim_units (units ''can do it alone'') = units ''can do it alone''"
  "trim_units (units ''Welder'') = units ''Welder''"
  by code_simp+

lemmas checks = requirement_problems_def resources_problems_def acceptance_problems_def consequence_problems_def impact_problems_def
  matching_def has_text_def problem_if_def PARTS_def STAGES_def string_list_def closed_keys_def

lemma length_units [simp]: "length (units s) = length s"
  by (simp add: units_def)

lemma second_taken: "validate_requirement second_requirement path = ([], True)"
  by (simp add: validate_requirement_def checks reading REQUIREMENT_KEYS_def one_safe sample_shapes)

lemma second_digest: "requirement_digest sample_hash second_requirement = Inr (replicate 64 CHR ''a'')"
  by (rule sample_digest; code_simp)

definition composed_first :: composed_requirement where
  "composed_first = (read_requirement first_requirement ''d'')\<lparr>cq_part := Common_part, cq_via := Some \<lparr>pr_pack = units ''safety'', pr_revision = 1\<rparr>\<rparr>"

definition composed_second :: composed_requirement where
  "composed_second = read_requirement second_requirement (replicate 64 CHR ''a'')"

lemma sample_compose: "compose_parts sample_parts two_step_pack = ([], [composed_first])"
  by (simp add: compose_parts_def two_step_pack_def sample_pack_def raw_sample_parts_def compose_kind_def compose_part_def compose_resolved_def
      sample_ref_def read_part_ref_def sample_parts_def PARTS_def PART_REF_KEYS_def closed_keys_def member_def property_of_def text_value_def
      text_or_empty_def positive_integer_def matching_def one_safe sample_shapes add_requirement_def composed_first_def Let_def
      read_requirement_def)

lemma composed_facts:
  "cq_key composed_first = units ''first''" "cq_revision composed_first = 1" "prerequisites_of composed_first = []"
  "cq_key composed_second = units ''second''" "prerequisites_of composed_second = [units ''first'']"
  "rd_mode (cq_definition composed_first) = Demonstrate" "rd_scope (cq_definition composed_first) = None"
  "rd_scope (cq_definition composed_second) = None" "rd_resources (cq_definition composed_first) = None"
  "rd_accepted_by (cq_definition composed_first) = units ''contact''"
  by (simp_all add: composed_first_def composed_second_def reading one_safe)

lemma first_before_second: "units ''first'' \<le> units ''second''" "\<not> units ''second'' \<le> units ''first''"
  by code_simp+

lemma sample_own: "own_requirements sample_hash 0 [Some second_requirement] [] [composed_first] = Inr ([], [composed_first, composed_second])"
proof -
  have "cq_key (read_requirement second_requirement (replicate 64 CHR ''a'')) \<noteq> cq_key composed_first"
    using composed_facts(1,4) by (simp add: composed_second_def)
  then show ?thesis
    by (simp add: own_requirement_def second_taken second_digest add_requirement_def Let_def composed_second_def split: option.split)
qed

lemma sample_acyclic: "prerequisite_cycle [composed_first, composed_second] = None"
proof -
  have "prerequisite_edges [composed_first, composed_second] = [units ''first'' \<mapsto> [], units ''second'' \<mapsto> [units ''first'']]"
    by (simp add: prerequisite_edges_def composed_facts fun_upd_twist)
  moreover have "sort (remdups (map cq_key [composed_first, composed_second])) = [units ''first'', units ''second'']"
    using first_before_second by (simp add: composed_facts)
  ultimately have "prerequisite_walk [composed_first, composed_second] =
      Clear [units ''first'' \<mapsto> Finished, units ''second'' \<mapsto> Finished]"
    by (simp add: prerequisite_walk_def eval_nat_numeral fun_upd_twist)
  then show ?thesis by (simp add: prerequisite_cycle_def)
qed

definition sample_validation :: pack_validation where
  "sample_validation = \<lparr>pv_problems = [], pv_document = Some two_step_pack, pv_composition = [composed_first, composed_second]\<rparr>"

lemma sample_valid: "validate_pack_document sample_hash (\<le>) sample_parts two_step_pack = Inr sample_validation"
proof -
  have "is_record two_step_pack" "header_problems two_step_pack = []"
    by (simp_all add: two_step_pack_def sample_pack_def header_problems_def closed_keys_def PACK_KEYS_def member_def property_of_def
        text_value_def PACK_FORMAT_def matching_def has_text_def positive_integer_def one_safe sample_shapes problem_if_def one_of_def
        CLOSING_RULES_def)
  moreover have "member two_step_pack ''requirements'' = Some (JArr [Some second_requirement])"
    by (simp add: two_step_pack_def sample_pack_def member_def property_of_def)
  moreover have "cq_key composed_first \<le> cq_key composed_second" "dead_prerequisites [composed_first, composed_second] = []"
    "cycle_problems [composed_first, composed_second] = []"
    using first_before_second by (simp_all add: composed_facts dead_prerequisites_def cycle_problems_def sample_acyclic)
  moreover from this have "sort_by (\<lambda>a b. cq_key a \<le> cq_key b) [composed_first, composed_second] = [composed_first, composed_second]"
    by (simp add: sort_by_Cons)
  ultimately show ?thesis
    by (simp add: validate_pack_document_def sample_compose sample_own sample_validation_def Let_def problem_if_def
        del: own_requirements.simps)
qed

theorem valid_pack_well_founded_witness:
  "map cq_key (pv_composition sample_validation) = [units ''first'', units ''second''] \<and>
   acyclic (edge_rel (prerequisite_edges (pv_composition sample_validation)))"
  using valid_pack_well_founded [OF sample_valid] by (simp add: sample_validation_def composed_facts)

theorem shared_requirement_once_witness:
  "\<exists>c. filter (\<lambda>c. cq_key c = units ''first'') (pv_composition sample_validation) = [c] \<and> cq_revision c = 1 \<and> cq_digest c = ''d''"
proof -
  have "member two_step_pack ''parts'' = Some raw_sample_parts" "(Common_part, ''common'') \<in> set PARTS"
    "member raw_sample_parts ''common'' = Some (JArr [Some sample_ref])"
    by (simp_all add: two_step_pack_def sample_pack_def raw_sample_parts_def member_def property_of_def PARTS_def)
  from shared_requirement_once [OF sample_valid _ this, of sample_ref]
  have "\<exists>c. filter (\<lambda>c. cq_key c = cq_key (read_requirement first_requirement ''d'')) (pv_composition sample_validation) = [c] \<and>
      cq_revision c = cq_revision (read_requirement first_requirement ''d'') \<and> cq_digest c = cq_digest (read_requirement first_requirement ''d'')"
    by (auto simp: sample_parts_def sample_validation_def)
  moreover have "cq_key (read_requirement first_requirement ''d'') = units ''first''" "cq_revision (read_requirement first_requirement ''d'') = 1"
    "cq_digest (read_requirement first_requirement ''d'') = ''d''"
    using composed_facts(1,2) by (simp_all add: composed_first_def) (simp add: read_requirement_def)
  ultimately show ?thesis by simp
qed

section \<open>A record over it\<close>

definition sample_record :: record_facts where
  "sample_record =
     \<lparr>rf_id = units ''r'', rf_person = units ''p'', rf_contact = units ''c'', rf_contact_name = None, rf_scope_object = Some (units ''site''),
      rf_scope_title = None, rf_state = Assigned, rf_pack_id = units ''k'', rf_pack_key = units ''welder'', rf_pack_title = units ''Welder'',
      rf_pack_revision = 1, rf_closing = On_evidence\<rparr>"

definition sample_organization :: organization_facts where
  "sample_organization = \<lparr>of_reach = (\<lambda>_. Some Readable), of_reviewer = (\<lambda>_. True)\<rparr>"

definition sample_credit :: "record_state \<Rightarrow> credit_facts" where
  "sample_credit state =
     \<lparr>cf_id = units ''x'', cf_record = units ''r0'', cf_record_state = state, cf_key = units ''first'', cf_revision = 1, cf_mode = Demonstrate,
      cf_evidence = None, cf_prior = None, cf_by = units ''c'', cf_at = units ''2026-01-01T00:00:00.000Z''\<rparr>"

definition sample_submission :: submission_facts where
  "sample_submission = \<lparr>sf_id = units ''s'', sf_key = units ''first'', sf_evidence = units ''e'', sf_at = units ''2026-02-01T00:00:00.000Z'', sf_agent = None\<rparr>"

definition sample_force :: "requirement_in_force list" where
  "sample_force = as_in_force [composed_first, composed_second]"

theorem work_never_stuck_witness:
  "\<exists>e\<in>set (ev_requirements (evaluate_record (\<le>) sample_record sample_force [] [] sample_organization)).
     re_status e \<noteq> Satisfied \<and> re_awaiting e = []"
proof -
  have all: "\<forall>c\<in>set (pv_composition sample_validation). applies (cq_definition c) (rf_scope_object sample_record)"
    by (simp add: sample_validation_def applies_def composed_facts)
  let ?ev = "evaluate_record (\<le>) sample_record (as_in_force (pv_composition sample_validation)) [] [] sample_organization"
  let ?e = "evaluate_requirement (\<le>) [] [] sample_organization
      (satisfied_keys (\<le>) [] (applicable (\<le>) sample_record (as_in_force (pv_composition sample_validation)))) (hd sample_force)"
  have "hd sample_force \<in> set (applicable (\<le>) sample_record (as_in_force (pv_composition sample_validation)))"
    using all by (simp add: set_applicable sample_force_def sample_validation_def as_in_force_def)
  then have "?e \<in> set (ev_requirements ?ev)" by (simp add: evaluated)
  moreover have "re_status ?e \<noteq> Satisfied" by (simp add: status_Satisfied)
  ultimately show ?thesis
    using work_never_stuck [OF sample_valid _ all refl] by (simp add: sample_force_def sample_validation_def)
qed

theorem gates_agree_with_record_witness:
  "map if_key (gaps_for_act (\<le>) (units ''weld'') [units ''site''] sample_force []) =
   map re_key (filter (\<lambda>e. units ''weld'' \<in> set (re_gates e) \<and> re_status e \<noteq> Satisfied)
     (ev_requirements (evaluate_record (\<le>) sample_record sample_force [] [] sample_organization)))"
  by (rule gates_agree_with_record) (unfold_locales, auto simp: sample_record_def)

theorem more_credit_keeps_witness:
  "re_status (evaluate_requirement (\<le>) [sample_credit Superseded, sample_credit Qualified] [] sample_organization [] (hd sample_force)) = Satisfied"
proof -
  have "counts (hd sample_force) (sample_credit Qualified)"
    by (simp add: counts_def sample_force_def as_in_force_def sample_credit_def composed_facts)
  then have "re_status (evaluate_requirement (\<le>) [sample_credit Qualified] [] sample_organization [] (hd sample_force)) = Satisfied"
    by (simp add: status_Satisfied)
  then show ?thesis
    using more_credit_keeps [of "[sample_credit Qualified]" "[sample_credit Superseded, sample_credit Qualified]"] by (simp add: status_Satisfied)
qed

section \<open>Findings\<close>

text \<open>
  A credit below no floor but from a withdrawn record, or at another mode, satisfies nothing; yet it hides every
  submission for the requirement: \<open>waiting\<close> asks neither for the mode nor for the state of the record.
\<close>

lemma uncounted_credit_hides_submissions:
  assumes "c \<in> set credits" and "cf_key c = if_key r" and "if_floor r \<le> cf_revision c"
  shows "re_submissions (evaluate_requirement locale_le credits submissions org sat r) = [] \<and>
    re_status (evaluate_requirement locale_le credits submissions org sat r) \<noteq> Submitted"
proof -
  have "waiting_submissions r credits submissions = []"
    using assms by (auto simp: waiting_submissions_def filter_empty_conv list_ex_iff)
  then show ?thesis by (simp add: evaluate_requirement_def Let_def status_of_def)
qed

text \<open>The same submission, shown without the withdrawn credit and hidden with it.\<close>

lemma withdrawn_credit_hides_submission:
  "re_status (evaluate_requirement (\<le>) [] [sample_submission] sample_organization [] (hd sample_force)) = Submitted \<and>
   re_status (evaluate_requirement (\<le>) [sample_credit Withdrawn] [sample_submission] sample_organization [] (hd sample_force)) = Open"
  by (simp add: evaluate_requirement_def Let_def status_of_def current_credit_def stale_credit_def first_of_def blockers_of_def
      resource_views_def resource_blockers_def list_or_empty_def waiting_submissions_def counts_def below_floor_def sample_credit_def
      sample_submission_def sample_organization_def sample_force_def as_in_force_def composed_facts)

text \<open>
  A requirement with the member \<open>format\<close> (say, for \<open>formats\<close>) is reported as having an unknown key but is still
  composed, and its digest refuses a member of that name: the validator throws instead of answering.
\<close>

lemma misnamed_key_throws:
  "\<exists>path. validate_pack_document sample_hash (\<le>) sample_parts
     (sample_pack [] [sample_requirement ''first'' [(units ''format'', text_value ''reading'')]]) =
   Inl (Canonicalization_error Own_format_property path)"
proof -
  let ?raw = "sample_requirement ''first'' [(units ''format'', text_value ''reading'')]"
  let ?path = "index_path (units ''$.requirements'') 0"
  obtain ps where taken: "validate_requirement ?raw ?path = (ps, True)"
  proof -
    have "snd (validate_requirement ?raw ?path)"
      by (simp add: validate_requirement_def checks reading one_safe sample_shapes)
    then show ?thesis using that by (cases "validate_requirement ?raw ?path") simp
  qed
  have "is_format_tag REQUIREMENT_FORMAT" "units ''format'' \<in> fst ` set (requirement_members ?raw)"
    by code_simp (simp add: requirement_members_def sample_requirement_def)
  then have "requirement_digest sample_hash ?raw = Inl (Canonicalization_error Own_format_property (units ''format''))"
    by (simp add: requirement_digest_def tagged_digest_def)
  moreover have "is_record (sample_pack [] [?raw])" "member (sample_pack [] [?raw]) ''requirements'' = Some (JArr [Some ?raw])"
    "compose_parts sample_parts (sample_pack [] [?raw]) = ([], [])" "is_record ?raw"
    by (simp_all add: sample_pack_def sample_requirement_def member_def property_of_def compose_parts_def)
  ultimately show ?thesis
    using taken by (simp add: validate_pack_document_def own_requirement_def Let_def split: option.split)
qed

end
