(* ===== verification/Spec2Isabelle.thy ===== *)
theory Spec2Isabelle
  imports Action_Composition Canonical_Properties Damm_Check State_Machine_Check Record_Verification
    Agent_Acts Model_Routing Seccomp_Filter Projection_Samples Checkpoint_Samples
    Qualification_Samples
begin

text \<open>
  Knowledge Fabric keeps an organization's records and lets people, services and a software agent act
  on them only through one action kernel, whose every act leaves a link in a hash-chained audit
  ledger. Around the kernel stand the parts that decide something of their own: checkpoints that sign
  the ledger, the compiler that checks the ontology, projections that read the records, qualification
  packs that say what a person needs before acting, the guard on what a model may be sent, and the
  sandbox that parses untrusted documents. This development models those parts of the TypeScript
  under \<open>src/packages\<close> and \<open>src/apps/checkpoint\<close> as functions of HOL, in the order the code has
  them, and proves what makes each of them correct. Paths below are relative to \<open>src/packages\<close> unless
  they begin with \<open>apps/\<close>.
\<close>

text \<open>
  \<^bold>\<open>Conventions.\<close> \<open>KF_Prelude\<close> holds what all components share: a result is a sum, a thrown error its
  left side, and \<open>bindE\<close> is the \<open>await\<close> or call that lets an error through; numerals as JavaScript
  prints them; code units; the stable sort by a comparator (locale \<open>comparator_order\<close>, interpreted on
  every order the code sorts by a key and on the ranks of classifications); and what holds of an
  invariant that every operation keeps (locale \<open>keeps_invariant\<close>, interpreted on the kernel's step).
  Texts that may hold any UTF-16 code unit are lists of 16-bit words (\<open>jstr\<close>) and order is the order
  of code units; arbitrary JavaScript values are the datatype \<open>jval\<close>; texts the code only compares
  or writes are character lists, so characters above U+00FF do not occur in them. Objects used as
  tables are association lists, \<open>Map\<close> is one with \<open>AList.update\<close>.

  \<^bold>\<open>Canonical JSON and digests\<close> (\<open>canonicalization/src/index.ts\<close>). \<open>Canonical_Json\<close>: \<open>serialize\<close>
  with its refusals. \<open>Canonical_Data\<close>: the datum a value stands for and its rendering, and that
  \<open>serialize\<close> refines them. \<open>Canonical_Injective\<close>: rendering and UTF-8 are injective, so canonical bytes
  determine the datum. \<open>Canonical_Total\<close>: which values have a canonical form. \<open>Audit_Links\<close>: tagged
  digests, the two audit link formats and the chain digest. \<open>Canonical_Properties\<close>: the properties.

  \<^bold>\<open>The action kernel\<close> (\<open>actions/src/internal/\<close>). \<open>Action_Requests\<close>: requests, results, options,
  refusals, the checks that read no table and the identity of a request (\<open>contracts.ts\<close>, \<open>refusals.ts\<close>,
  part of \<open>authority.ts\<close> and \<open>idempotency.ts\<close>). \<open>Audit_Ledger\<close>: the action and audit tables, appending
  a link (\<open>audit.ts\<close>) and the importer's check of a restored chain
  (\<open>export/src/internal/importer/audit-chain.ts\<close>). \<open>Action_Dispatch\<close>: every step of \<open>dispatch\<close> in order
  and the dispatcher around it (\<open>authority.ts\<close>, \<open>idempotency.ts\<close>, \<open>state.ts\<close>, \<open>application.ts\<close>,
  \<open>dispatcher.ts\<close>). The state is the record \<open>world\<close>: the two tables, the chain head, the objects and
  whatever else handlers write. What the kernel asks of SQL functions (roles, grants, visibility,
  clock, commit) is the record \<open>services\<close>; handlers are parameters, assumed only to leave the action
  and audit tables to the kernel. \<open>Action_Laws\<close> holds the laws the properties in \<open>Kernel_Properties\<close>
  rest on: what an applied act did to targets, states and ledger, and that later requests only extend
  the ledger. \<open>Action_Composition\<close>: composing handlers that own their actions
  (\<open>orchestrator/src/index.ts\<close>).

  \<^bold>\<open>Audit checkpoints\<close> (\<open>apps/checkpoint/src\<close>). \<open>Merkle_Tree\<close>: leaf and node hashes, the root level by
  level, inclusion proofs (\<open>merkle.ts\<close>), and the recursive root of RFC 6962; \<open>Merkle_Properties\<close>: the
  two agree, a root binds its leaves, proofs are complete and sound. \<open>Checkpoint_Signing\<close>: sequence
  numbers, leaves of every format, the walk over the chain, building, signing and verifying one
  checkpoint (\<open>sign/\<close>). \<open>Checkpoint_Ledger\<close>: a run over the tables and the verification of the whole
  ledger (\<open>run/\<close>). \<open>Checkpoint_Texts\<close> and \<open>Checkpoint_Leaves\<close>: that texts are canonical and leaves
  bind. \<open>Checkpoint_Properties\<close> and \<open>Checkpoint_Progress\<close>: signed history cannot change without a
  finding, ledgers that only grow verify, runs sign what is pending; \<open>Checkpoint_Samples\<close>: instances.
\<close>

text \<open>
  \<^bold>\<open>The ontology compiler\<close> (\<open>ontology-compiler/src\<close>). \<open>Damm_Check\<close>: the check digit and the identifier
  grammars (\<open>damm.ts\<close>); the locale \<open>antisymmetric_table\<close> states what a table needs to detect typing
  errors and is interpreted on the table of the source. \<open>Ontology_Model\<close> and \<open>State_Machine_Check\<close>: the
  check of state machines, its fixpoint equal to inductive reachability (\<open>check/state-machines.ts\<close>).

  \<^bold>\<open>Records and the agent.\<close> \<open>Record_Verification\<close> and \<open>Agent_Acts\<close>: what is said of a record's
  verification and the closed list of acts an agent may draft (\<open>domain/src\<close>). \<open>Model_Routing\<close>:
  classification, the router, the guard before a provider, sealed labels, the prompt's sources and the
  check of citations (\<open>agent/src\<close>). \<open>Seccomp_Filter\<close>: the system call filter of the document parsers, an
  assembled program run by an interpreter of its bytes and compared with a policy
  (\<open>documents/src/liminal-adapter/seccomp.ts\<close>); the locale \<open>classic_bpf\<close> states what one instruction
  does and is interpreted on that interpreter.

  \<^bold>\<open>Projections\<close> (\<open>projections/src\<close>). \<open>Relevance_Walk\<close>: the neighbourhood of a record and the relevance
  closure of a person (\<open>neighbourhood.ts\<close>, \<open>closure.ts\<close>), exact against definitions without queue or
  depth. \<open>Projection_Engine\<close>: binding, static bounds, filters, placing, the result and its digest, and
  the two evaluations over a part of the corpus (\<open>engine.ts\<close>). \<open>Projection_Properties\<close>: coverage, the
  equivalence of the evaluations, independence of the order; \<open>Projection_Samples\<close>: instances.

  \<^bold>\<open>Qualification\<close> (\<open>qualification/src\<close>). \<open>Qualification_Pack\<close> and \<open>Qualification_Composition\<close>: every
  check of a pack document, composition with its parts and the search for cyclic prerequisites
  (\<open>pack.ts\<close>). \<open>Qualification_Evaluation\<close>: what a person still needs (\<open>evaluate.ts\<close>).
  \<open>Qualification_Graph\<close>: the search is exact; \<open>Qualification_Properties\<close>: what a validated pack promises;
  \<open>Qualification_Progress\<close>: work is never stuck, gates agree with the page, credit is monotone;
  \<open>Qualification_Samples\<close>: instances and two findings.
\<close>

text \<open>
  \<^bold>\<open>Properties.\<close> Each is introduced by a text that begins with its number. The first ten concern the
  kernel's ledger, retries and guards, and the signed checkpoints over it; then Merkle trees, canonical
  bytes, projections, qualification, the guards of the agent, the sandbox and the compiler's checks.
  A property with hypotheses is followed, in its theory or in the component's \<open>_Samples\<close>, by an
  instance of it at concrete data, named after it with \<open>_witness\<close>.

  \<^bold>\<open>Termination and bounds.\<close> Loops are recursive functions with a measure: the fixpoint of reachable
  states (states not yet reached), the relevance closure (states of the walk not yet visited), Merkle
  levels (length), the binary search (the interval), canonicalization (size of the value), the byte
  interpreter (bytes left). Only the search for cycles of prerequisites takes fuel, one more than the
  number of requirements, and C19 shows that it never runs out. Deadlines and clocks are functions of
  the number of readings taken. Integers are mathematical where the code uses \<open>bigint\<close> or small counts
  (a \<open>row_version\<close> above 2 to the 53 would be rounded by the code; PostgreSQL counts by one); bytes,
  code units and filter instructions are words of their width.

  \<^bold>\<open>Parameters.\<close> SHA-256, HMAC, Ed25519, base64url, \<open>localeCompare\<close>, regular expressions of registry
  files, the clock and the SQL functions are arguments; what is assumed of them (no collision on the
  strings hashed, digests of 64 hexadecimal digits, a signature verifies the message it was made for,
  comparison is an order) stands in the hypotheses of the theorem that uses it.
\<close>

text \<open>
  \<^bold>\<open>Idealizations.\<close> A transaction is a function on the world whose result is kept when it commits and
  dropped otherwise: that \<open>withTransaction\<close> rolls PostgreSQL back is built into \<open>action_dispatcher\<close>, not
  proved, and requests run one after the other, as the advisory lock orders those under one key. A
  table's sequence number is its length plus one (a \<open>bigserial\<close> may skip); triggers that would refuse a
  row are not there; identifiers are compared as texts, without the case folding of \<open>uuid\<close>. The error
  text of a check digit leaves out the payload it quotes. The MAC of a sealed answer is taken of its
  characters, where the code takes their UTF-8.

  \<^bold>\<open>Not modelled:\<close> SQL, row security and migrations; HTTP, MCP, the web application and the processes
  around the packages (transport and display); the transports to models and the parsers themselves;
  search (candidates and ranks come from SQL); the other checks, the loading and the emitters of the
  ontology compiler (files and text); the repositories and acts of qualification, identity, artifacts,
  integration, export and operations (statements against the database, object storage and other
  systems); generated code, scripts and deployment. The messages of refusals are modelled where the
  code's callers read them, and left out in projections and qualification packs.
\<close>

end
